(* ===== verification/Prelude.thy ===== *)
theory Prelude
  imports
    Main
    "HOL-Library.Word"
    "HOL-Library.State_Monad"
    "HOL-Library.Monad_Syntax"
begin

text \<open>
  What the components share: the result of a Go function that may return an error or panic
  (\<open>outcome\<close>), programs that call the world outside and leave a trace of their calls
  (\<open>prog\<close>, over the state monad of the library), the \<open>for ... range\<close> loop, and the logics of
  their traces: \<open>emits Q m\<close> says that \<open>Q\<close> holds of the result of \<open>m\<close> and the calls it makes,
  \<open>policy p R m\<close> that every call satisfies \<open>p\<close> and the result \<open>R\<close>.  \<open>loop_trace\<close> and
  \<open>seq_trace\<close> relate the traces of loops and sequences to those of their parts.
\<close>

named_theorems policy_intros
section \<open>Results\<close>

type_synonym error = string
type_synonym int64 = "64 word"
type_synonym int32 = "32 word"

datatype 'a outcome = Ok 'a | Err error | Panic string

primrec obind :: "'a outcome \<Rightarrow> ('a \<Rightarrow> 'b outcome) \<Rightarrow> 'b outcome" where
  "obind (Ok a) f = f a"
| "obind (Err e) f = Err e"
| "obind (Panic m) f = Panic m"

lemma obind_eq_Ok [simp]: "obind r f = Ok b \<longleftrightarrow> (\<exists>a. r = Ok a \<and> f a = Ok b)"
  by (cases r) auto

lemma obind_eq_Panic:
  "obind r f = Panic m \<longleftrightarrow> r = Panic m \<or> (\<exists>a. r = Ok a \<and> f a = Panic m)"
  by (cases r) auto

primrec post_ok :: "('a \<Rightarrow> bool) \<Rightarrow> 'a outcome \<Rightarrow> bool" where
  "post_ok R (Ok a) = R a"
| "post_ok R (Err e) = True"
| "post_ok R (Panic m) = True"

lemma post_ok_any [simp]: "post_ok (\<lambda>_. True) = (\<lambda>_. True)"
proof
  fix r :: "'a outcome"
  show "post_ok (\<lambda>_. True) r = True" by (cases r) simp_all
qed

section \<open>Signed words\<close>

lemma sint_int64: "- (2 ^ 63) \<le> n \<Longrightarrow> n < 2 ^ 63 \<Longrightarrow> sint (word_of_int n :: int64) = n"
  by (simp add: sint_sbintrunc' signed_take_bit_int_eq_self)

section \<open>Programs and their traces\<close>

text \<open>
  The state is the world the program runs in, of any type, and the calls it has made so far with
  the responses it got.
\<close>

record ('w, 'c) st =
  world :: 'w
  trace :: "'c list"

type_synonym ('w, 'c, 'a) prog = "(('w, 'c) st, 'a) state"

abbreviation ret :: "'a \<Rightarrow> ('s, 'a) state" where
  "ret \<equiv> State_Monad.return"

definition perform :: "('w \<Rightarrow> 'r \<times> 'w) \<Rightarrow> ('r \<Rightarrow> 'c) \<Rightarrow> ('w, 'c, 'r) prog" where
  "perform f log = State (\<lambda>s. case f (world s) of
     (r, w) \<Rightarrow> (r, s\<lparr>world := w, trace := trace s @ [log r]\<rparr>))"

lemma run_perform [simp]:
  "run_state (perform f log) s =
     (fst (f (world s)), s\<lparr>world := snd (f (world s)), trace := trace s @ [log (fst (f (world s)))]\<rparr>)"
  by (simp add: perform_def split: prod.split)

text \<open>
  \<open>for x := range xs\<close> with an accumulator for the variables the body assigns.  A body that ends
  or executes \<open>continue\<close> yields \<open>Ok\<close>; \<open>return err\<close> and a panic leave the loop.
\<close>

primrec for_range :: "('x \<Rightarrow> 'a \<Rightarrow> ('s, 'a outcome) state) \<Rightarrow> 'x list \<Rightarrow> 'a \<Rightarrow> ('s, 'a outcome) state"
where
  "for_range body [] a = ret (Ok a)"
| "for_range body (x # xs) a = do {
     r \<leftarrow> body x a;
     case r of
       Ok a' \<Rightarrow> for_range body xs a'
     | Err e \<Rightarrow> ret (Err e)
     | Panic m \<Rightarrow> ret (Panic m)
   }"

text \<open>The step from one part of a function to the next, unless it has returned or panicked.\<close>

definition and_then :: "('s, 'a outcome) state \<Rightarrow> ('a \<Rightarrow> ('s, 'b outcome) state) \<Rightarrow> ('s, 'b outcome) state"
where
  "and_then m f = do {
     r \<leftarrow> m;
     case r of
       Ok a \<Rightarrow> f a
     | Err e \<Rightarrow> ret (Err e)
     | Panic p \<Rightarrow> ret (Panic p)
   }"

section \<open>Trace logic\<close>

definition emits :: "('a \<Rightarrow> 'c list \<Rightarrow> bool) \<Rightarrow> ('w, 'c, 'a) prog \<Rightarrow> bool" where
  "emits Q m \<longleftrightarrow>
     (\<forall>s. \<exists>cs. trace (snd (run_state m s)) = trace s @ cs \<and> Q (fst (run_state m s)) cs)"

lemma emitsD:
  assumes "emits Q m"
  obtains cs where "trace (snd (run_state m s)) = trace s @ cs" "Q (fst (run_state m s)) cs"
  using assms by (auto simp: emits_def)

lemma emits_mono: "emits Q m \<Longrightarrow> (\<And>a cs. Q a cs \<Longrightarrow> R a cs) \<Longrightarrow> emits R m"
  unfolding emits_def by meson

text \<open>The calls of a run are determined by the state it starts in.\<close>

lemma emits_conj: "emits Q m \<Longrightarrow> emits R m \<Longrightarrow> emits (\<lambda>a cs. Q a cs \<and> R a cs) m"
  unfolding emits_def by (metis same_append_eq)

lemma emits_return: "Q a [] \<Longrightarrow> emits Q (ret a)"
  by (simp add: emits_def)

lemma emits_perform:
  assumes "\<And>w r w'. f w = (r, w') \<Longrightarrow> Q r [log r]"
  shows "emits Q (perform f log)"
  unfolding emits_def
proof
  fix s :: "('a, 'c) st"
  obtain r w' where "f (world s) = (r, w')" by fastforce
  with assms show "\<exists>cs. trace (snd (run_state (perform f log) s)) = trace s @ cs
      \<and> Q (fst (run_state (perform f log) s)) cs"
    by auto
qed

lemma emits_bind:
  assumes "emits Q m" and "\<And>a cs. Q a cs \<Longrightarrow> emits (\<lambda>b ds. R b (cs @ ds)) (f a)"
  shows "emits R (m \<bind> f)"
  unfolding emits_def
proof
  fix s
  obtain a s' where m: "run_state m s = (a, s')" by fastforce
  from assms(1) obtain cs where cs: "trace s' = trace s @ cs" "Q a cs"
    by (rule emitsD [where s = s]) (auto simp: m)
  from assms(2) [OF cs(2)] obtain ds where
    "trace (snd (run_state (f a) s')) = trace s' @ ds" "R (fst (run_state (f a) s')) (cs @ ds)"
    by (rule emitsD [where s = s'])
  with cs m show "\<exists>cs. trace (snd (run_state (m \<bind> f) s)) = trace s @ cs
      \<and> R (fst (run_state (m \<bind> f) s)) cs"
    by auto
qed

text \<open>Symbolic execution: one call at a time.\<close>

lemma emits_call:
  "(\<And>r. emits (\<lambda>b ds. Q b (log r # ds)) (k r)) \<Longrightarrow> emits Q (perform f log \<bind> k)"
  by (rule emits_bind [where Q = "\<lambda>r cs. cs = [log r]"]) (auto intro: emits_perform)

lemma emits_last_call: "(\<And>r. Q r [log r]) \<Longrightarrow> emits Q (perform f log)"
  by (simp add: emits_perform)

lemmas emits_run = emits_call emits_last_call emits_return

definition policy :: "('c \<Rightarrow> bool) \<Rightarrow> ('a \<Rightarrow> bool) \<Rightarrow> ('w, 'c, 'a) prog \<Rightarrow> bool" where
  "policy p R m \<longleftrightarrow> emits (\<lambda>a cs. list_all p cs \<and> R a) m"

lemma policyD:
  assumes "policy p R m"
  obtains cs where "trace (snd (run_state m s)) = trace s @ cs" "list_all p cs"
    "R (fst (run_state m s))"
  using assms unfolding policy_def by (blast elim: emitsD)

lemma policy_return [policy_intros]: "R a \<Longrightarrow> policy p R (ret a)"
  by (simp add: policy_def emits_return)

lemma policy_perform [policy_intros]:
  assumes "\<And>w r w'. f w = (r, w') \<Longrightarrow> p (log r)" and "\<And>w r w'. f w = (r, w') \<Longrightarrow> R r"
  shows "policy p R (perform f log)"
  unfolding policy_def using assms by (intro emits_perform) auto

lemma policy_bind:
  assumes "policy p Q m" and "\<And>a. Q a \<Longrightarrow> policy p R (f a)"
  shows "policy p R (m \<bind> f)"
  unfolding policy_def
proof (rule emits_bind)
  show "emits (\<lambda>a cs. list_all p cs \<and> Q a) m"
    using assms(1) by (simp add: policy_def)
  fix a cs
  assume "list_all p cs \<and> Q a"
  with assms(2) [of a] show "emits (\<lambda>b ds. list_all p (cs @ ds) \<and> R b) (f a)"
    by (simp add: policy_def)
qed

lemma policy_bind_any [policy_intros]:
  assumes "policy p (\<lambda>_. True) m" and "\<And>a. policy p R (f a)"
  shows "policy p R (m \<bind> f)"
  using policy_bind [OF assms(1)] assms(2) by blast

lemma policy_for_range:
  assumes "\<And>x a. x \<in> set xs \<Longrightarrow> R a \<Longrightarrow> policy p (post_ok R) (body x a)" and "R a"
  shows "policy p (post_ok R) (for_range body xs a)"
  using assms
proof (induction xs arbitrary: a)
  case Nil
  then show ?case by (simp add: policy_return)
next
  case (Cons x xs)
  have "policy p (post_ok R) (body x a)" using Cons.prems by simp
  then show ?case
    unfolding for_range.simps
  proof (rule policy_bind)
    fix r :: "'b outcome"
    assume "post_ok R r"
    then show "policy p (post_ok R)
        (case r of Ok a' \<Rightarrow> for_range body xs a' | Err e \<Rightarrow> ret (Err e) | Panic m \<Rightarrow> ret (Panic m))"
      using Cons by (cases r) (simp_all add: policy_return)
  qed
qed

lemma policy_and_then:
  assumes "policy p (post_ok Q) m" and "\<And>a. Q a \<Longrightarrow> policy p (post_ok R) (f a)"
  shows "policy p (post_ok R) (and_then m f)"
  unfolding and_then_def
proof (rule policy_bind [OF assms(1)])
  fix r
  assume "post_ok Q r"
  then show "policy p (post_ok R)
      (case r of Ok a \<Rightarrow> f a | Err e \<Rightarrow> ret (Err e) | Panic m \<Rightarrow> ret (Panic m))"
    using assms(2) by (cases r) (simp_all add: policy_return)
qed

text \<open>
  The traces of a loop and of a sequence, from those of their parts: \<open>B x a r cs\<close> says that the
  body, run on \<open>x\<close> with the accumulator \<open>a\<close>, may yield \<open>r\<close> after the calls \<open>cs\<close>.
\<close>

inductive loop_trace :: "('x \<Rightarrow> 'a \<Rightarrow> 'a outcome \<Rightarrow> 'c list \<Rightarrow> bool) \<Rightarrow> 'x list \<Rightarrow> 'a \<Rightarrow> 'a outcome
    \<Rightarrow> 'c list \<Rightarrow> bool" for B where
  finished: "loop_trace B [] a (Ok a) []"
| again: "B x a (Ok a') cs \<Longrightarrow> loop_trace B xs a' r ds \<Longrightarrow> loop_trace B (x # xs) a r (cs @ ds)"
| returned: "B x a (Err e) cs \<Longrightarrow> loop_trace B (x # xs) a (Err e) cs"
| crashed: "B x a (Panic m) cs \<Longrightarrow> loop_trace B (x # xs) a (Panic m) cs"

inductive seq_trace :: "('a outcome \<Rightarrow> 'c list \<Rightarrow> bool) \<Rightarrow> ('a \<Rightarrow> 'b outcome \<Rightarrow> 'c list \<Rightarrow> bool)
    \<Rightarrow> 'b outcome \<Rightarrow> 'c list \<Rightarrow> bool" for A B where
  both: "A (Ok a) cs \<Longrightarrow> B a r ds \<Longrightarrow> seq_trace A B r (cs @ ds)"
| returned: "A (Err e) cs \<Longrightarrow> seq_trace A B (Err e) cs"
| crashed: "A (Panic m) cs \<Longrightarrow> seq_trace A B (Panic m) cs"

lemma emits_for_range:
  assumes "\<And>x a. x \<in> set xs \<Longrightarrow> emits (B x a) (body x a)"
  shows "emits (loop_trace B xs a) (for_range body xs a)"
  using assms
proof (induction xs arbitrary: a)
  case Nil
  then show ?case by (simp add: emits_return loop_trace.finished)
next
  case (Cons x xs)
  show ?case
    unfolding for_range.simps
  proof (rule emits_bind)
    show "emits (B x a) (body x a)" using Cons.prems by simp
    fix r cs
    assume r: "B x a r cs"
    show "emits (\<lambda>b ds. loop_trace B (x # xs) a b (cs @ ds))
        (case r of Ok a' \<Rightarrow> for_range body xs a' | Err e \<Rightarrow> ret (Err e) | Panic m \<Rightarrow> ret (Panic m))"
    proof (cases r)
      case (Ok a')
      have "emits (loop_trace B xs a') (for_range body xs a')"
        using Cons by simp
      with Ok r show ?thesis
        by (auto elim!: emits_mono intro: loop_trace.again)
    qed (use r in \<open>auto intro!: emits_return intro: loop_trace.intros\<close>)
  qed
qed

lemma emits_and_then:
  assumes "emits A m" and "\<And>a. emits (B a) (f a)"
  shows "emits (seq_trace A B) (and_then m f)"
  unfolding and_then_def
proof (rule emits_bind [OF assms(1)])
  fix r cs
  assume r: "A r cs"
  show "emits (\<lambda>b ds. seq_trace A B b (cs @ ds))
      (case r of Ok a \<Rightarrow> f a | Err e \<Rightarrow> ret (Err e) | Panic p \<Rightarrow> ret (Panic p))"
  proof (cases r)
    case (Ok a)
    with assms(2) [of a] r show ?thesis
      by (auto elim!: emits_mono intro: seq_trace.both)
  qed (use r in \<open>auto intro!: emits_return intro: seq_trace.intros\<close>)
qed

text \<open>Properties of all the calls, of the result, and of the turn of one element.\<close>

lemma loop_trace_closed:
  assumes "loop_trace B xs a r cs" and "\<And>x a r cs. x \<in> set xs \<Longrightarrow> B x a r cs \<Longrightarrow> P cs"
    and "P []" and "\<And>cs ds. P cs \<Longrightarrow> P ds \<Longrightarrow> P (cs @ ds)"
  shows "P cs"
  using assms
proof (induction)
  case (again x a a' cs xs r ds)
  have "P cs" using again.hyps(1) again.prems(1) by (meson list.set_intros(1))
  moreover have "P ds" using again.IH again.prems by (meson list.set_intros(2))
  ultimately show ?case using again.prems(3) by blast
qed (meson list.set_intros(1))+

lemma loop_trace_all:
  assumes "loop_trace B xs a r cs" and "\<And>x a r cs. x \<in> set xs \<Longrightarrow> B x a r cs \<Longrightarrow> list_all P cs"
  shows "list_all P cs"
  using assms by (rule loop_trace_closed) auto

lemma loop_trace_not_Err:
  assumes "loop_trace B xs a r cs" and "\<And>x a e cs. \<not> B x a (Err e) cs"
  shows "r \<noteq> Err e"
  using assms by (induction) auto

lemma loop_trace_turn:
  assumes "loop_trace B xs a r cs" and "r = Ok b" and "x \<in> set xs"
  obtains pre cs' post a' b' where "cs = pre @ cs' @ post" "B x a' (Ok b') cs'"
  using assms
proof (induction arbitrary: thesis)
  case (again y a a' cs xs r ds)
  then show ?case
    by (metis append_assoc append_Nil set_ConsD)
qed auto

lemma loop_trace_call:
  assumes "loop_trace B xs a r cs" and "d \<in> set cs"
  obtains x a' r' cs' where "x \<in> set xs" "B x a' r' cs'" "set cs' \<subseteq> set cs" "d \<in> set cs'"
proof -
  from assms have "\<exists>x a' r' cs'. x \<in> set xs \<and> B x a' r' cs' \<and> set cs' \<subseteq> set cs \<and> d \<in> set cs'"
  proof induction
    case (again x a a' cs xs r ds)
    show ?case
    proof (cases "d \<in> set cs")
      case True
      with again.hyps(1) show ?thesis by (intro exI [of _ x] exI [of _ a] exI [of _ "Ok a'"] exI [of _ cs]) simp
    next
      case False
      with again.prems again.IH obtain y b r' cs' where
        "y \<in> set xs" "B y b r' cs'" "set cs' \<subseteq> set ds" "d \<in> set cs'" by auto
      then show ?thesis by (intro exI [of _ y] exI [of _ b] exI [of _ r'] exI [of _ cs']) auto
    qed
  next
    case (returned x a e cs xs)
    then show ?case by (intro exI [of _ x] exI [of _ a] exI [of _ "Err e"] exI [of _ cs]) simp
  next
    case (crashed x a m cs xs)
    then show ?case by (intro exI [of _ x] exI [of _ a] exI [of _ "Panic m"] exI [of _ cs]) simp
  qed simp
  then show thesis by (blast intro: that)
qed

lemma loop_trace_Panic:
  assumes "loop_trace B xs a r cs" and "r = Panic m"
  obtains x pre cs' a' where "x \<in> set xs" "cs = pre @ cs'" "B x a' (Panic m) cs'"
  using assms
proof (induction arbitrary: thesis)
  case (again y a a' cs xs r ds)
  then show ?case
    by (metis append_assoc list.set_intros(2))
next
  case (crashed x a m' cs xs)
  then show ?case by (metis append_Nil list.set_intros(1))
qed auto

section \<open>Go strings\<close>

text \<open>Go strings are byte strings, as \<^typ>\<open>string\<close> is.\<close>

definition has_prefix :: "string \<Rightarrow> string \<Rightarrow> bool" where
  "has_prefix s p \<longleftrightarrow> length p \<le> length s \<and> take (length p) s = p"

definition has_suffix :: "string \<Rightarrow> string \<Rightarrow> bool" where
  "has_suffix s p \<longleftrightarrow> length p \<le> length s \<and> drop (length s - length p) s = p"

definition trim_prefix :: "string \<Rightarrow> string \<Rightarrow> string" where
  "trim_prefix s p = (if has_prefix s p then drop (length p) s else s)"

definition trim_suffix :: "string \<Rightarrow> string \<Rightarrow> string" where
  "trim_suffix s p = (if has_suffix s p then take (length s - length p) s else s)"

text \<open>\<open>strings.Split\<close> at a separator of one byte: never the empty list.\<close>

fun split_on :: "char \<Rightarrow> string \<Rightarrow> string list" where
  "split_on c [] = [[]]"
| "split_on c (x # xs) =
     (if x = c then [] # split_on c xs
      else case split_on c xs of [] \<Rightarrow> [[x]] | y # ys \<Rightarrow> (x # y) # ys)"

text \<open>\<open>strings.Replace\<close>: every occurrence of a byte, and the first occurrence of a string.\<close>

definition replace_char :: "char \<Rightarrow> char \<Rightarrow> string \<Rightarrow> string" where
  "replace_char old new s = map (\<lambda>c. if c = old then new else c) s"

fun replace_first :: "string \<Rightarrow> string \<Rightarrow> string \<Rightarrow> string" where
  "replace_first old new [] = (if old = [] then new else [])"
| "replace_first old new (c # cs) =
     (if has_prefix (c # cs) old then new @ drop (length old) (c # cs)
      else c # replace_first old new cs)"

text \<open>The slice expression \<open>s[:n]\<close>, which panics out of range.\<close>

definition slice_to :: "string \<Rightarrow> int \<Rightarrow> string outcome" where
  "slice_to s n =
     (if 0 \<le> n \<and> n \<le> int (length s) then Ok (take (nat n) s)
      else Panic ''slice bounds out of range'')"

lemma has_prefix_append [simp]: "has_prefix (p @ s) p"
  by (simp add: has_prefix_def)

lemma has_prefix_iff: "has_prefix s p \<longleftrightarrow> (\<exists>r. s = p @ r)"
  unfolding has_prefix_def by (metis append_eq_conv_conj append_take_drop_id length_append le_add1)

lemma trim_prefix_append [simp]: "trim_prefix (p @ s) p = s"
  by (simp add: trim_prefix_def)

lemma trim_suffix_append [simp]: "trim_suffix (s @ p) p = s"
  by (simp add: trim_suffix_def has_suffix_def)

lemma split_on_not_Nil [simp]: "split_on c s \<noteq> []"
  by (cases s) (auto split: list.split)

lemma split_on_append: "c \<notin> set p \<Longrightarrow> split_on c (p @ c # s) = p # split_on c s"
  by (induction p) auto

lemma length_split_on: "length (split_on c s) = Suc (count_list s c)"
  by (induction s) (auto split: list.split)

lemma length_replace_char [simp]: "length (replace_char a b s) = length s"
  by (simp add: replace_char_def)

end
