(* ===== verification/GoNum.thy ===== *)
theory GoNum
  imports Prelude
begin

text \<open>
  Decimal numbers as the Go library prints and reads them: \<open>fmt\<close>'s \<open>%d\<close>, the zero-padded numbers
  of package \<open>time\<close>, and \<open>strconv.ParseInt(s, 10, 64)\<close> with its syntax and range errors.
\<close>

section \<open>Digits\<close>

definition digit_char :: "nat \<Rightarrow> char" where
  "digit_char n = char_of (48 + n)"

definition is_digit :: "char \<Rightarrow> bool" where
  "is_digit c \<longleftrightarrow> 48 \<le> (of_char c :: nat) \<and> (of_char c :: nat) \<le> 57"

definition digit_val :: "char \<Rightarrow> nat" where
  "digit_val c = of_char c - 48"

lemma of_char_digit: "n < 10 \<Longrightarrow> of_char (digit_char n) = 48 + n"
  by (simp add: digit_char_def)

lemma is_digit_char [simp]: "n < 10 \<Longrightarrow> is_digit (digit_char n)"
  by (simp add: is_digit_def of_char_digit)

lemma digit_val_char [simp]: "n < 10 \<Longrightarrow> digit_val (digit_char n) = n"
  by (simp add: digit_val_def of_char_digit)

lemma digit_char_val [simp]: "is_digit c \<Longrightarrow> digit_char (digit_val c) = c"
  by (simp add: is_digit_def digit_char_def digit_val_def)

lemma not_digit:
  "\<not> is_digit CHR ''-''" "\<not> is_digit CHR ''+''" "\<not> is_digit CHR '':''" "\<not> is_digit CHR ''T''"
  "\<not> is_digit CHR ''Z''" "\<not> is_digit CHR ''.''" "\<not> is_digit CHR '',''" "\<not> is_digit CHR ''/''"
  by (simp_all add: is_digit_def)

section \<open>Printing\<close>

fun show_nat :: "nat \<Rightarrow> string" where
  "show_nat n = (if n < 10 then [digit_char n] else show_nat (n div 10) @ [digit_char (n mod 10)])"

declare show_nat.simps [simp del]

definition show_int :: "int \<Rightarrow> string" where
  "show_int i = (if i < 0 then CHR ''-'' # show_nat (nat (- i)) else show_nat (nat i))"

definition pad_zero :: "nat \<Rightarrow> string \<Rightarrow> string" where
  "pad_zero w s = replicate (w - length s) CHR ''0'' @ s"

text \<open>\<open>appendInt\<close> of package \<open>time\<close>.\<close>

definition append_int :: "int \<Rightarrow> nat \<Rightarrow> string" where
  "append_int i w =
     (if i < 0 then CHR ''-'' # pad_zero w (show_nat (nat (- i))) else pad_zero w (show_nat (nat i)))"

lemma show_nat_digits: "c \<in> set (show_nat n) \<Longrightarrow> is_digit c"
proof (induction n rule: show_nat.induct)
  case (1 n)
  then show ?case
    by (subst (asm) (2) show_nat.simps) (auto split: if_splits)
qed

lemma show_nat_not_Nil [simp]: "show_nat n \<noteq> []"
  by (subst show_nat.simps) simp

fun read_nat :: "nat \<Rightarrow> string \<Rightarrow> nat" where
  "read_nat acc [] = acc"
| "read_nat acc (c # cs) = read_nat (10 * acc + digit_val c) cs"

lemma read_nat_append: "read_nat acc (xs @ ys) = read_nat (read_nat acc xs) ys"
  by (induction xs arbitrary: acc) auto

lemma read_show_nat: "read_nat 0 (show_nat n) = n"
proof (induction n rule: show_nat.induct)
  case (1 n)
  show ?case
  proof (cases "n < 10")
    case True
    then show ?thesis by (subst show_nat.simps) simp
  next
    case False
    with 1 have "read_nat 0 (show_nat (n div 10)) = n div 10" by simp
    with False show ?thesis by (subst show_nat.simps) (simp add: read_nat_append)
  qed
qed

lemma read_nat_ge: "acc \<le> read_nat acc s"
proof (induction s arbitrary: acc)
  case (Cons c s)
  have "acc \<le> 10 * acc + digit_val c" by simp
  also have "\<dots> \<le> read_nat (10 * acc + digit_val c) s" by (rule Cons.IH)
  finally show ?case by simp
qed simp

lemma show_nat_2: "n < 100 \<Longrightarrow> 10 \<le> n \<Longrightarrow> show_nat n = [digit_char (n div 10), digit_char (n mod 10)]"
  by (subst show_nat.simps, simp, subst show_nat.simps, simp)

lemma append_int_2:
  assumes "0 \<le> i" and "i < 100"
  shows "append_int i 2 = [digit_char (nat i div 10), digit_char (nat i mod 10)]"
proof (cases "i < 10")
  case True
  have "digit_char 0 = CHR ''0''"
    using digit_char_val [of "CHR ''0''"] by (simp add: is_digit_def digit_val_def)
  moreover have "show_nat (nat i) = [digit_char (nat i)]"
    using True by (subst show_nat.simps) simp
  ultimately show ?thesis
    using assms True by (simp add: append_int_def pad_zero_def)
next
  case False
  with assms have "show_nat (nat i) = [digit_char (nat i div 10), digit_char (nat i mod 10)]"
    by (intro show_nat_2) auto
  with assms show ?thesis by (simp add: append_int_def pad_zero_def)
qed

lemma length_show_nat: "n < 10 ^ k \<Longrightarrow> 0 < k \<Longrightarrow> length (show_nat n) \<le> k"
proof (induction k arbitrary: n)
  case (Suc k)
  show ?case
  proof (cases "n < 10")
    case True
    then show ?thesis by (subst show_nat.simps) simp
  next
    case False
    then have "k \<noteq> 0" using Suc.prems by (cases k) auto
    moreover have "n div 10 < 10 ^ k" using Suc.prems by (simp add: less_mult_imp_div_less)
    ultimately have "length (show_nat (n div 10)) \<le> k" using Suc.IH by simp
    with False show ?thesis by (subst show_nat.simps) simp
  qed
qed simp

lemma read_nat_zeros: "read_nat 0 (replicate k CHR ''0'' @ s) = read_nat 0 s"
  by (induction k) (simp_all add: digit_val_def)

lemma append_int_4:
  assumes "0 \<le> i" and "i < 10000"
  shows "length (append_int i 4) = 4" "\<forall>c \<in> set (append_int i 4). is_digit c"
    "read_nat 0 (append_int i 4) = nat i"
proof -
  have "nat i < 10 ^ 4" using assms by simp
  then have "length (show_nat (nat i)) \<le> 4" by (rule length_show_nat) simp
  with assms show "length (append_int i 4) = 4"
    by (simp add: append_int_def pad_zero_def)
  show "\<forall>c \<in> set (append_int i 4). is_digit c"
    using assms by (auto simp: append_int_def pad_zero_def is_digit_def dest: show_nat_digits)
  show "read_nat 0 (append_int i 4) = nat i"
    using assms by (simp add: append_int_def pad_zero_def read_nat_zeros read_show_nat)
qed

section \<open>\<open>strconv.ParseInt(s, 10, 64)\<close>\<close>

datatype num_error = ErrSyntax | ErrRange

text \<open>The digit loop of \<open>ParseUint\<close>: the first offending character decides the error.\<close>

fun parse_uint_loop :: "nat \<Rightarrow> string \<Rightarrow> num_error + nat" where
  "parse_uint_loop n [] = Inr n"
| "parse_uint_loop n (c # cs) =
     (if \<not> is_digit c then Inl ErrSyntax
      else if 2 ^ 64 \<le> 10 * n + digit_val c then Inl ErrRange
      else parse_uint_loop (10 * n + digit_val c) cs)"

definition parse_uint64 :: "string \<Rightarrow> num_error + nat" where
  "parse_uint64 s = (if s = [] then Inl ErrSyntax else parse_uint_loop 0 s)"

definition ParseInt64 :: "string \<Rightarrow> num_error + int64" where
  "ParseInt64 s =
     (if s = [] then Inl ErrSyntax
      else
        let neg = (hd s = CHR ''-'');
            digits = (if hd s = CHR ''+'' \<or> hd s = CHR ''-'' then tl s else s)
        in case parse_uint64 digits of
             Inl e \<Rightarrow> Inl e
           | Inr un \<Rightarrow>
               if \<not> neg \<and> 2 ^ 63 \<le> un then Inl ErrRange
               else if neg \<and> 2 ^ 63 < un then Inl ErrRange
               else Inr (if neg then - of_nat un else of_nat un))"

lemma parse_uint_loop_digits:
  assumes "\<forall>c \<in> set s. is_digit c" and "read_nat n s < 2 ^ 64"
  shows "parse_uint_loop n s = Inr (read_nat n s)"
  using assms
proof (induction s arbitrary: n)
  case (Cons c s)
  have "10 * n + digit_val c < 2 ^ 64"
    using Cons.prems(2) read_nat_ge [of "10 * n + digit_val c" s] by simp
  then show ?case using Cons by simp
qed simp

lemma parse_uint64_show: "n < 2 ^ 64 \<Longrightarrow> parse_uint64 (show_nat n) = Inr n"
  using parse_uint_loop_digits [of "show_nat n" 0]
  by (simp add: parse_uint64_def show_nat_digits read_show_nat)

lemma hd_show_nat: "hd (show_nat n) \<noteq> CHR ''-''" "hd (show_nat n) \<noteq> CHR ''+''"
  using show_nat_digits [of "hd (show_nat n)" n] not_digit by auto

lemma ParseInt64_show:
  fixes g :: int64
  shows "ParseInt64 (show_int (sint g)) = Inr g"
proof (cases "sint g < 0")
  case True
  have "- (2 ^ 63) \<le> sint g" using sint_ge [of g] by simp
  then have u: "nat (- sint g) \<le> 2 ^ 63" by simp
  then have "parse_uint64 (show_nat (nat (- sint g))) = Inr (nat (- sint g))"
    by (intro parse_uint64_show) simp
  moreover have "- of_nat (nat (- sint g)) = g"
  proof -
    have "(of_nat (nat (- sint g)) :: int64) = of_int (- sint g)"
      using True by (subst of_nat_nat) simp_all
    then show ?thesis by simp
  qed
  ultimately show ?thesis
    using True u by (simp add: ParseInt64_def show_int_def)
next
  case False
  have "sint g < 2 ^ 63" using sint_lt [of g] by simp
  then have u: "nat (sint g) < 2 ^ 63" by simp
  then have "parse_uint64 (show_nat (nat (sint g))) = Inr (nat (sint g))"
    by (intro parse_uint64_show) simp
  moreover have "of_nat (nat (sint g)) = g"
    using False by (subst of_nat_nat) simp_all
  ultimately show ?thesis
    using False u hd_show_nat [of "nat (sint g)"] by (simp add: ParseInt64_def show_int_def)
qed

lemma ParseInt64_Nil [simp]: "ParseInt64 [] = Inl ErrSyntax"
  by (simp add: ParseInt64_def)

end
