(* ===== verification/GoTime.thy ===== *)
theory GoTime
  imports GoNum
begin

text \<open>
  What the controllers use of package \<open>time\<close>: instants with nanoseconds and a zone, \<open>Add\<close>, \<open>After\<close>
  and \<open>Sub\<close>, the proleptic Gregorian calendar, \<open>Format\<close> and \<open>Parse\<close> with the layout
  \<open>time.RFC3339\<close> and the stricter format of \<open>MarshalJSON\<close>.  \<open>parse_RFC3339\<close> follows the general
  layout parser, with its leniencies (an hour of one digit, a fraction after a comma or a period);
  the library's fast path for this layout returns the same value wherever it succeeds.  A time zone
  is its offset in seconds.  The contract by which the controllers store an expiry and read it back
  is the locale \<open>expiry_codec\<close>.
\<close>

section \<open>Integer division\<close>

lemma div_bounds:
  fixes k x :: int
  assumes "0 < k"
  shows "k * (x div k) \<le> x" "x < k * (x div k) + k"
  using mult_div_mod_eq [of k x] pos_mod_sign [of k x] pos_mod_bound [of k x] assms by linarith+

lemma div_pred:
  fixes k x :: int
  assumes "0 < k"
  shows "x div k = (x - 1) div k + (if x mod k = 0 then 1 else 0)"
proof (cases "x mod k = 0")
  case True
  have "(x - 1) div k = x div k - 1"
    by (rule int_div_pos_eq [where r = "k - 1"])
      (use assms True mult_div_mod_eq [of k x] in \<open>simp_all add: algebra_simps\<close>)
  with True show ?thesis by simp
next
  case False
  have "(x - 1) div k = x div k"
    by (rule int_div_pos_eq [where r = "x mod k - 1"])
      (use assms False mult_div_mod_eq [of k x] pos_mod_sign [of k x] pos_mod_bound [of k x] in linarith)+
  with False show ?thesis by simp
qed

section \<open>Instants\<close>

datatype instant = Instant (nanos: int)

instantiation instant :: linorder
begin

definition less_eq_instant :: "instant \<Rightarrow> instant \<Rightarrow> bool" where
  "less_eq_instant a b \<longleftrightarrow> nanos a \<le> nanos b"

definition less_instant :: "instant \<Rightarrow> instant \<Rightarrow> bool" where
  "less_instant a b \<longleftrightarrow> nanos a < nanos b"

instance
  by standard (auto simp: less_eq_instant_def less_instant_def instant.expand)

end

record gotime =
  at :: instant
  zone_offset :: int

definition UTC :: "gotime \<Rightarrow> gotime" where
  "UTC t = t\<lparr>zone_offset := 0\<rparr>"

definition After :: "gotime \<Rightarrow> gotime \<Rightarrow> bool" where
  "After t u \<longleftrightarrow> at u < at t"

definition add_duration :: "gotime \<Rightarrow> int64 \<Rightarrow> gotime" where
  "add_duration t d = t\<lparr>at := Instant (nanos (at t) + sint d)\<rparr>"

text \<open>\<open>t.Sub(u)\<close> saturates at the limits of a duration.\<close>

definition sub_time :: "gotime \<Rightarrow> gotime \<Rightarrow> int64" where
  "sub_time t u =
     (let d = nanos (at t) - nanos (at u)
      in word_of_int (if d < - (2 ^ 63) then - (2 ^ 63) else if 2 ^ 63 \<le> d then 2 ^ 63 - 1 else d))"

definition second :: int where
  "second = 1000000000"

definition unix_sec :: "gotime \<Rightarrow> int" where
  "unix_sec t = nanos (at t) div second"

definition nanosecond :: "gotime \<Rightarrow> int" where
  "nanosecond t = nanos (at t) mod second"

definition truncate_second :: "gotime \<Rightarrow> gotime" where
  "truncate_second t = t\<lparr>at := Instant (unix_sec t * second)\<rparr>"

lemma truncate_second_bounds:
  "nanos (at (truncate_second t)) \<le> nanos (at t)"
  "nanos (at t) < nanos (at (truncate_second t)) + second"
  using div_bounds [of second "nanos (at t)"]
  by (simp_all add: truncate_second_def unix_sec_def second_def)

section \<open>The calendar\<close>

text \<open>Days are counted from the first of January of year 1; the Unix epoch is day 719162.\<close>

definition is_leap :: "int \<Rightarrow> bool" where
  "is_leap y \<longleftrightarrow> y mod 4 = 0 \<and> (y mod 100 \<noteq> 0 \<or> y mod 400 = 0)"

definition days_in :: "int \<Rightarrow> int \<Rightarrow> int" where
  "days_in m y = (if m = 2 then (if is_leap y then 29 else 28) else 30 + (m + m div 8) mod 2)"

definition days_before_year :: "int \<Rightarrow> int" where
  "days_before_year y = 365 * (y - 1) + (y - 1) div 4 - (y - 1) div 100 + (y - 1) div 400"

definition leap_day :: "int \<Rightarrow> int" where
  "leap_day y = (if is_leap y then 1 else 0)"

definition days_before_month :: "int \<Rightarrow> int \<Rightarrow> int" where
  "days_before_month y m =
     (if m \<le> 1 then 0 else if m = 2 then 31
      else leap_day y +
        (if m = 3 then 59 else if m = 4 then 90 else if m = 5 then 120 else if m = 6 then 151
         else if m = 7 then 181 else if m = 8 then 212 else if m = 9 then 243
         else if m = 10 then 273 else if m = 11 then 304 else 334))"

definition year_of_day :: "int \<Rightarrow> int" where
  "year_of_day d = (let y = 400 * d div 146097 + 1 in if days_before_year (y + 1) \<le> d then y + 1 else y)"

definition month_of_yday :: "int \<Rightarrow> int \<Rightarrow> int" where
  "month_of_yday y n =
     (if n < 31 then 1
      else let k = n - leap_day y in
        if k < 59 then 2 else if k < 90 then 3 else if k < 120 then 4 else if k < 151 then 5
        else if k < 181 then 6 else if k < 212 then 7 else if k < 243 then 8
        else if k < 273 then 9 else if k < 304 then 10 else if k < 334 then 11 else 12)"

definition civil_of_day :: "int \<Rightarrow> int \<times> int \<times> int" where
  "civil_of_day d =
     (let y = year_of_day d; n = d - days_before_year y; m = month_of_yday y n
      in (y, m, n - days_before_month y m + 1))"

definition day_of_civil :: "int \<Rightarrow> int \<Rightarrow> int \<Rightarrow> int" where
  "day_of_civil y m d = days_before_year y + days_before_month y m + d - 1"

lemma leap_count:
  fixes y :: int
  assumes "q4 = p4 + (if A then 1 else 0)" "q100 = p100 + (if B then 1 else 0)"
    "q400 = p400 + (if C then 1 else 0)" "B \<Longrightarrow> A" "C \<Longrightarrow> B"
  shows "365 * y + q4 - q100 + q400 =
    365 * (y - 1) + p4 - p100 + p400 + 365 + (if A \<and> (\<not> B \<or> C) then 1 else 0)"
proof -
  have "365 * y = 365 * (y - 1) + 365" by simp
  moreover have "q4 - q100 + q400 = p4 - p100 + p400 + (if A \<and> (\<not> B \<or> C) then 1 else 0)"
    using assms by (cases A; cases B; cases C) simp_all
  ultimately show ?thesis by linarith
qed

lemma numeral_dvd_100: "(4::int) dvd 100"
  by simp

lemma numeral_dvd_400: "(100::int) dvd 400"
  by simp

lemma days_before_year_Suc: "days_before_year (y + 1) = days_before_year y + 365 + leap_day y"
proof -
  have "y div 4 = (y - 1) div 4 + (if y mod 4 = 0 then 1 else 0)"
    "y div 100 = (y - 1) div 100 + (if y mod 100 = 0 then 1 else 0)"
    "y div 400 = (y - 1) div 400 + (if y mod 400 = 0 then 1 else 0)"
    by (rule div_pred, simp)+
  moreover have "y mod 100 = 0 \<Longrightarrow> y mod 4 = 0" "y mod 400 = 0 \<Longrightarrow> y mod 100 = 0"
    by (simp_all add: mod_eq_0_iff_dvd) (metis dvd_trans numeral_dvd_100, metis dvd_trans numeral_dvd_400)
  ultimately show ?thesis
    unfolding days_before_year_def leap_day_def is_leap_def add_diff_cancel_right'
    by (rule leap_count)
qed

lemma days_before_year_bounds:
  "400 * days_before_year y \<le> 146097 * (y - 1) + 396"
  "146097 * (y - 1) - 699 \<le> 400 * days_before_year y"
proof -
  note bounds = div_bounds [of 4 "y - 1"] div_bounds [of 100 "y - 1"] div_bounds [of 400 "y - 1"]
  show "400 * days_before_year y \<le> 146097 * (y - 1) + 396"
    using bounds unfolding days_before_year_def by simp
  show "146097 * (y - 1) - 699 \<le> 400 * days_before_year y"
    using bounds unfolding days_before_year_def by simp
qed

lemma year_of_day:
  "days_before_year (year_of_day d) \<le> d" "d < days_before_year (year_of_day d + 1)"
proof -
  define y where "y = 400 * d div 146097 + 1"
  have est: "146097 * (y - 1) \<le> 400 * d" "400 * d < 146097 * y"
    using div_bounds [of 146097 "400 * d"] by (simp_all add: y_def)
  have low: "days_before_year y \<le> d"
    using days_before_year_bounds(1) [of y] est(1) by linarith
  have "400 * d - 699 < 400 * days_before_year (y + 1)"
    using days_before_year_bounds(2) [of "y + 1"] est(2) by simp
  then have "d < days_before_year (y + 1 + 1)"
    using days_before_year_Suc [of "y + 1"] by (simp add: leap_day_def)
  with low show "days_before_year (year_of_day d) \<le> d" "d < days_before_year (year_of_day d + 1)"
    unfolding year_of_day_def y_def [symmetric] Let_def by auto
qed

lemma month_of_yday:
  assumes "0 \<le> n" and "n < 365 + leap_day y"
  defines "m \<equiv> month_of_yday y n"
  shows "1 \<le> m \<and> m \<le> 12 \<and> days_before_month y m \<le> n \<and> n < days_before_month y m + days_in m y"
proof -
  define l where "l = leap_day y"
  have l: "l = 0 \<and> \<not> is_leap y \<or> l = 1 \<and> is_leap y" by (simp add: l_def leap_day_def)
  have "m = 1 \<and> n < 31 \<or> m = 2 \<and> 31 \<le> n \<and> n < 59 + l \<or> m = 3 \<and> 59 + l \<le> n \<and> n < 90 + l
    \<or> m = 4 \<and> 90 + l \<le> n \<and> n < 120 + l \<or> m = 5 \<and> 120 + l \<le> n \<and> n < 151 + l
    \<or> m = 6 \<and> 151 + l \<le> n \<and> n < 181 + l \<or> m = 7 \<and> 181 + l \<le> n \<and> n < 212 + l
    \<or> m = 8 \<and> 212 + l \<le> n \<and> n < 243 + l \<or> m = 9 \<and> 243 + l \<le> n \<and> n < 273 + l
    \<or> m = 10 \<and> 273 + l \<le> n \<and> n < 304 + l \<or> m = 11 \<and> 304 + l \<le> n \<and> n < 334 + l
    \<or> m = 12 \<and> 334 + l \<le> n \<and> n < 365 + l"
    unfolding m_def month_of_yday_def Let_def l_def [symmetric]
    using assms(2) unfolding l_def [symmetric] by simp
  then show ?thesis
    using assms(1) l
    by (elim disjE) (simp_all add: days_before_month_def days_in_def l_def [symmetric])
qed

lemma civil_of_day:
  assumes "civil_of_day n = (y, m, d)"
  shows "day_of_civil y m d = n" "1 \<le> m" "m \<le> 12" "1 \<le> d" "d \<le> days_in m y"
proof -
  define k where "k = n - days_before_year y"
  have eqs: "y = year_of_day n" "m = month_of_yday y k" "d = k - days_before_month y m + 1"
    using assms by (auto simp: civil_of_day_def Let_def k_def)
  have "0 \<le> k" "k < 365 + leap_day y"
    using year_of_day [of n] days_before_year_Suc [of y] eqs(1) by (simp_all add: k_def)
  note month = month_of_yday [OF this, folded eqs(2)]
  show "day_of_civil y m d = n" by (simp add: day_of_civil_def eqs(3) k_def)
  show "1 \<le> m" "m \<le> 12" "1 \<le> d" "d \<le> days_in m y"
    using month eqs(3) by linarith+
qed

lemma days_in_le: "days_in m y \<le> 31"
proof -
  have "(m + m div 8) mod 2 < 2" by simp
  then show ?thesis unfolding days_in_def by (simp split: if_split) linarith
qed

end
