(* ===== verification/GoTimeFormat.thy ===== *)
theory GoTimeFormat
  imports GoTime
begin

text \<open>
  \<open>Format(time.RFC3339)\<close>, \<open>time.Parse(time.RFC3339, s)\<close> and the RFC 3339 text of
  \<open>Time.MarshalJSON\<close>, and the proof that parsing a formatted time gives it back, truncated to the
  second.  The contract is stated as the locale \<open>expiry_codec\<close>.
\<close>

section \<open>Formatting\<close>

definition local_sec :: "gotime \<Rightarrow> int" where
  "local_sec t = unix_sec t + zone_offset t"

definition epoch_day :: int where
  "epoch_day = 719162"

definition civil :: "gotime \<Rightarrow> int \<times> int \<times> int" where
  "civil t = civil_of_day (local_sec t div 86400 + epoch_day)"

definition day_sec :: "gotime \<Rightarrow> int" where
  "day_sec t = local_sec t mod 86400"

definition format_zone :: "int \<Rightarrow> string" where
  "format_zone off =
     (if off = 0 then ''Z''
      else let z = (if off < 0 then - off else off) div 60
           in (if off < 0 \<and> z \<noteq> 0 then CHR ''-'' else CHR ''+'')
                # append_int (z div 60) 2 @ CHR '':'' # append_int (z mod 60) 2)"

definition format_date :: "gotime \<Rightarrow> string" where
  "format_date t = (case civil t of (y, m, d) \<Rightarrow>
     append_int y 4 @ CHR ''-'' # append_int m 2 @ CHR ''-'' # append_int d 2)"

definition format_clock :: "gotime \<Rightarrow> string" where
  "format_clock t = append_int (day_sec t div 3600) 2 @ CHR '':''
     # append_int (day_sec t mod 3600 div 60) 2 @ CHR '':'' # append_int (day_sec t mod 60) 2"

definition format_RFC3339 :: "gotime \<Rightarrow> string" where
  "format_RFC3339 t = format_date t @ CHR ''T'' # format_clock t @ format_zone (zone_offset t)"

text \<open>
  The fraction of the layout \<open>RFC3339Nano\<close>, without trailing zeros, and \<open>appendStrictRFC3339\<close>,
  which refuses a year that does not take four digits and a zone of 24 hours or more.
\<close>

definition format_fraction :: "int \<Rightarrow> string" where
  "format_fraction ns =
     (if ns = 0 then [] else CHR ''.'' # rev (dropWhile (\<lambda>c. c = CHR ''0'') (rev (append_int ns 9))))"

definition format_strict_nano :: "gotime \<Rightarrow> string outcome" where
  "format_strict_nano t =
     (case civil t of (y, m, d) \<Rightarrow>
        if y < 0 \<or> 9999 < y then Err ''Time.MarshalJSON: year outside of range [0,9999]''
        else if 24 \<le> \<bar>zone_offset t\<bar> div 3600
        then Err ''Time.MarshalJSON: timezone hour outside of range [0,23]''
        else Ok (format_date t @ CHR ''T'' # format_clock t @ format_fraction (nanosecond t)
                 @ format_zone (zone_offset t)))"

section \<open>Parsing\<close>

definition skip :: "char \<Rightarrow> string \<Rightarrow> string option" where
  "skip c s = (case s of x # xs \<Rightarrow> if x = c then Some xs else None | [] \<Rightarrow> None)"

definition getnum :: "bool \<Rightarrow> string \<Rightarrow> (int \<times> string) option" where
  "getnum fixed s =
     (case s of
        [] \<Rightarrow> None
      | c # cs \<Rightarrow>
          if \<not> is_digit c then None
          else if cs \<noteq> [] \<and> is_digit (hd cs)
          then Some (10 * int (digit_val c) + int (digit_val (hd cs)), tl cs)
          else if fixed then None
          else Some (int (digit_val c), cs))"

definition get_year :: "string \<Rightarrow> (int \<times> string) option" where
  "get_year s =
     (if 4 \<le> length s \<and> list_all is_digit (take 4 s)
      then Some (int (read_nat 0 (take 4 s)), drop 4 s) else None)"

definition in_range :: "int \<Rightarrow> int \<Rightarrow> int \<times> string \<Rightarrow> (int \<times> string) option" where
  "in_range lo hi r = (if lo \<le> fst r \<and> fst r \<le> hi then Some r else None)"

text \<open>A fraction of a second that the layout does not ask for is accepted after the seconds.\<close>

definition get_fraction :: "string \<Rightarrow> int \<times> string" where
  "get_fraction s =
     (if 2 \<le> length s \<and> (s ! 0 = CHR ''.'' \<or> s ! 0 = CHR '','') \<and> is_digit (s ! 1)
      then let ds = takeWhile is_digit (tl s); used = take 9 ds
           in (int (read_nat 0 used) * 10 ^ (9 - length used), drop (length ds) (tl s))
      else (0, s))"

definition get_zone :: "string \<Rightarrow> (int \<times> string) option" where
  "get_zone s =
     (if s \<noteq> [] \<and> hd s = CHR ''Z'' then Some (0, tl s)
      else if length s < 6 \<or> s ! 3 \<noteq> CHR '':'' then None
      else do {
        (hr, _) \<leftarrow> getnum True (take 2 (drop 1 s));
        (mm, _) \<leftarrow> getnum True (take 2 (drop 4 s));
        if 24 < hr \<or> 60 < mm then None
        else if hd s = CHR ''+'' then Some ((hr * 60 + mm) * 60, drop 6 s)
        else if hd s = CHR ''-'' then Some (- ((hr * 60 + mm) * 60), drop 6 s)
        else None
      })"

definition make_time :: "int \<Rightarrow> int \<Rightarrow> int \<Rightarrow> int \<Rightarrow> int \<Rightarrow> int \<Rightarrow> int \<Rightarrow> int \<Rightarrow> gotime" where
  "make_time y m d h mi s ns off =
     \<lparr>at = Instant (((day_of_civil y m d - epoch_day) * 86400 + h * 3600 + mi * 60 + s - off) * second + ns),
      zone_offset = off\<rparr>"

definition parse_RFC3339 :: "string \<Rightarrow> gotime option" where
  "parse_RFC3339 s = do {
     (year, s) \<leftarrow> get_year s;
     s \<leftarrow> skip CHR ''-'' s;
     r \<leftarrow> getnum True s;
     (month, s) \<leftarrow> in_range 1 12 r;
     s \<leftarrow> skip CHR ''-'' s;
     (day, s) \<leftarrow> getnum True s;
     s \<leftarrow> skip CHR ''T'' s;
     r \<leftarrow> getnum False s;
     (hour, s) \<leftarrow> in_range 0 23 r;
     s \<leftarrow> skip CHR '':'' s;
     r \<leftarrow> getnum True s;
     (min, s) \<leftarrow> in_range 0 59 r;
     s \<leftarrow> skip CHR '':'' s;
     r \<leftarrow> getnum True s;
     (sec, s) \<leftarrow> in_range 0 59 r;
     (case get_fraction s of (ns, s) \<Rightarrow> do {
        (off, s) \<leftarrow> get_zone s;
        if s \<noteq> [] \<or> day < 1 \<or> days_in month year < day then None
        else Some (make_time year month day hour min sec ns off)
      })
   }"

section \<open>Parsing a formatted time\<close>

lemma skip_Cons [simp]: "skip c (c # s) = Some s"
  by (simp add: skip_def)

lemma getnum_append_int:
  assumes "0 \<le> i" and "i < 100"
  shows "getnum f (append_int i 2 @ s) = Some (i, s)"
proof -
  have "10 * int (nat i div 10) + int (nat i mod 10) = int (10 * (nat i div 10) + nat i mod 10)"
    by (simp only: of_nat_add of_nat_mult of_nat_numeral)
  also have "\<dots> = i"
    using assms(1) by (simp only: mult_div_mod_eq int_nat_eq if_True)
  finally have "10 * int (nat i div 10) + int (nat i mod 10) = i" .
  then show ?thesis
    using assms by (simp add: append_int_2 getnum_def)
qed

lemma get_year_append_int:
  "0 \<le> y \<Longrightarrow> y < 10000 \<Longrightarrow> get_year (append_int y 4 @ s) = Some (y, s)"
  using append_int_4 [of y] by (simp add: get_year_def list_all_iff)

definition zone_ok :: "int \<Rightarrow> bool" where
  "zone_ok off \<longleftrightarrow> off mod 60 = 0 \<and> \<bar>off\<bar> < 86400"

lemma get_zone_format:
  assumes "zone_ok off"
  shows "get_zone (format_zone off) = Some (off, [])"
proof (cases "off = 0")
  case True
  then show ?thesis by (simp add: format_zone_def get_zone_def)
next
  case False
  define z where "z = (if off < 0 then - off else off) div 60"
  have z: "(if off < 0 then - off else off) = 60 * z"
    using assms unfolding z_def zone_ok_def by (auto simp: dvd_eq_mod_eq_0 [symmetric])
  have "0 \<le> z" "z < 1440" using assms z by (auto simp: zone_ok_def split: if_splits)
  then have hm: "0 \<le> z div 60" "z div 60 < 24" "0 \<le> z mod 60" "z mod 60 < 60"
    by simp_all
  have hz: "z div 60 * 60 + z mod 60 = z" by simp
  have "z \<noteq> 0" using z False by (auto split: if_splits)
  obtain a b c d where ab: "append_int (z div 60) 2 = [a, b]" and cd: "append_int (z mod 60) 2 = [c, d]"
    using append_int_2 [of "z div 60"] append_int_2 [of "z mod 60"] hm by auto
  have "getnum True [a, b] = Some (z div 60, [])" "getnum True [c, d] = Some (z mod 60, [])"
    using getnum_append_int [of "z div 60" True "[]"] getnum_append_int [of "z mod 60" True "[]"] ab cd hm
    by simp_all
  with False hm z \<open>z \<noteq> 0\<close> hz ab cd show ?thesis
    unfolding format_zone_def z_def [symmetric]
    by (auto simp: get_zone_def Let_def split: if_splits)
qed

lemma format_zone_hd: "\<exists>c cs. format_zone off = c # cs \<and> c \<in> {CHR ''Z'', CHR ''+'', CHR ''-''}"
  by (simp add: format_zone_def Let_def)

lemma get_fraction_zone [simp]: "get_fraction (format_zone off) = (0, format_zone off)"
  using format_zone_hd [of off] by (auto simp: get_fraction_def)

definition year_ok :: "gotime \<Rightarrow> bool" where
  "year_ok t \<longleftrightarrow> 0 \<le> fst (civil t) \<and> fst (civil t) \<le> 9999"

lemma clock_ranges:
  fixes x :: int
  assumes "0 \<le> x" and "x < 86400"
  shows "0 \<le> x div 3600" "x div 3600 \<le> 23" "0 \<le> x mod 3600 div 60" "x mod 3600 div 60 \<le> 59"
    "0 \<le> x mod 60" "x mod 60 \<le> 59" "x div 3600 * 3600 + x mod 3600 div 60 * 60 + x mod 60 = x"
proof -
  show "0 \<le> x div 3600" "0 \<le> x mod 3600 div 60" "0 \<le> x mod 60"
    using assms by (simp_all add: pos_imp_zdiv_nonneg_iff)
  show "x div 3600 \<le> 23" using div_bounds [of 3600 x] assms by simp
  show "x mod 3600 div 60 \<le> 59"
    using div_bounds [of 60 "x mod 3600"] pos_mod_bound [of 3600 x] by simp
  show "x mod 60 \<le> 59" using pos_mod_bound [of 60 x] by simp
  have "x mod 3600 mod 60 = x mod 60" by (simp add: mod_mod_cancel)
  then have "x mod 3600 div 60 * 60 + x mod 60 = x mod 3600"
    using div_mult_mod_eq [of "x mod 3600" 60] by simp
  then show "x div 3600 * 3600 + x mod 3600 div 60 * 60 + x mod 60 = x"
    using div_mult_mod_eq [of x 3600] by linarith
qed

lemma parse_parts:
  assumes "year_ok t" and "get_fraction rest = (ns, z)" and "get_zone z = Some (zone_offset t, [])"
  shows "parse_RFC3339 (format_date t @ CHR ''T'' # format_clock t @ rest)
    = Some \<lparr>at = Instant (unix_sec t * second + ns), zone_offset = zone_offset t\<rparr>"
proof -
  obtain y m d where c: "civil t = (y, m, d)" by (cases "civil t")
  then have civ: "civil_of_day (local_sec t div 86400 + epoch_day) = (y, m, d)"
    by (simp add: civil_def)
  note cal = civil_of_day [OF this]
  have y: "0 \<le> y" "y < 10000" using assms(1) by (simp_all add: year_ok_def c)
  have d: "1 \<le> d" "d < 100" "d \<le> days_in m y"
    using cal days_in_le [of m y] by simp_all
  have s: "0 \<le> day_sec t" "day_sec t < 86400" by (simp_all add: day_sec_def)
  note clk = clock_ranges [OF s]
  have day: "day_of_civil y m d - epoch_day = local_sec t div 86400" using cal(1) by linarith
  have "local_sec t div 86400 * 86400 + day_sec t = unix_sec t + zone_offset t"
    unfolding day_sec_def by (simp only: div_mult_mod_eq local_sec_def)
  then have "(day_of_civil y m d - epoch_day) * 86400 + (day_sec t div 3600 * 3600
      + day_sec t mod 3600 div 60 * 60 + day_sec t mod 60) - zone_offset t = unix_sec t"
    unfolding clk(7) day by (simp only: diff_eq_eq)
  moreover define h where "h = day_sec t div 3600"
  moreover define mi where "mi = day_sec t mod 3600 div 60"
  moreover define se where "se = day_sec t mod 60"
  ultimately have "make_time y m d h mi se ns (zone_offset t) =
      \<lparr>at = Instant (unix_sec t * second + ns), zone_offset = zone_offset t\<rparr>"
    unfolding make_time_def add.assoc [symmetric] by simp
  moreover have "0 \<le> h" "h \<le> 23" "0 \<le> mi" "mi \<le> 59" "0 \<le> se" "se \<le> 59"
    using clk(1-6) by (simp_all only: h_def mi_def se_def)
  moreover have fmt: "format_date t @ CHR ''T'' # format_clock t @ rest = append_int y 4 @ CHR ''-''
      # append_int m 2 @ CHR ''-'' # append_int d 2 @ CHR ''T'' # append_int h 2 @ CHR '':''
      # append_int mi 2 @ CHR '':'' # append_int se 2 @ rest"
    by (simp add: format_date_def format_clock_def c h_def mi_def se_def)
  ultimately show ?thesis
    using y cal(2,3) d assms(2,3)
    unfolding fmt by (simp add: parse_RFC3339_def get_year_append_int getnum_append_int in_range_def)
qed

lemma parse_format:
  assumes "year_ok t" and "zone_ok (zone_offset t)"
  shows "parse_RFC3339 (format_RFC3339 t) = Some (truncate_second t)"
  using parse_parts [OF assms(1) get_fraction_zone get_zone_format [OF assms(2)]]
  by (simp add: format_RFC3339_def truncate_second_def)

section \<open>Fractions of a second\<close>

lemma strip_zeros:
  "\<exists>k. s = rev (dropWhile (\<lambda>c. c = CHR ''0'') (rev s)) @ replicate k CHR ''0''"
proof -
  define k where "k = length (takeWhile (\<lambda>c. c = CHR ''0'') (rev s))"
  have "takeWhile (\<lambda>c. c = CHR ''0'') (rev s) = replicate k CHR ''0''"
    unfolding k_def by (rule replicate_eqI) (auto dest: set_takeWhileD)
  then have "rev s = replicate k CHR ''0'' @ dropWhile (\<lambda>c. c = CHR ''0'') (rev s)"
    by (metis takeWhile_dropWhile_id)
  then have "s = rev (dropWhile (\<lambda>c. c = CHR ''0'') (rev s)) @ replicate k CHR ''0''"
    by (metis rev_append rev_replicate rev_rev_ident)
  then show ?thesis ..
qed

lemma read_nat_trailing: "read_nat n (s @ replicate k CHR ''0'') = read_nat n s * 10 ^ k"
  by (induction k) (simp_all add: read_nat_append replicate_append_same [symmetric] digit_val_def)

lemma append_int_9:
  assumes "0 \<le> i" and "i < 1000000000"
  shows "length (append_int i 9) = 9" "\<forall>c \<in> set (append_int i 9). is_digit c"
    "read_nat 0 (append_int i 9) = nat i"
proof -
  have "nat i < 10 ^ 9" using assms by simp
  then have "length (show_nat (nat i)) \<le> 9" by (rule length_show_nat) simp
  with assms show "length (append_int i 9) = 9"
    by (simp add: append_int_def pad_zero_def)
  show "\<forall>c \<in> set (append_int i 9). is_digit c"
    using assms by (auto simp: append_int_def pad_zero_def is_digit_def dest: show_nat_digits)
  show "read_nat 0 (append_int i 9) = nat i"
    using assms by (simp add: append_int_def pad_zero_def read_nat_zeros read_show_nat)
qed

lemma get_fraction_format:
  assumes "0 \<le> ns" and "ns < 1000000000"
  shows "get_fraction (format_fraction ns @ format_zone off) = (ns, format_zone off)"
proof (cases "ns = 0")
  case True
  then show ?thesis by (simp add: format_fraction_def)
next
  case False
  note digits = append_int_9 [OF assms]
  define f where "f = rev (dropWhile (\<lambda>c. c = CHR ''0'') (rev (append_int ns 9)))"
  obtain k where k: "append_int ns 9 = f @ replicate k CHR ''0''"
    using strip_zeros unfolding f_def by blast
  have "f \<noteq> []"
  proof
    assume "f = []"
    then have "nat ns = 0" using digits(3) k read_nat_trailing [of 0 "[]" k] by simp
    with assms False show False by simp
  qed
  have f: "\<forall>c \<in> set f. is_digit c" using digits(2) by (simp add: k)
  obtain z zs where z: "format_zone off = z # zs" "\<not> is_digit z"
    using format_zone_hd [of off] not_digit by fastforce
  have "takeWhile is_digit (f @ z # zs) = f" using f z(2) by (simp add: takeWhile_append2)
  moreover have "length f \<le> 9" "k = 9 - length f" using digits(1) by (simp_all add: k)
  moreover have "int (read_nat 0 f) * 10 ^ k = ns"
    using digits(3) assms(1) read_nat_trailing [of 0 f k] by (simp add: k) (metis nat_0_le of_nat_mult of_nat_numeral of_nat_power)
  moreover have "is_digit (hd f)" using f \<open>f \<noteq> []\<close> by simp
  ultimately show ?thesis
    using False \<open>f \<noteq> []\<close> z(1)
    by (cases f) (simp_all add: get_fraction_def format_fraction_def f_def [symmetric] Let_def)
qed

text \<open>The text of \<open>MarshalJSON\<close> loses nothing.\<close>

lemma parse_strict_nano:
  assumes "format_strict_nano t = Ok s" and "zone_ok (zone_offset t)"
  shows "parse_RFC3339 s = Some t"
proof -
  have ns: "0 \<le> nanosecond t" "nanosecond t < 1000000000"
    by (simp_all add: nanosecond_def second_def)
  have y: "year_ok t" and
    s: "s = format_date t @ CHR ''T'' # format_clock t @ format_fraction (nanosecond t)
      @ format_zone (zone_offset t)"
    using assms(1) by (auto simp: format_strict_nano_def year_ok_def split: prod.splits if_splits)
  have "unix_sec t * second + nanosecond t = nanos (at t)"
    unfolding unix_sec_def nanosecond_def by (rule div_mult_mod_eq)
  then show ?thesis
    using parse_parts [OF y get_fraction_format [OF ns] get_zone_format [OF assms(2)]]
    by (simp add: s)
qed

lemma format_strict_nano_Ok:
  assumes "year_ok t" and "zone_ok (zone_offset t)"
  shows "\<exists>s. format_strict_nano t = Ok s"
proof -
  have "\<bar>zone_offset t\<bar> div 3600 < 24"
    using assms(2) div_bounds(1) [of 3600 "\<bar>zone_offset t\<bar>"] by (simp add: zone_ok_def)
  with assms(1) show ?thesis
    by (auto simp: format_strict_nano_def year_ok_def split: prod.split)
qed

section \<open>The characters of a formatted time\<close>

definition time_char :: "char \<Rightarrow> bool" where
  "time_char c \<longleftrightarrow> is_digit c \<or> c \<in> set ''-:TZ+.''"

lemma time_char_digit: "is_digit c \<Longrightarrow> time_char c"
  by (simp add: time_char_def)

lemma time_char_append_int: "list_all time_char (append_int i w)"
proof -
  have "list_all time_char (pad_zero w (show_nat n))" for n
    by (auto simp: pad_zero_def list_all_iff time_char_def is_digit_def dest: show_nat_digits)
  moreover have "time_char CHR ''-''" by (simp add: time_char_def)
  ultimately show ?thesis by (simp add: append_int_def)
qed

lemma time_char_fraction: "list_all time_char (format_fraction ns)"
proof -
  have "set (dropWhile p (rev (append_int ns 9))) \<subseteq> set (append_int ns 9)" for p
    by (metis set_dropWhileD set_rev subsetI)
  then show ?thesis
    using time_char_append_int [of ns 9]
    by (auto simp: format_fraction_def list_all_iff time_char_def)
qed

lemma time_char_strict_nano:
  assumes "format_strict_nano t = Ok s"
  shows "list_all time_char s"
proof -
  have "list_all time_char (format_date t)" "list_all time_char (format_clock t)"
    "list_all time_char (format_zone off)" for off
    unfolding format_date_def format_clock_def format_zone_def Let_def
    by (auto simp: time_char_append_int time_char_def split: prod.split)
  moreover have "time_char CHR ''T''" by (simp add: time_char_def)
  ultimately show ?thesis
    using assms by (auto simp: format_strict_nano_def time_char_fraction split: prod.splits if_splits)
qed

section \<open>The contract of a stored expiry\<close>

text \<open>
  The controllers write an expiry as text into a secret and read it back in a later refresh.  What
  they rely on: within the domain of the format, the text parses, to a time at most the original
  and less than a second before it.
\<close>

locale expiry_codec =
  fixes fmt :: "gotime \<Rightarrow> string"
    and parse :: "string \<Rightarrow> gotime option"
    and expressible :: "gotime \<Rightarrow> bool"
  assumes parse_fmt: "expressible t \<Longrightarrow> parse (fmt t) = Some (truncate_second t)"
begin

lemma stored_not_later:
  assumes "expressible t" and "parse (fmt t) = Some u"
  shows "at u \<le> at t"
  using assms truncate_second_bounds [of t] by (auto simp: parse_fmt less_eq_instant_def)

lemma stored_within_second:
  assumes "expressible t" and "parse (fmt t) = Some u"
  shows "nanos (at t) < nanos (at u) + second"
  using assms truncate_second_bounds [of t] by (auto simp: parse_fmt)

text \<open>A stored expiry is past only when the expiry itself is less than a second away.\<close>

lemma stored_after:
  assumes "expressible t" and "parse (fmt t) = Some u" and "After n u"
  shows "nanos (at t) < nanos (at n) + second"
  using stored_within_second [OF assms(1,2)] assms(3) by (simp add: After_def less_instant_def)

end

definition expressible :: "gotime \<Rightarrow> bool" where
  "expressible t \<longleftrightarrow> year_ok t \<and> zone_ok (zone_offset t)"

interpretation rfc3339: expiry_codec format_RFC3339 parse_RFC3339 expressible
  by unfold_locales (simp add: expressible_def parse_format)

end
