(* ===== verification/CredentialsGetter.thy ===== *)
theory CredentialsGetter
  imports GoTimeFormat
begin

text \<open>
  \<^verbatim>\<open>credentials_getter.go\<close>: resolving a role reference to a role ARN, turning the ARN into a
  session name of at most 64 bytes, and fetching credentials from STS.  The AWS SDK is a record of
  parameters (\<open>aws\<close>); its pointers are options, and dereferencing a nil pointer and slicing out of
  range are panics.  The interface \<open>CredentialsGetter\<close> of the controllers is the locale
  \<open>credentials_getter\<close>, which \<open>STSCredentialsGetter\<close> implements.
\<close>

section \<open>Data\<close>

record credentials =
  RoleARN :: string
  AccessKeyID :: string
  SecretAccessKey :: string
  SessionToken :: string
  Expiration :: gotime

record assume_role_input =
  RoleArn :: string
  RoleSessionName :: string
  DurationSeconds :: int32

record sts_credentials =
  stsAccessKeyId :: "string option"
  stsSecretAccessKey :: "string option"
  stsSessionToken :: "string option"
  stsExpiration :: "gotime option"

record assume_role_output =
  stsCredentials :: "sts_credentials option"

text \<open>
  The SDK: \<open>sts.AssumeRole\<close>, the instance profile ARN of \<open>imds.GetIAMInfo\<close>, the partition
  \<open>arn.Parse\<close> finds, \<open>aws.ToString\<close> and \<open>aws.ToTime\<close>; and the conversion of a float to
  \<open>int32\<close> where the Go specification leaves it to the implementation or it is not exact.
\<close>

record 'w aws =
  AssumeRole :: "assume_role_input \<Rightarrow> 'w \<Rightarrow> (error + assume_role_output) \<times> 'w"
  GetIAMInfo :: "'w \<Rightarrow> (error + string) \<times> 'w"
  ParsePartition :: "string \<Rightarrow> error + string"
  ToString :: "string option \<Rightarrow> string"
  ToTime :: "gotime option \<Rightarrow> gotime"
  SecondsToInt32 :: "int64 \<Rightarrow> int32"

datatype aws_call =
  CAssumeRole assume_role_input "error + assume_role_output"
| CGetIAMInfo "error + string"

record sts_getter =
  baseRoleARN :: string
  baseRoleARNPrefix :: string

definition roleARNSuffix :: string where
  "roleARNSuffix = '':role''"

definition roleSessionNameMaxSize :: int where
  "roleSessionNameMaxSize = 64"

definition NewSTSCredentialsGetter :: "string \<Rightarrow> string \<Rightarrow> sts_getter" where
  "NewSTSCredentialsGetter base prefix = \<lparr>baseRoleARN = base, baseRoleARNPrefix = prefix\<rparr>"

section \<open>Session names\<close>

function normalizePath :: "string list \<Rightarrow> int \<Rightarrow> string outcome" where
  "normalizePath levels remaining =
     (if levels = [] then Ok []
      else
        let lst = replace_char CHR '':'' CHR ''_'' (last levels);
            otherLevels = int (length (butlast levels));
            maxName = remaining - otherLevels * 2 - 1
        in obind (if maxName < int (length lst) then slice_to lst maxName else Ok lst)
             (\<lambda>lst. obind (normalizePath (butlast levels) (remaining - int (length lst) - 1))
                (\<lambda>s. Ok (s @ ''.'' @ lst))))"
  by pat_completeness auto
termination
  by (relation "measure (\<lambda>(levels, remaining). length levels)") auto

declare normalizePath.simps [simp del]

definition normalizeRoleARN :: "string \<Rightarrow> string \<Rightarrow> string outcome" where
  "normalizeRoleARN roleARN roleARNPrefix =
     (let parts = split_on CHR ''/'' roleARN
      in if length parts < 2 then Err (''invalid roleARN: '' @ roleARN)
         else
           let accountID = trim_suffix (trim_prefix (hd parts) roleARNPrefix) roleARNSuffix;
               remainingChars = roleSessionNameMaxSize - int (length accountID)
           in obind (normalizePath (tl parts) remainingChars) (\<lambda>path. Ok (accountID @ path)))"

section \<open>Fetching credentials\<close>

text \<open>\<open>int32(d.Seconds())\<close> is exact for whole seconds within 32 bits.\<close>

definition duration_seconds :: "'w aws \<Rightarrow> int64 \<Rightarrow> int32" where
  "duration_seconds aws d =
     (if sint d mod second = 0 \<and> - (2 ^ 31) \<le> sint d div second \<and> sint d div second < 2 ^ 31
      then word_of_int (sint d div second) else SecondsToInt32 aws d)"

definition resolveRoleARN :: "sts_getter \<Rightarrow> string \<Rightarrow> string" where
  "resolveRoleARN c role =
     (if has_prefix role (baseRoleARNPrefix c) then role else baseRoleARN c @ role)"

definition Get :: "'w aws \<Rightarrow> sts_getter \<Rightarrow> string \<Rightarrow> int64 \<Rightarrow> ('w, aws_call, credentials outcome) prog"
where
  "Get aws c role sessionDuration =
     (let roleARN = resolveRoleARN c role
      in case normalizeRoleARN roleARN (baseRoleARNPrefix c) of
           Err err \<Rightarrow> ret (Err err)
         | Panic m \<Rightarrow> ret (Panic m)
         | Ok roleSessionName \<Rightarrow>
             let params = \<lparr>RoleArn = roleARN, RoleSessionName = roleSessionName,
                           DurationSeconds = duration_seconds aws sessionDuration\<rparr>
             in do {
               resp \<leftarrow> perform (AssumeRole aws params) (CAssumeRole params);
               ret (case resp of
                      Inl err \<Rightarrow> Err err
                    | Inr out \<Rightarrow>
                        (case stsCredentials out of
                           None \<Rightarrow> Panic ''invalid memory address or nil pointer dereference''
                         | Some cr \<Rightarrow>
                             Ok \<lparr>RoleARN = roleARN,
                                 AccessKeyID = ToString aws (stsAccessKeyId cr),
                                 SecretAccessKey = ToString aws (stsSecretAccessKey cr),
                                 SessionToken = ToString aws (stsSessionToken cr),
                                 Expiration = ToTime aws (stsExpiration cr)\<rparr>))
             })"

definition GetBaseRoleARN :: "'w aws \<Rightarrow> ('w, aws_call, string outcome) prog" where
  "GetBaseRoleARN aws = do {
     iamInfo \<leftarrow> perform (GetIAMInfo aws) CGetIAMInfo;
     ret (case iamInfo of
            Inl err \<Rightarrow> Err err
          | Inr profile \<Rightarrow>
              (let parts = split_on CHR ''/'' (replace_first ''instance-profile'' ''role'' profile)
               in if length parts < 2 then Err ''failed to determine BaseRoleARN''
                  else Ok (hd parts @ ''/'')))
   }"

definition GetPrefixFromARN :: "'w aws \<Rightarrow> string \<Rightarrow> string outcome" where
  "GetPrefixFromARN aws inputARN =
     (case ParsePartition aws inputARN of
        Inl err \<Rightarrow> Err (''error parsing ARN ('' @ inputARN @ ''): '' @ err)
      | Inr part \<Rightarrow> Ok (''arn:'' @ part @ '':iam::''))"

section \<open>How a path is shortened\<close>

abbreviation clean :: "string \<Rightarrow> string" where
  "clean \<equiv> replace_char CHR '':'' CHR ''_''"

text \<open>A path whose levels keep the given number of characters each.\<close>

definition dotted :: "nat list \<Rightarrow> string list \<Rightarrow> string" where
  "dotted ks levels = concat (map2 (\<lambda>k l. CHR ''.'' # take k (clean l)) ks levels)"

lemma dotted_snoc:
  "length ks = length levels \<Longrightarrow>
     dotted (ks @ [k]) (levels @ [l]) = dotted ks levels @ CHR ''.'' # take k (clean l)"
  by (simp add: dotted_def)

lemma normalizePath_snoc:
  "normalizePath (levels @ [l]) rem =
     (let maxName = rem - 2 * int (length levels) - 1
      in obind (if maxName < int (length l) then slice_to (clean l) maxName else Ok (clean l))
           (\<lambda>lst. obind (normalizePath levels (rem - int (length lst) - 1))
              (\<lambda>s. Ok (s @ CHR ''.'' # lst))))"
  by (subst normalizePath.simps) (simp add: Let_def mult.commute)

lemma normalizePath_Nil [simp]: "normalizePath [] rem = Ok []"
  by (subst normalizePath.simps) simp

lemma normalizePath_short:
  "rem < 2 * int (length levels) + 1 \<Longrightarrow>
     normalizePath (levels @ [l]) rem = Panic ''slice bounds out of range''"
  by (simp add: normalizePath_snoc slice_to_def Let_def)

definition last_room :: "int \<Rightarrow> nat \<Rightarrow> nat" where
  "last_room rem others = nat (rem - 2 * int others - 1)"

lemma normalizePath_level:
  fixes l :: string
  assumes "2 * int (length levels) + 1 \<le> rem"
  defines "k \<equiv> min (length l) (last_room rem (length levels))"
  shows "normalizePath (levels @ [l]) rem =
      obind (normalizePath levels (rem - int k - 1)) (\<lambda>s. Ok (s @ CHR ''.'' # take k (clean l)))"
    and "2 * int (length levels) \<le> rem - int k - 1"
proof -
  show "2 * int (length levels) \<le> rem - int k - 1"
    using assms(1) by (simp add: k_def last_room_def)
  show "normalizePath (levels @ [l]) rem =
      obind (normalizePath levels (rem - int k - 1)) (\<lambda>s. Ok (s @ CHR ''.'' # take k (clean l)))"
  proof (cases "rem - 2 * int (length levels) - 1 < int (length l)")
    case True
    then have k: "rem - 2 * int (length levels) - 1 = int k" and "k < length l"
      using assms(1) by (auto simp: k_def last_room_def min_def)
    then have "slice_to (clean l) (int k) = Ok (take k (clean l))" "length (take k (clean l)) = k"
      by (simp_all add: slice_to_def)
    with \<open>k < length l\<close> show ?thesis
      unfolding normalizePath_snoc k Let_def by simp
  next
    case False
    then have "k = length l" by (simp add: k_def last_room_def)
    with False show ?thesis by (simp add: normalizePath_snoc Let_def)
  qed
qed

lemma normalizePath_others:
  assumes "2 * int (length levels) \<le> rem"
  shows "\<exists>ks. length ks = length levels
    \<and> normalizePath levels rem = Ok (dotted ks levels)
    \<and> int (length (dotted ks levels)) \<le> rem
    \<and> (\<forall>i < length levels. min 1 (length (levels ! i)) \<le> ks ! i \<and> ks ! i \<le> length (levels ! i))"
  using assms
proof (induction levels arbitrary: rem rule: rev_induct)
  case Nil
  then show ?case by (simp add: dotted_def)
next
  case (snoc l levels)
  define k where "k = min (length l) (last_room rem (length levels))"
  have room: "2 * int (length levels) + 1 \<le> rem" using snoc.prems by simp
  note step = normalizePath_level [OF room, of l, folded k_def]
  from snoc.IH [OF step(2)] obtain ks where ks: "length ks = length levels"
    "normalizePath levels (rem - int k - 1) = Ok (dotted ks levels)"
    "int (length (dotted ks levels)) \<le> rem - int k - 1"
    "\<forall>i < length levels. min 1 (length (levels ! i)) \<le> ks ! i \<and> ks ! i \<le> length (levels ! i)"
    by blast
  have "min 1 (length l) \<le> k" using snoc.prems by (simp add: k_def last_room_def)
  then show ?case
    using ks step(1)
    by (intro exI [of _ "ks @ [k]"]) (auto simp: dotted_snoc k_def nth_append less_Suc_eq)
qed

text \<open>
  The whole story of \<open>normalizePath\<close> on a non-empty path: it panics when there is no room for one
  dot per level and one character for each level but the last; otherwise it returns a string that
  fits, in which the last level has all the room the others do not need at least.
\<close>

lemma normalizePath_cases:
  assumes "levels \<noteq> []"
  shows "(if rem < 2 * int (length levels) - 1
          then normalizePath levels rem = Panic ''slice bounds out of range''
          else \<exists>ks. length ks = length levels
            \<and> normalizePath levels rem = Ok (dotted ks levels)
            \<and> int (length (dotted ks levels)) \<le> rem
            \<and> last ks = min (length (last levels)) (last_room rem (length levels - 1))
            \<and> (\<forall>i < length levels - 1. min 1 (length (levels ! i)) \<le> ks ! i \<and> ks ! i \<le> length (levels ! i)))"
proof -
  obtain init l where levels: "levels = init @ [l]"
    using assms by (metis append_butlast_last_id)
  show ?thesis
  proof (cases "rem < 2 * int (length levels) - 1")
    case True
    then show ?thesis by (simp add: levels normalizePath_short)
  next
    case False
    define k where "k = min (length l) (last_room rem (length init))"
    have room: "2 * int (length init) + 1 \<le> rem" using False by (simp add: levels)
    note step = normalizePath_level [OF room, of l, folded k_def]
    from normalizePath_others [OF step(2)] obtain ks where ks: "length ks = length init"
      "normalizePath init (rem - int k - 1) = Ok (dotted ks init)"
      "int (length (dotted ks init)) \<le> rem - int k - 1"
      "\<forall>i < length init. min 1 (length (init ! i)) \<le> ks ! i \<and> ks ! i \<le> length (init ! i)"
      by blast
    have "length (take k (clean l)) = k" by (simp add: k_def)
    with ks step(1) False show ?thesis
      by (simp add: levels, intro exI [of _ "ks @ [k]"]) (auto simp: dotted_snoc k_def nth_append)
  qed
qed

text \<open>When every level is non-empty and the whole path fits, nothing is cut.\<close>

definition path_name :: "string list \<Rightarrow> string" where
  "path_name levels = concat (map (\<lambda>l. CHR ''.'' # clean l) levels)"

lemma length_path_name: "length (path_name levels) = sum_list (map (\<lambda>l. Suc (length l)) levels)"
  by (simp add: path_name_def length_concat comp_def)

lemma length_path_name_ge:
  "\<forall>l \<in> set levels. l \<noteq> [] \<Longrightarrow> 2 * length levels \<le> length (path_name levels)"
  by (induction levels) (auto simp: length_path_name neq_Nil_conv)

lemma normalizePath_exact:
  assumes "\<forall>l \<in> set levels. l \<noteq> []" and "int (length (path_name levels)) \<le> rem"
  shows "normalizePath levels rem = Ok (path_name levels)"
  using assms
proof (induction levels arbitrary: rem rule: rev_induct)
  case Nil
  then show ?case by (simp add: path_name_def)
next
  case (snoc l levels)
  have len: "length (path_name (levels @ [l])) = length (path_name levels) + 1 + length l"
    by (simp add: length_path_name)
  have "2 * length levels \<le> length (path_name levels)"
    using snoc.prems(1) by (intro length_path_name_ge) simp
  with len snoc.prems have room: "2 * int (length levels) + 1 \<le> rem"
    and k: "min (length l) (last_room rem (length levels)) = length l"
    by (auto simp: last_room_def)
  have "normalizePath levels (rem - int (length l) - 1) = Ok (path_name levels)"
    using snoc len by simp
  then show ?case
    using normalizePath_level(1) [OF room, of l] unfolding k by (simp add: path_name_def)
qed

section \<open>Session names of role ARNs\<close>

definition account_of :: "string \<Rightarrow> string \<Rightarrow> string" where
  "account_of roleARN prefix =
     trim_suffix (trim_prefix (hd (split_on CHR ''/'' roleARN)) prefix) roleARNSuffix"

definition path_of :: "string \<Rightarrow> string list" where
  "path_of roleARN = tl (split_on CHR ''/'' roleARN)"

lemma path_of_Nil_iff: "path_of roleARN = [] \<longleftrightarrow> length (split_on CHR ''/'' roleARN) < 2"
  by (cases "split_on CHR ''/'' roleARN") (auto simp: path_of_def)

lemma path_of_slash: "path_of roleARN = [] \<longleftrightarrow> CHR ''/'' \<notin> set roleARN"
  unfolding path_of_Nil_iff by (simp add: length_split_on count_list_0_iff)

lemma normalizeRoleARN_eq:
  "normalizeRoleARN roleARN prefix =
     (if path_of roleARN = [] then Err (''invalid roleARN: '' @ roleARN)
      else obind (normalizePath (path_of roleARN) (64 - int (length (account_of roleARN prefix))))
             (\<lambda>path. Ok (account_of roleARN prefix @ path)))"
  unfolding normalizeRoleARN_def Let_def path_of_Nil_iff [symmetric]
  by (simp add: path_of_def account_of_def roleSessionNameMaxSize_def)

lemma split_on_arn:
  assumes "CHR ''/'' \<notin> set hdr"
  shows "account_of (hdr @ CHR ''/'' # rest) prefix = trim_suffix (trim_prefix hdr prefix) roleARNSuffix"
    and "path_of (hdr @ CHR ''/'' # rest) = split_on CHR ''/'' rest"
  using assms by (simp_all add: account_of_def path_of_def split_on_append)

lemma length_normalizePath:
  assumes "normalizePath levels rem = Ok s" and "0 \<le> rem \<or> levels \<noteq> []"
  shows "int (length s) \<le> rem"
proof (cases "levels = []")
  case False
  with normalizePath_cases [of levels rem] assms(1) show ?thesis
    by (auto split: if_splits)
qed (use assms in simp)

text \<open>
  C21: A session name never exceeds the 64 characters that STS accepts, whatever the role ARN and the
  prefix.
\<close>

theorem session_name_bounded:
  "post_ok (\<lambda>name. length name \<le> 64) (normalizeRoleARN roleARN prefix)"
proof (cases "normalizeRoleARN roleARN prefix")
  case (Ok name)
  then obtain path where path: "path_of roleARN \<noteq> []"
    "normalizePath (path_of roleARN) (64 - int (length (account_of roleARN prefix))) = Ok path"
    "name = account_of roleARN prefix @ path"
    by (auto simp: normalizeRoleARN_eq split: if_splits)
  have "int (length path) \<le> 64 - int (length (account_of roleARN prefix))"
    using path(2) by (rule length_normalizePath) (simp add: path(1))
  with Ok path(3) show ?thesis by simp
qed simp_all

text \<open>
  C20: The outcome of \<open>normalizeRoleARN\<close> on every input: an error exactly for an ARN without a slash;
  a panic exactly when the account and the number of levels leave no room for one dot per level and
  one character for each level but the last; otherwise the account followed by the levels, each
  introduced by a dot, with colons replaced and cut, where only the last one may be cut to nothing.
\<close>

theorem normalizeRoleARN_outcome:
  "let levels = path_of roleARN; account = account_of roleARN prefix in
     if CHR ''/'' \<notin> set roleARN then normalizeRoleARN roleARN prefix = Err (''invalid roleARN: '' @ roleARN)
     else if 66 \<le> length account + 2 * length levels
     then normalizeRoleARN roleARN prefix = Panic ''slice bounds out of range''
     else \<exists>ks. normalizeRoleARN roleARN prefix = Ok (account @ dotted ks levels)
       \<and> length ks = length levels
       \<and> last ks = min (length (last levels)) (last_room (64 - int (length account)) (length levels - 1))
       \<and> list_all2 (\<lambda>k l. min 1 (length l) \<le> k \<and> k \<le> length l) (butlast ks) (butlast levels)"
proof -
  define levels where "levels = path_of roleARN"
  define rem where "rem = 64 - int (length (account_of roleARN prefix))"
  show ?thesis
  proof (cases "levels = []")
    case True
    then show ?thesis by (simp add: levels_def normalizeRoleARN_eq path_of_slash)
  next
    case False
    then have slash: "CHR ''/'' \<in> set roleARN" using path_of_slash [of roleARN] by (simp add: levels_def)
    have eq: "normalizeRoleARN roleARN prefix =
        obind (normalizePath levels rem) (\<lambda>path. Ok (account_of roleARN prefix @ path))"
      using False by (simp add: normalizeRoleARN_eq levels_def rem_def)
    have room: "rem < 2 * int (length levels) - 1 \<longleftrightarrow>
        66 \<le> length (account_of roleARN prefix) + 2 * length levels"
      by (auto simp: rem_def)
    show ?thesis
    proof (cases "rem < 2 * int (length levels) - 1")
      case True
      with normalizePath_cases [OF False, of rem] room slash show ?thesis
        by (simp add: eq levels_def [symmetric] Let_def)
    next
      case room': False
      with normalizePath_cases [OF False, of rem] obtain ks where ks: "length ks = length levels"
        "normalizePath levels rem = Ok (dotted ks levels)"
        "last ks = min (length (last levels)) (last_room rem (length levels - 1))"
        "\<forall>i < length levels - 1. min 1 (length (levels ! i)) \<le> ks ! i \<and> ks ! i \<le> length (levels ! i)"
        by auto
      then have "list_all2 (\<lambda>k l. min 1 (length l) \<le> k \<and> k \<le> length l) (butlast ks) (butlast levels)"
        by (simp add: list_all2_conv_all_nth nth_butlast)
      with ks room room' slash show ?thesis
        by (auto simp: eq levels_def [symmetric] rem_def [symmetric] Let_def)
    qed
  qed
qed

text \<open>
  C22: A short ARN keeps its whole path: when every level is non-empty and the account and the levels
  with their dots fit 64 characters, the session name is the account followed by every level, with
  colons replaced by underscores.
\<close>

theorem session_name_exact:
  assumes "CHR ''/'' \<notin> set hdr" and "list_all (\<lambda>l. l \<noteq> []) (split_on CHR ''/'' rest)"
    and "length (trim_suffix (trim_prefix hdr prefix) roleARNSuffix)
      + length (path_name (split_on CHR ''/'' rest)) \<le> 64"
  shows "normalizeRoleARN (hdr @ CHR ''/'' # rest) prefix =
    Ok (trim_suffix (trim_prefix hdr prefix) roleARNSuffix @ path_name (split_on CHR ''/'' rest))"
proof -
  have "normalizePath (split_on CHR ''/'' rest)
      (64 - int (length (trim_suffix (trim_prefix hdr prefix) roleARNSuffix))) =
    Ok (path_name (split_on CHR ''/'' rest))"
    using assms(2,3) by (intro normalizePath_exact) (simp_all add: list_all_iff)
  then show ?thesis by (simp add: normalizeRoleARN_eq split_on_arn [OF assms(1)])
qed

theorem session_name_exact_witness:
  "normalizeRoleARN (''arn:aws:iam::012345678910:role'' @ CHR ''/'' # ''team/a:b'') ''arn:aws:iam::''
    = Ok (trim_suffix (trim_prefix ''arn:aws:iam::012345678910:role'' ''arn:aws:iam::'') roleARNSuffix
        @ path_name (split_on CHR ''/'' ''team/a:b''))"
  by (rule session_name_exact) code_simp+

section \<open>Durations in seconds\<close>

lemma duration_seconds_exact:
  assumes "0 \<le> n" and "n < 2 ^ 31"
  shows "duration_seconds aws (word_of_int n * 1000000000) = word_of_int n"
proof -
  have "sint (word_of_int (n * 1000000000) :: int64) = n * 1000000000"
    using assms by (intro sint_int64) simp_all
  then have "sint (word_of_int n * 1000000000 :: int64) = n * second"
    by (simp add: second_def flip: wi_hom_mult)
  with assms show ?thesis by (simp add: duration_seconds_def second_def)
qed

section \<open>The interface of the controllers\<close>

text \<open>
  \<open>CredentialsGetter\<close>: credentials for a role, or an error; what the controllers rely on is that the
  credentials they get name the role they asked for.
\<close>

locale credentials_getter =
  fixes get :: "string \<Rightarrow> int64 \<Rightarrow> 'w \<Rightarrow> credentials outcome \<times> 'w"
    and arn_of :: "string \<Rightarrow> string"
  assumes get_arn: "get role d w = (Ok creds, w') \<Longrightarrow> RoleARN creds = arn_of role"
begin

end

definition sts_get :: "'w aws \<Rightarrow> sts_getter \<Rightarrow> string \<Rightarrow> int64 \<Rightarrow> 'w \<Rightarrow> credentials outcome \<times> 'w" where
  "sts_get aws c role d w =
     (case run_state (Get aws c role d) \<lparr>world = w, trace = []\<rparr> of (r, s) \<Rightarrow> (r, world s))"

lemma policy_Get_arn: "policy (\<lambda>_. True) (post_ok (\<lambda>creds. RoleARN creds = resolveRoleARN c role)) (Get aws c role d)"
  unfolding Get_def Let_def
  by (auto intro!: policy_return policy_bind [OF policy_perform [where R = "\<lambda>_. True"]]
      split: outcome.split sum.split option.split)

lemma sts_get_arn:
  assumes "sts_get aws c role d w = (Ok creds, w')"
  shows "RoleARN creds = resolveRoleARN c role"
proof -
  have "fst (run_state (Get aws c role d) \<lparr>world = w, trace = []\<rparr>) = Ok creds"
    using assms by (auto simp: sts_get_def split: prod.splits)
  moreover obtain cs where
    "post_ok (\<lambda>creds. RoleARN creds = resolveRoleARN c role)
       (fst (run_state (Get aws c role d) \<lparr>world = w, trace = []\<rparr>))"
    by (rule policyD [OF policy_Get_arn])
  ultimately show ?thesis by simp
qed

interpretation sts: credentials_getter "sts_get aws c" "resolveRoleARN c" for aws c
  by unfold_locales (rule sts_get_arn)

section \<open>Roles with too many levels\<close>

definition too_deep :: "sts_getter \<Rightarrow> string \<Rightarrow> bool" where
  "too_deep c role =
     (let arn = resolveRoleARN c role; levels = path_of arn
      in levels \<noteq> []
         \<and> 66 \<le> length (account_of arn (baseRoleARNPrefix c)) + 2 * length levels)"

lemma sts_get_too_deep:
  assumes "too_deep c role"
  shows "sts_get aws c role d w = (Panic ''slice bounds out of range'', w)"
proof -
  let ?arn = "resolveRoleARN c role" and ?levels = "path_of (resolveRoleARN c role)"
  have "?levels \<noteq> []" and
    "64 - int (length (account_of ?arn (baseRoleARNPrefix c))) < 2 * int (length ?levels) - 1"
    using assms by (auto simp: too_deep_def Let_def)
  then have "normalizeRoleARN ?arn (baseRoleARNPrefix c) = Panic ''slice bounds out of range''"
    using normalizePath_cases [of ?levels "64 - int (length (account_of ?arn (baseRoleARNPrefix c)))"]
    by (simp only: if_True if_False not_False_eq_True normalizeRoleARN_eq obind.simps)
  then show ?thesis by (simp add: sts_get_def Get_def Let_def)
qed

end
