(* ===== verification/ApiTypes.thy ===== *)
theory ApiTypes
  imports CredentialsGetter
begin

text \<open>
  The objects the controllers exchange with the Kubernetes API: secrets, \<open>AWSIAMRole\<close> resources
  (\<^verbatim>\<open>pkg/apis/zalando.org/v1/types.go\<close>) and events, the record \<open>env\<close> of the client's operations, and
  the operations as programs that log each call with its response.  Of a secret and of its metadata
  the fields are those the controllers read or write; the others travel with the object.
\<close>

section \<open>Objects\<close>

type_synonym string_map = "string \<rightharpoonup> string"

record type_meta =
  APIVersion :: string
  Kind :: string

record owner_reference =
  refAPIVersion :: string
  refKind :: string
  refName :: string
  refUID :: string

record object_meta =
  Name :: string
  Namespace :: string
  UID :: string
  ResourceVersion :: string
  Generation :: int64
  Labels :: string_map
  OwnerReferences :: "owner_reference list"

text \<open>\<open>Data\<close> is \<open>None\<close> when the Go map is nil.\<close>

record secret =
  SecretMeta :: object_meta
  Data :: "string_map option"

record awsiamrole_spec =
  RoleReference :: string
  RoleSessionDuration :: int64

record awsiamrole_status =
  ObservedGeneration :: "int64 option"
  statusRoleARN :: string
  statusExpiration :: "gotime option"

record awsiamrole =
  RoleTypeMeta :: type_meta
  RoleMeta :: object_meta
  Spec :: awsiamrole_spec
  Status :: awsiamrole_status

abbreviation secret_name :: "secret \<Rightarrow> string" where
  "secret_name s \<equiv> Name (SecretMeta s)"

abbreviation secret_ns :: "secret \<Rightarrow> string" where
  "secret_ns s \<equiv> Namespace (SecretMeta s)"

abbreviation role_name :: "awsiamrole \<Rightarrow> string" where
  "role_name r \<equiv> Name (RoleMeta r)"

abbreviation role_ns :: "awsiamrole \<Rightarrow> string" where
  "role_ns r \<equiv> Namespace (RoleMeta r)"

text \<open>Reading a Go map: a nil map has no keys, and a missing key reads as the zero value.\<close>

definition data_lookup :: "string_map option \<Rightarrow> string \<Rightarrow> string option" where
  "data_lookup d k = (case d of None \<Rightarrow> None | Some m \<Rightarrow> m k)"

definition data_value :: "string_map option \<Rightarrow> string \<Rightarrow> string" where
  "data_value d k = (case data_lookup d k of None \<Rightarrow> [] | Some v \<Rightarrow> v)"

lemma data_lookup_Some [simp]: "data_lookup (Some m) k = m k"
  by (simp add: data_lookup_def)

lemma data_lookup_None [simp]: "data_lookup None k = None"
  by (simp add: data_lookup_def)

section \<open>Calls\<close>

datatype event_type = EventTypeNormal | EventTypeWarning

text \<open>
  The messages of the recorded events, by their format and arguments; the text of the error of a time
  that does not parse is left out.
\<close>

datatype message =
  FailedToGetCredentials string error
| FailedToParseGeneration string string num_error
| FailedToUpdateSecret string string error
| FailedToParseExpiry string string string
| FailedToCreateSecret string string error
| UpdatedCredentials string gotime
| CreatedCredentials string gotime

datatype call =
  CNow gotime
| CGetCreds string int64 "credentials outcome"
| CListSecrets string string_map "error + secret list"
| CListRoles string "error + awsiamrole list"
| CUpdateSecret string secret "error + secret"
| CCreateSecret string secret "error + secret"
| CDeleteSecret string string "error option"
| CUpdateStatus string awsiamrole "error + awsiamrole"
| CEvent awsiamrole event_type string message

text \<open>
  The environment of a controller: the clock, the credentials getter it was given, and the client.
  \<open>ListSecrets\<close> takes the label set its selector is built from.
\<close>

record 'w env =
  Now :: "'w \<Rightarrow> gotime \<times> 'w"
  GetCreds :: "string \<Rightarrow> int64 \<Rightarrow> 'w \<Rightarrow> credentials outcome \<times> 'w"
  ListSecrets :: "string \<Rightarrow> string_map \<Rightarrow> 'w \<Rightarrow> (error + secret list) \<times> 'w"
  ListRoles :: "string \<Rightarrow> 'w \<Rightarrow> (error + awsiamrole list) \<times> 'w"
  UpdateSecret :: "string \<Rightarrow> secret \<Rightarrow> 'w \<Rightarrow> (error + secret) \<times> 'w"
  CreateSecret :: "string \<Rightarrow> secret \<Rightarrow> 'w \<Rightarrow> (error + secret) \<times> 'w"
  DeleteSecret :: "string \<Rightarrow> string \<Rightarrow> 'w \<Rightarrow> error option \<times> 'w"
  UpdateStatus :: "string \<Rightarrow> awsiamrole \<Rightarrow> 'w \<Rightarrow> (error + awsiamrole) \<times> 'w"
  RecordEvent :: "awsiamrole \<Rightarrow> event_type \<Rightarrow> string \<Rightarrow> message \<Rightarrow> 'w \<Rightarrow> 'w"

type_synonym ('w, 'a) ctl = "('w, call, 'a) prog"

definition now :: "'w env \<Rightarrow> ('w, gotime) ctl" where
  "now e = perform (Now e) CNow"

definition get_creds :: "'w env \<Rightarrow> string \<Rightarrow> int64 \<Rightarrow> ('w, credentials outcome) ctl" where
  "get_creds e role d = perform (GetCreds e role d) (CGetCreds role d)"

definition list_secrets :: "'w env \<Rightarrow> string \<Rightarrow> string_map \<Rightarrow> ('w, error + secret list) ctl" where
  "list_secrets e ns sel = perform (ListSecrets e ns sel) (CListSecrets ns sel)"

definition list_roles :: "'w env \<Rightarrow> string \<Rightarrow> ('w, error + awsiamrole list) ctl" where
  "list_roles e ns = perform (ListRoles e ns) (CListRoles ns)"

definition update_secret :: "'w env \<Rightarrow> string \<Rightarrow> secret \<Rightarrow> ('w, error + secret) ctl" where
  "update_secret e ns s = perform (UpdateSecret e ns s) (CUpdateSecret ns s)"

definition create_secret :: "'w env \<Rightarrow> string \<Rightarrow> secret \<Rightarrow> ('w, error + secret) ctl" where
  "create_secret e ns s = perform (CreateSecret e ns s) (CCreateSecret ns s)"

definition delete_secret :: "'w env \<Rightarrow> string \<Rightarrow> string \<Rightarrow> ('w, error option) ctl" where
  "delete_secret e ns n = perform (DeleteSecret e ns n) (CDeleteSecret ns n)"

definition update_status :: "'w env \<Rightarrow> string \<Rightarrow> awsiamrole \<Rightarrow> ('w, error + awsiamrole) ctl" where
  "update_status e ns r = perform (UpdateStatus e ns r) (CUpdateStatus ns r)"

definition event :: "'w env \<Rightarrow> awsiamrole \<Rightarrow> event_type \<Rightarrow> string \<Rightarrow> message \<Rightarrow> ('w, unit) ctl" where
  "event e r t reason msg = perform (\<lambda>w. ((), RecordEvent e r t reason msg w)) (\<lambda>_. CEvent r t reason msg)"

lemmas call_defs = now_def get_creds_def list_secrets_def list_roles_def update_secret_def
  create_secret_def delete_secret_def update_status_def event_def

section \<open>Reading traces\<close>

text \<open>The secrets a trace deletes, and the secret a call stores.\<close>

primrec deletion :: "call \<Rightarrow> (string \<times> string) option" where
  "deletion (CNow t) = None"
| "deletion (CGetCreds r d g) = None"
| "deletion (CListSecrets ns sel l) = None"
| "deletion (CListRoles ns l) = None"
| "deletion (CUpdateSecret ns s res) = None"
| "deletion (CCreateSecret ns s res) = None"
| "deletion (CDeleteSecret ns n res) = Some (ns, n)"
| "deletion (CUpdateStatus ns r res) = None"
| "deletion (CEvent r t reason m) = None"

primrec deletions :: "call list \<Rightarrow> (string \<times> string) list" where
  "deletions [] = []"
| "deletions (c # cs) = (case deletion c of None \<Rightarrow> deletions cs | Some d \<Rightarrow> d # deletions cs)"

lemma deletions_append [simp]: "deletions (cs @ ds) = deletions cs @ deletions ds"
  by (induction cs) (auto split: option.split)

primrec stored :: "call \<Rightarrow> secret option" where
  "stored (CNow t) = None"
| "stored (CGetCreds r d g) = None"
| "stored (CListSecrets ns sel l) = None"
| "stored (CListRoles ns l) = None"
| "stored (CUpdateSecret ns s res) = Some s"
| "stored (CCreateSecret ns s res) = Some s"
| "stored (CDeleteSecret ns n res) = None"
| "stored (CUpdateStatus ns r res) = None"
| "stored (CEvent r t reason m) = None"

section \<open>Policies of single calls\<close>

lemma policy_now: "(\<And>t. p (CNow t)) \<Longrightarrow> policy p (\<lambda>_. True) (now e)"
  by (auto simp: now_def intro: policy_perform)

lemma policy_get_creds: "(\<And>r. p (CGetCreds role d r)) \<Longrightarrow> policy p (\<lambda>_. True) (get_creds e role d)"
  by (auto simp: get_creds_def intro: policy_perform)

lemma policy_list_secrets: "(\<And>r. p (CListSecrets ns sel r)) \<Longrightarrow> policy p (\<lambda>_. True) (list_secrets e ns sel)"
  by (auto simp: list_secrets_def intro: policy_perform)

lemma policy_list_roles: "(\<And>r. p (CListRoles ns r)) \<Longrightarrow> policy p (\<lambda>_. True) (list_roles e ns)"
  by (auto simp: list_roles_def intro: policy_perform)

lemma policy_update_secret: "(\<And>r. p (CUpdateSecret ns s r)) \<Longrightarrow> policy p (\<lambda>_. True) (update_secret e ns s)"
  by (auto simp: update_secret_def intro: policy_perform)

lemma policy_create_secret: "(\<And>r. p (CCreateSecret ns s r)) \<Longrightarrow> policy p (\<lambda>_. True) (create_secret e ns s)"
  by (auto simp: create_secret_def intro: policy_perform)

lemma policy_delete_secret: "(\<And>r. p (CDeleteSecret ns n r)) \<Longrightarrow> policy p (\<lambda>_. True) (delete_secret e ns n)"
  by (auto simp: delete_secret_def intro: policy_perform)

lemma policy_update_status: "(\<And>r. p (CUpdateStatus ns x r)) \<Longrightarrow> policy p (\<lambda>_. True) (update_status e ns x)"
  by (auto simp: update_status_def intro: policy_perform)

lemma policy_event: "p (CEvent r t reason m) \<Longrightarrow> policy p (\<lambda>_. True) (event e r t reason m)"
  by (auto simp: event_def intro: policy_perform)

lemmas policy_calls = policy_now policy_get_creds policy_list_secrets policy_list_roles
  policy_update_secret policy_create_secret policy_delete_secret policy_update_status policy_event

end
