(* ===== verification/GoJson.thy ===== *)
theory GoJson
  imports GoTimeFormat
begin

text \<open>
  What the controllers use of \<open>encoding/json\<close>: strings with the escapes of \<open>Marshal\<close> (HTML-safe,
  invalid UTF-8 replaced), numbers, and objects with their fields in order.  A reader for such
  objects is the reference the encoder is checked against.
\<close>

section \<open>Encoding strings\<close>

definition code :: "char \<Rightarrow> nat" where
  "code c = of_char c"

definition quote_char :: char where "quote_char = CHR 0x22"

definition backslash :: char where "backslash = CHR 0x5C"

definition hex_digit :: "nat \<Rightarrow> char" where
  "hex_digit n = (if n < 10 then digit_char n else char_of (87 + n))"

definition escape_ascii :: "char \<Rightarrow> string" where
  "escape_ascii c =
     (if c = backslash \<or> c = quote_char then [backslash, c]
      else if c = CHR 0x08 then [backslash, CHR ''b'']
      else if c = CHR 0x0C then [backslash, CHR ''f'']
      else if c = CHR 0x0A then [backslash, CHR ''n'']
      else if c = CHR 0x0D then [backslash, CHR ''r'']
      else if c = CHR 0x09 then [backslash, CHR ''t'']
      else if code c < 32 \<or> c = CHR ''<'' \<or> c = CHR ''>'' \<or> c = CHR ''&''
      then backslash # ''u00'' @ [hex_digit (code c div 16), hex_digit (code c mod 16)]
      else [c])"

text \<open>The length of the UTF-8 sequence a string starts with, 0 if it is not a valid one.\<close>

definition cont :: "nat \<Rightarrow> nat \<Rightarrow> char \<Rightarrow> bool" where
  "cont lo hi c \<longleftrightarrow> lo \<le> code c \<and> code c \<le> hi"

definition utf8_length :: "string \<Rightarrow> nat" where
  "utf8_length s =
     (case s of
        [] \<Rightarrow> 0
      | c # cs \<Rightarrow>
          let b = code c; conts = (\<lambda>lo hi n. n \<le> length cs \<and> n \<noteq> 0 \<and> cont lo hi (hd cs)
                                     \<and> list_all (cont 128 191) (take (n - 1) (tl cs)))
          in if b < 128 then 1
             else if 194 \<le> b \<and> b \<le> 223 \<and> conts 128 191 1 then 2
             else if b = 224 \<and> conts 160 191 2 then 3
             else if b = 237 \<and> conts 128 159 2 then 3
             else if 225 \<le> b \<and> b \<le> 239 \<and> b \<noteq> 237 \<and> conts 128 191 2 then 3
             else if b = 240 \<and> conts 144 191 3 then 4
             else if 241 \<le> b \<and> b \<le> 243 \<and> conts 128 191 3 then 4
             else if b = 244 \<and> conts 128 143 3 then 4
             else 0)"

definition line_separator :: "string \<Rightarrow> bool" where
  "line_separator s \<longleftrightarrow> s = [CHR 0xE2, CHR 0x80, CHR 0xA8] \<or> s = [CHR 0xE2, CHR 0x80, CHR 0xA9]"

function json_escape :: "string \<Rightarrow> string" where
  "json_escape [] = []"
| "json_escape (c # cs) =
     (let n = utf8_length (c # cs) in
      if code c < 128 then escape_ascii c @ json_escape cs
      else if n = 0 then backslash # ''ufffd'' @ json_escape cs
      else if line_separator (take n (c # cs))
      then backslash # ''u202'' @ [hex_digit (code (cs ! 1) mod 16)] @ json_escape (drop (n - 1) cs)
      else take n (c # cs) @ json_escape (drop (n - 1) cs))"
  by pat_completeness auto
termination
  by (relation "measure length") auto

definition json_string :: "string \<Rightarrow> string" where
  "json_string s = quote_char # json_escape s @ [quote_char]"

section \<open>Encoding objects\<close>

definition json_field :: "string \<times> string \<Rightarrow> string" where
  "json_field f = json_string (fst f) @ CHR '':'' # snd f"

fun json_fields :: "(string \<times> string) list \<Rightarrow> string" where
  "json_fields [] = ''}''"
| "json_fields [f] = json_field f @ ''}''"
| "json_fields (f # g # fs) = json_field f @ CHR '','' # json_fields (g # fs)"

definition json_object :: "(string \<times> string) list \<Rightarrow> string" where
  "json_object fs = CHR ''{'' # json_fields fs"

section \<open>The reference reader\<close>

definition hex_val :: "char \<Rightarrow> nat" where
  "hex_val c = (if is_digit c then digit_val c else code c - 87)"

fun read_string :: "string \<Rightarrow> (string \<times> string) option" where
  "read_string [] = None"
| "read_string (c # cs) =
     (if c = quote_char then Some ([], cs)
      else if c \<noteq> backslash then map_option (\<lambda>(s, r). (c # s, r)) (read_string cs)
      else case cs of
          [] \<Rightarrow> None
        | e # r \<Rightarrow>
            if e = CHR ''u'' then
              (case r of
                 h1 # h2 # h3 # h4 # r' \<Rightarrow>
                   if h1 = CHR ''0'' \<and> h2 = CHR ''0''
                   then map_option (\<lambda>(s, r). (char_of (16 * hex_val h3 + hex_val h4) # s, r)) (read_string r')
                   else None
               | _ \<Rightarrow> None)
            else
              map_option (\<lambda>(s, r).
                ((if e = CHR ''b'' then CHR 0x08 else if e = CHR ''f'' then CHR 0x0C
                  else if e = CHR ''n'' then CHR 0x0A else if e = CHR ''r'' then CHR 0x0D
                  else if e = CHR ''t'' then CHR 0x09 else e) # s, r)) (read_string r))"

text \<open>A field of an object: a key, and a string or a bare token as its value.\<close>

definition token_char :: "char \<Rightarrow> bool" where
  "token_char c \<longleftrightarrow> c \<noteq> CHR '','' \<and> c \<noteq> CHR ''}''"

definition read_value :: "string \<Rightarrow> (string \<times> string) option" where
  "read_value s =
     (if s \<noteq> [] \<and> hd s = quote_char then read_string (tl s)
      else Some (takeWhile token_char s, dropWhile token_char s))"

definition read_field :: "string \<Rightarrow> ((string \<times> string) \<times> string) option" where
  "read_field s =
     (if s \<noteq> [] \<and> hd s = quote_char then
        (case read_string (tl s) of
           None \<Rightarrow> None
         | Some (k, r) \<Rightarrow>
             if r \<noteq> [] \<and> hd r = CHR '':''
             then map_option (\<lambda>(v, r). ((k, v), r)) (read_value (tl r)) else None)
      else None)"

fun read_fields :: "nat \<Rightarrow> string \<Rightarrow> (string \<times> string) list option" where
  "read_fields 0 s = None"
| "read_fields (Suc n) s =
     (case read_field s of
        None \<Rightarrow> None
      | Some (f, r) \<Rightarrow>
          if r = ''}'' then Some [f]
          else if r \<noteq> [] \<and> hd r = CHR '','' then map_option (\<lambda>fs. f # fs) (read_fields n (tl r))
          else None)"

definition read_object :: "string \<Rightarrow> (string \<times> string) list option" where
  "read_object s = (if s \<noteq> [] \<and> hd s = CHR ''{'' then read_fields (length s) (tl s) else None)"

section \<open>Reading what was written\<close>

definition ascii :: "string \<Rightarrow> bool" where
  "ascii s \<longleftrightarrow> list_all (\<lambda>c. code c < 128) s"

lemma ascii_Cons [simp]: "ascii (c # s) \<longleftrightarrow> code c < 128 \<and> ascii s"
  by (simp add: ascii_def)

lemma ascii_append [simp]: "ascii (s @ t) \<longleftrightarrow> ascii s \<and> ascii t"
  by (simp add: ascii_def)

lemma ascii_Nil [simp]: "ascii []"
  by (simp add: ascii_def)

lemma hex_val_digit: "n < 16 \<Longrightarrow> hex_val (hex_digit n) = n"
  by (auto simp: hex_val_def hex_digit_def code_def is_digit_def of_char_digit)

lemma read_escape_ascii:
  assumes "code c < 128"
  shows "read_string (escape_ascii c @ s) = map_option (\<lambda>(t, r). (c # t, r)) (read_string s)"
proof -
  have "char_of (16 * (code c div 16) + code c mod 16) = c"
    by (simp add: code_def)
  moreover have "hex_val (hex_digit (code c div 16)) = code c div 16"
    "hex_val (hex_digit (code c mod 16)) = code c mod 16"
    using assms by (simp_all add: hex_val_digit)
  ultimately show ?thesis
    by (simp add: escape_ascii_def quote_char_def backslash_def)
qed

lemma json_escape_ascii: "ascii (c # cs) \<Longrightarrow> json_escape (c # cs) = escape_ascii c @ json_escape cs"
  by simp

lemma read_json_string:
  "ascii s \<Longrightarrow> read_string (json_escape s @ quote_char # r) = Some (s, r)"
proof (induction s)
  case (Cons c s)
  then show ?case by (simp add: json_escape_ascii read_escape_ascii)
qed simp

text \<open>A value as the encoder writes it, and what the reader makes of it.\<close>

inductive json_value :: "string \<Rightarrow> string \<Rightarrow> bool" where
  string_value: "ascii s \<Longrightarrow> json_value (json_string s) s"
| token_value: "list_all token_char t \<Longrightarrow> t \<noteq> [] \<Longrightarrow> hd t \<noteq> quote_char \<Longrightarrow> json_value t t"

lemma read_json_value:
  assumes "json_value v x" and "r \<noteq> []" and "\<not> token_char (hd r)"
  shows "read_value (v @ r) = Some (x, r)"
  using assms
proof (cases rule: json_value.cases)
  case string_value
  then show ?thesis
    using read_json_string [of x r] by (simp add: read_value_def json_string_def)
next
  case token_value
  then have "takeWhile token_char (v @ r) = v" "dropWhile token_char (v @ r) = r"
    using assms(2,3) by (cases r; simp add: takeWhile_append2 dropWhile_append2 list_all_iff)+
  with token_value show ?thesis by (simp add: read_value_def)
qed

lemma read_json_field:
  assumes "ascii k" and "json_value v x" and "r \<noteq> []" and "\<not> token_char (hd r)"
  shows "read_field (json_field (k, v) @ r) = Some ((k, x), r)"
  using assms read_json_string [of k "CHR '':'' # v @ r"] read_json_value [of v x r]
  by (simp add: read_field_def json_field_def json_string_def)

lemma read_json_fields:
  assumes "fs \<noteq> []" and "length fs \<le> n"
    and "list_all2 (\<lambda>(k, v) (l, x). k = l \<and> ascii k \<and> json_value v x) fs xs"
  shows "read_fields n (json_fields fs) = Some xs"
  using assms
proof (induction fs arbitrary: n xs rule: json_fields.induct)
  case (2 f)
  obtain m where "n = Suc m" using 2 by (cases n) auto
  obtain k v where f: "f = (k, v)" by (cases f)
  with 2 obtain x where "xs = [(k, x)]" "ascii k" "json_value v x" by (auto simp: list_all2_Cons1)
  moreover have "read_field (json_field (k, v) @ ''}'') = Some ((k, x), ''}'')"
    using calculation by (intro read_json_field) (simp_all add: token_char_def)
  ultimately show ?case using \<open>n = Suc m\<close> by (simp add: f)
next
  case (3 f g fs)
  obtain m where n: "n = Suc m" using 3 by (cases n) auto
  obtain k v where f: "f = (k, v)" by (cases f)
  with 3 obtain x ys where xs: "xs = (k, x) # ys" "ascii k" "json_value v x"
    "list_all2 (\<lambda>(k, v) (l, x). k = l \<and> ascii k \<and> json_value v x) (g # fs) ys"
    by (auto simp: list_all2_Cons1)
  have "read_field (json_field (k, v) @ CHR '','' # json_fields (g # fs))
      = Some ((k, x), CHR '','' # json_fields (g # fs))"
    using xs by (intro read_json_field) (simp_all add: token_char_def)
  moreover have "read_fields m (json_fields (g # fs)) = Some ys"
    using 3 xs n by simp
  ultimately show ?case by (simp add: n f xs(1))
qed simp

lemma length_json_fields: "length fs \<le> length (json_fields fs)"
  by (induction fs rule: json_fields.induct) (auto simp: json_field_def)

lemma read_json_object:
  assumes "fs \<noteq> []" and "list_all2 (\<lambda>(k, v) (l, x). k = l \<and> ascii k \<and> json_value v x) fs xs"
  shows "read_object (json_object fs) = Some xs"
  using read_json_fields [OF assms(1) _ assms(2), of "Suc (length (json_fields fs))"] length_json_fields [of fs]
  by (simp add: read_object_def json_object_def)

end
