(* ===== verification/SecretData.thy ===== *)
theory SecretData
  imports ApiTypes GoJson
begin

text \<open>
  What both controllers put into a secret and how they decide that it has to be refreshed: the keys
  of \<^verbatim>\<open>secrets_controller.go\<close>, the shared credentials file (an INI file) and the JSON document of a
  credential process, and the expiry test that both refresh loops contain.
\<close>

section \<open>Keys\<close>

definition heritageLabelKey :: string where "heritageLabelKey = ''heritage''"
definition awsIAMControllerLabelValue :: string where "awsIAMControllerLabelValue = ''kube-aws-iam-controller''"
definition secretPrefix :: string where "secretPrefix = ''aws-iam-''"
definition roleARNKey :: string where "roleARNKey = ''role-arn''"
definition expireKey :: string where "expireKey = ''expire''"
definition credentialsFileKey :: string where "credentialsFileKey = ''credentials''"
definition credentialsProcessFileKey :: string where "credentialsProcessFileKey = ''credentials.process''"
definition credentialsJSONFileKey :: string where "credentialsJSONFileKey = ''credentials.json''"
definition awsIAMRoleGenerationKey :: string where "awsIAMRoleGenerationKey = ''awsiamrole-generation''"

lemmas key_defs = roleARNKey_def expireKey_def credentialsFileKey_def credentialsProcessFileKey_def
  credentialsJSONFileKey_def awsIAMRoleGenerationKey_def

definition newline :: char where "newline = CHR 0x0A"

section \<open>The credentials files\<close>

definition credentials_file :: "string \<Rightarrow> string \<Rightarrow> string \<Rightarrow> string \<Rightarrow> string" where
  "credentials_file accessKey secretKey token expiration =
     ''[default]'' @ newline # ''aws_access_key_id = '' @ accessKey @ newline #
     ''aws_secret_access_key = '' @ secretKey @ newline #
     ''aws_session_token = '' @ token @ newline #
     ''aws_expiration = '' @ expiration @ [newline]"

definition credentialsProcessFileContent :: string where
  "credentialsProcessFileContent =
     ''[default]'' @ newline # ''credential_process = cat /meta/aws-iam/credentials.json'' @ [newline]"

record process_credentials =
  pcVersion :: int
  pcAccessKeyID :: string
  pcSecretAccessKey :: string
  pcSessionToken :: string
  pcExpiration :: gotime

definition process_credentials_of :: "credentials \<Rightarrow> process_credentials" where
  "process_credentials_of creds =
     \<lparr>pcVersion = 1, pcAccessKeyID = AccessKeyID creds, pcSecretAccessKey = SecretAccessKey creds,
      pcSessionToken = SessionToken creds, pcExpiration = Expiration creds\<rparr>"

text \<open>\<open>json.Marshal\<close> of that struct, with the field names of its tags.\<close>

definition marshal_process_credentials :: "process_credentials \<Rightarrow> string outcome" where
  "marshal_process_credentials p =
     (case format_strict_nano (pcExpiration p) of
        Ok expiration \<Rightarrow>
          Ok (json_object
            [(''Version'', show_int (pcVersion p)),
             (''AccessKeyId'', json_string (pcAccessKeyID p)),
             (''SecretAccessKey'', json_string (pcSecretAccessKey p)),
             (''SessionToken'', json_string (pcSessionToken p)),
             (''Expiration'', quote_char # expiration @ [quote_char])])
      | Err e \<Rightarrow> Err (''json: error calling MarshalJSON for type time.Time: '' @ e)
      | Panic m \<Rightarrow> Panic m)"

section \<open>The expiry test\<close>

text \<open>
  The test both refresh loops contain inline: a secret is refreshed when it has no expiry, when its
  expiry does not parse, or when it expires within the refresh limit.  The clock is read only in the
  last case.
\<close>

definition refresh_due :: "'w env \<Rightarrow> int64 \<Rightarrow> string_map option \<Rightarrow> ('w, bool) ctl" where
  "refresh_due e refreshLimit data =
     (case data_lookup data expireKey of
        None \<Rightarrow> ret True
      | Some expirary \<Rightarrow>
          (case parse_RFC3339 expirary of
             None \<Rightarrow> ret True
           | Some expire \<Rightarrow> do {
               t \<leftarrow> now e;
               ret (After (add_duration (UTC t) refreshLimit) expire)
             }))"

lemma policy_refresh_due:
  "(\<And>t. p (CNow t)) \<Longrightarrow> policy p (\<lambda>_. True) (refresh_due e lim d)"
  unfolding refresh_due_def
  by (auto intro!: policy_intros policy_calls split: option.split)

text \<open>The expiry a secret records, when it has one that parses, and what the test sees of it.\<close>

definition expiry_of :: "string_map option \<Rightarrow> gotime option" where
  "expiry_of data = Option.bind (data_lookup data expireKey) parse_RFC3339"

definition due_at :: "int64 \<Rightarrow> string_map option \<Rightarrow> gotime \<Rightarrow> bool" where
  "due_at refreshLimit data t =
     (case expiry_of data of
        None \<Rightarrow> True
      | Some expire \<Rightarrow> After (add_duration (UTC t) refreshLimit) expire)"

definition due_trace :: "int64 \<Rightarrow> string_map option \<Rightarrow> bool \<Rightarrow> call list \<Rightarrow> bool" where
  "due_trace refreshLimit data b cs =
     (if expiry_of data = None then b \<and> cs = []
      else \<exists>t. cs = [CNow t] \<and> b = due_at refreshLimit data t)"

lemma emits_refresh_due: "emits (due_trace lim d) (refresh_due e lim d)"
  unfolding refresh_due_def now_def
  by (auto intro!: emits_run simp: due_trace_def due_at_def expiry_of_def split: option.split)

lemma due_trace_cases:
  "due_trace lim d b cs \<Longrightarrow> cs = [] \<or> (\<exists>t. cs = [CNow t])"
  by (auto simp: due_trace_def split: if_splits)

section \<open>Reading the credentials file\<close>

text \<open>A reader of the INI file: the value of the first line that starts with the key.\<close>

fun ini_value :: "string \<Rightarrow> string list \<Rightarrow> string option" where
  "ini_value key [] = None"
| "ini_value key (l # ls) =
     (if has_prefix l (key @ '' = '') then Some (drop (length key + 3) l) else ini_value key ls)"

definition read_credentials_file :: "string \<Rightarrow> string \<Rightarrow> string option" where
  "read_credentials_file file key = ini_value key (split_on newline file)"

definition one_line :: "string \<Rightarrow> bool" where
  "one_line s \<longleftrightarrow> newline \<notin> set s"

lemma split_credentials_file:
  assumes "one_line a" "one_line s" "one_line t" "one_line x"
  shows "split_on newline (credentials_file a s t x) =
    [''[default]'', ''aws_access_key_id = '' @ a, ''aws_secret_access_key = '' @ s,
     ''aws_session_token = '' @ t, ''aws_expiration = '' @ x, []]"
proof -
  have "split_on newline (p @ newline # r) = p # split_on newline r" if "newline \<notin> set p" for p r
    using that by (rule split_on_append)
  note line = this [of "''[default]''"] this [of "''aws_access_key_id = '' @ a"]
    this [of "''aws_secret_access_key = '' @ s"] this [of "''aws_session_token = '' @ t"]
    this [of "''aws_expiration = '' @ x" "[]"]
  from assms show ?thesis
    using line by (simp add: credentials_file_def one_line_def newline_def)
qed

text \<open>
  C35: The shared credentials file reads back: for values of one line each, the reader finds under
  every key of the file exactly the value that was written there.
\<close>

theorem credentials_file_reads:
  assumes "one_line a" "one_line s" "one_line t" "one_line x"
  shows "map (read_credentials_file (credentials_file a s t x))
      [''aws_access_key_id'', ''aws_secret_access_key'', ''aws_session_token'', ''aws_expiration'']
    = [Some a, Some s, Some t, Some x]"
  unfolding read_credentials_file_def split_credentials_file [OF assms]
  by (simp add: has_prefix_def)

theorem credentials_file_reads_witness:
  "map (read_credentials_file (credentials_file ''AKIA'' ''key'' ''token'' ''2030-01-01T00:00:00Z''))
      [''aws_access_key_id'', ''aws_secret_access_key'', ''aws_session_token'', ''aws_expiration'']
    = [Some ''AKIA'', Some ''key'', Some ''token'', Some ''2030-01-01T00:00:00Z'']"
  by (rule credentials_file_reads) (simp_all add: one_line_def newline_def)

section \<open>Reading the document of the credential process\<close>

lemma json_escape_plain:
  assumes "list_all time_char s"
  shows "json_escape s = s" "ascii s"
proof -
  have plain: "escape_ascii c = [c] \<and> code c < 128" if "time_char c" for c
  proof -
    have "43 \<le> code c" "code c \<le> 90" "code c \<noteq> 60" "code c \<noteq> 62"
      using that by (auto simp: time_char_def is_digit_def code_def)
    moreover from this have "c \<noteq> backslash" "c \<noteq> quote_char" "c \<notin> set ''<>&''"
      "c \<notin> {CHR 0x08, CHR 0x0C, CHR 0x0A, CHR 0x0D, CHR 0x09}"
      by (auto simp: code_def backslash_def quote_char_def)
    ultimately show ?thesis by (simp add: escape_ascii_def)
  qed
  show "ascii s" using assms plain by (auto simp: ascii_def list_all_iff)
  show "json_escape s = s" using assms by (induction s) (simp_all add: plain)
qed

lemma json_value_time: "list_all time_char s \<Longrightarrow> json_value (quote_char # s @ [quote_char]) s"
  using json_value.string_value [of s] by (simp add: json_string_def json_escape_plain)

text \<open>
  C34: The document of the credential process reads back: for ASCII credentials whose expiry has a
  year of at most four digits, a reader of the JSON object finds version 1, the three parts of the
  credentials as they were, and an expiry that parses to the very same instant, nanoseconds included.
\<close>

theorem process_credentials_read:
  assumes "ascii (AccessKeyID creds)" "ascii (SecretAccessKey creds)" "ascii (SessionToken creds)"
    and "expressible (Expiration creds)"
  shows "\<exists>file expiry. marshal_process_credentials (process_credentials_of creds) = Ok file
    \<and> read_object file = Some [(''Version'', ''1''), (''AccessKeyId'', AccessKeyID creds),
        (''SecretAccessKey'', SecretAccessKey creds), (''SessionToken'', SessionToken creds),
        (''Expiration'', expiry)]
    \<and> parse_RFC3339 expiry = Some (Expiration creds)"
proof -
  have e: "year_ok (Expiration creds)" "zone_ok (zone_offset (Expiration creds))"
    using assms(4) by (simp_all add: expressible_def)
  then obtain expiry where x: "format_strict_nano (Expiration creds) = Ok expiry"
    using format_strict_nano_Ok by blast
  have one: "show_int 1 = ''1''" by code_simp
  have "json_value ''1'' ''1''"
    by (rule json_value.token_value) (simp_all add: token_char_def quote_char_def)
  moreover note json_value_time [OF time_char_strict_nano [OF x]]
  ultimately have "read_object (json_object
      [(''Version'', ''1''), (''AccessKeyId'', json_string (AccessKeyID creds)),
       (''SecretAccessKey'', json_string (SecretAccessKey creds)),
       (''SessionToken'', json_string (SessionToken creds)),
       (''Expiration'', quote_char # expiry @ [quote_char])])
    = Some [(''Version'', ''1''), (''AccessKeyId'', AccessKeyID creds),
        (''SecretAccessKey'', SecretAccessKey creds), (''SessionToken'', SessionToken creds),
        (''Expiration'', expiry)]"
    using assms(1-3) by (intro read_json_object) (simp_all add: json_value.string_value code_def)
  then show ?thesis
    using x parse_strict_nano [OF x e(2)]
    by (simp add: marshal_process_credentials_def process_credentials_of_def one)
qed

definition example_time :: gotime where
  "example_time = \<lparr>at = Instant (1893456000 * 1000000000), zone_offset = 0\<rparr>"

definition example_credentials :: credentials where
  "example_credentials = \<lparr>RoleARN = ''arn:aws:iam::012345678910:role/app'', AccessKeyID = ''AKIA'',
     SecretAccessKey = ''secret'', SessionToken = ''token'', Expiration = example_time\<rparr>"

lemma example_credentials_ok:
  "ascii (AccessKeyID example_credentials)" "ascii (SecretAccessKey example_credentials)"
  "ascii (SessionToken example_credentials)" "expressible (Expiration example_credentials)"
  by code_simp+

theorem process_credentials_read_witness:
  "\<exists>file expiry. marshal_process_credentials (process_credentials_of example_credentials) = Ok file
    \<and> read_object file = Some [(''Version'', ''1''), (''AccessKeyId'', AccessKeyID example_credentials),
        (''SecretAccessKey'', SecretAccessKey example_credentials),
        (''SessionToken'', SessionToken example_credentials), (''Expiration'', expiry)]
    \<and> parse_RFC3339 expiry = Some (Expiration example_credentials)"
  by (rule process_credentials_read [OF example_credentials_ok])

end
