(* ===== verification/AWSIAMRoleController.thy ===== *)
theory AWSIAMRoleController
  imports SecretData
begin

text \<open>
  \<^verbatim>\<open>awsiamrole_controller.go\<close>: one secret per \<open>AWSIAMRole\<close> resource.  \<open>AWSIAMRole_refresh\<close> lists the
  secrets with the owner labels and the roles, and then runs three loops: over the secrets, to
  refresh those that are owned and due and to collect the orphans (\<open>refresh_owned\<close>); over the
  orphans, to delete them (\<open>delete_orphan\<close>); over the roles, to create a secret or to bring an
  existing one and the role's status up to date (\<open>reconcile_role\<close>).  Log lines are left out.
\<close>

section \<open>Helpers\<close>

definition awsIAMRoleOwnerLabels :: string_map where
  "awsIAMRoleOwnerLabels =
     Map.empty(heritageLabelKey \<mapsto> awsIAMControllerLabelValue, ''type'' \<mapsto> ''awsiamrole'')"

record aws_controller =
  interval :: int64
  refreshLimit :: int64
  namespace :: string

definition NewAWSIAMRoleController :: "int64 \<Rightarrow> int64 \<Rightarrow> string \<Rightarrow> aws_controller" where
  "NewAWSIAMRoleController ivl lim ns = \<lparr>interval = ivl, refreshLimit = lim, namespace = ns\<rparr>"

fun isOwnedReference :: "type_meta \<Rightarrow> object_meta \<Rightarrow> owner_reference list \<Rightarrow> bool" where
  "isOwnedReference ownerType owner [] = False"
| "isOwnedReference ownerType owner (ref # refs) =
     (if refAPIVersion ref = APIVersion ownerType \<and> refKind ref = Kind ownerType
         \<and> refUID ref = UID owner \<and> refName ref = Name owner
      then True else isOwnedReference ownerType owner refs)"

text \<open>
  The two loops of \<open>mergeLabels\<close> store every entry of \<open>base\<close> and then every entry of
  \<open>additional\<close>; the order within a map does not matter, as is proved below.
\<close>

definition mergeLabels :: "string_map \<Rightarrow> string_map \<Rightarrow> string_map" where
  "mergeLabels base additional = base ++ additional"

definition getGeneration :: "string_map option \<Rightarrow> num_error + int64" where
  "getGeneration secretData =
     (case data_lookup secretData awsIAMRoleGenerationKey of
        Some gen \<Rightarrow> ParseInt64 gen
      | None \<Rightarrow> Inr 0)"

definition map_key :: "object_meta \<Rightarrow> string" where
  "map_key m = Namespace m @ ''/'' @ Name m"

definition secrets_map :: "secret list \<Rightarrow> (string \<rightharpoonup> secret)" where
  "secrets_map secrets = fold (\<lambda>s m. m(map_key (SecretMeta s) \<mapsto> s)) secrets Map.empty"

definition roles_map :: "awsiamrole list \<Rightarrow> (string \<rightharpoonup> awsiamrole)" where
  "roles_map roles = fold (\<lambda>r m. m(map_key (RoleMeta r) \<mapsto> r)) roles Map.empty"

text \<open>\<open>time.Duration(n) * time.Second\<close> wraps on 64 bits.\<close>

definition roleSessionDuration :: "awsiamrole \<Rightarrow> int64" where
  "roleSessionDuration r =
     (if 0 < sint (RoleSessionDuration (Spec r))
      then RoleSessionDuration (Spec r) * 1000000000 else 3600 * 1000000000)"

section \<open>Credentials as secret data\<close>

text \<open>The secret data made of credentials, or the error of \<open>json.Marshal\<close>.\<close>

definition credentials_data :: "credentials \<Rightarrow> (credentials \<times> string_map) outcome" where
  "credentials_data creds =
     (let credsFile = credentials_file (AccessKeyID creds) (SecretAccessKey creds)
                        (SessionToken creds) (format_RFC3339 (Expiration creds))
      in obind (marshal_process_credentials (process_credentials_of creds)) (\<lambda>processCredsData.
           Ok (creds, Map.empty(
             roleARNKey \<mapsto> RoleARN creds,
             expireKey \<mapsto> format_RFC3339 (Expiration creds),
             credentialsFileKey \<mapsto> credsFile,
             credentialsProcessFileKey \<mapsto> credentialsProcessFileContent,
             credentialsJSONFileKey \<mapsto> processCredsData))))"

definition AWSIAMRole_getCreds ::
    "'w env \<Rightarrow> string \<Rightarrow> int64 \<Rightarrow> ('w, (credentials \<times> string_map) outcome) ctl" where
  "AWSIAMRole_getCreds e role sessionDuration = do {
     r \<leftarrow> get_creds e role sessionDuration;
     ret (obind r credentials_data)
   }"

text \<open>Labels, generation and data of a secret that gets new credentials for a role.\<close>

definition renewed :: "awsiamrole \<Rightarrow> string_map \<Rightarrow> secret \<Rightarrow> secret" where
  "renewed r data s =
     s\<lparr>SecretMeta := (SecretMeta s)\<lparr>Labels := mergeLabels (Labels (RoleMeta r)) awsIAMRoleOwnerLabels\<rparr>,
       Data := Some (data(awsIAMRoleGenerationKey \<mapsto> show_int (sint (Generation (RoleMeta r)))))\<rparr>"

definition with_status :: "awsiamrole \<Rightarrow> string \<Rightarrow> gotime \<Rightarrow> awsiamrole" where
  "with_status r arn expiry =
     r\<lparr>Status := \<lparr>ObservedGeneration = Some (Generation (RoleMeta r)), statusRoleARN = arn,
                  statusExpiration = Some expiry\<rparr>\<rparr>"

section \<open>The loops of a refresh\<close>

definition refresh_owned :: "'w env \<Rightarrow> aws_controller \<Rightarrow> (string \<rightharpoonup> awsiamrole) \<Rightarrow> secret
    \<Rightarrow> secret list \<Rightarrow> ('w, secret list outcome) ctl" where
  "refresh_owned e c awsIAMRolesMap s orphanSecrets =
     (case awsIAMRolesMap (map_key (SecretMeta s)) of
        None \<Rightarrow> ret (Ok (orphanSecrets @ [s]))
      | Some r \<Rightarrow>
          if \<not> isOwnedReference (RoleTypeMeta r) (RoleMeta r) (OwnerReferences (SecretMeta s))
          then ret (Ok (orphanSecrets @ [s]))
          else do {
            refreshCreds \<leftarrow> refresh_due e (refreshLimit c) (Data s);
            if \<not> refreshCreds then ret (Ok orphanSecrets)
            else do {
              res \<leftarrow> AWSIAMRole_getCreds e (RoleReference (Spec r)) (roleSessionDuration r);
              case res of
                Panic m \<Rightarrow> ret (Panic m)
              | Err err \<Rightarrow> do {
                  _ \<leftarrow> event e r EventTypeWarning ''GetCredentialsFailed''
                         (FailedToGetCredentials (RoleReference (Spec r)) err);
                  ret (Ok orphanSecrets)
                }
              | Ok cd \<Rightarrow> do {
                  upd \<leftarrow> update_secret e (secret_ns s) (renewed r (snd cd) s);
                  case upd of
                    Inl err \<Rightarrow> ret (Ok orphanSecrets)
                  | Inr _ \<Rightarrow> do {
                      _ \<leftarrow> event e r EventTypeNormal ''UpdateCredentials''
                             (UpdatedCredentials (RoleARN (fst cd)) (Expiration (fst cd)));
                      _ \<leftarrow> update_status e (role_ns r)
                             (with_status r (RoleARN (fst cd)) (Expiration (fst cd)));
                      ret (Ok orphanSecrets)
                    }
                }
            }
          })"

definition delete_orphan :: "'w env \<Rightarrow> secret \<Rightarrow> unit \<Rightarrow> ('w, unit outcome) ctl" where
  "delete_orphan e s u = do {
     _ \<leftarrow> delete_secret e (secret_ns s) (secret_name s);
     ret (Ok ())
   }"

text \<open>The status of a role whose secret exists, from the data of that secret.\<close>

definition sync_status :: "'w env \<Rightarrow> awsiamrole \<Rightarrow> secret \<Rightarrow> ('w, unit outcome) ctl" where
  "sync_status e r s =
     (if ObservedGeneration (Status r) = None
         \<or> ObservedGeneration (Status r) \<noteq> Some (Generation (RoleMeta r))
      then (case parse_RFC3339 (data_value (Data s) expireKey) of
              None \<Rightarrow> do {
                _ \<leftarrow> event e r EventTypeWarning ''ReadSecretFailed''
                       (FailedToParseExpiry (data_value (Data s) expireKey) (secret_ns s) (secret_name s));
                ret (Ok ())
              }
            | Some expiration \<Rightarrow> do {
                _ \<leftarrow> update_status e (role_ns r)
                       (with_status r (data_value (Data s) roleARNKey) expiration);
                ret (Ok ())
              })
      else ret (Ok ()))"

definition renew_outdated :: "'w env \<Rightarrow> awsiamrole \<Rightarrow> secret \<Rightarrow> ('w, unit outcome) ctl" where
  "renew_outdated e r s = do {
     res \<leftarrow> AWSIAMRole_getCreds e (RoleReference (Spec r)) (roleSessionDuration r);
     case res of
       Panic m \<Rightarrow> ret (Panic m)
     | Err err \<Rightarrow> do {
         _ \<leftarrow> event e r EventTypeWarning ''GetCredentialsFailed''
                (FailedToGetCredentials (RoleReference (Spec r)) err);
         ret (Ok ())
       }
     | Ok cd \<Rightarrow> do {
         upd \<leftarrow> update_secret e (secret_ns s) (renewed r (snd cd) s);
         case upd of
           Inl err \<Rightarrow> do {
             _ \<leftarrow> event e r EventTypeWarning ''UpdateSecretFailed''
                    (FailedToUpdateSecret (secret_ns s) (secret_name s) err);
             ret (Ok ())
           }
         | Inr _ \<Rightarrow> do {
             _ \<leftarrow> event e r EventTypeNormal ''UpdateCredentials''
                    (UpdatedCredentials (RoleARN (fst cd)) (Expiration (fst cd)));
             sync_status e r (renewed r (snd cd) s)
           }
       }
   }"

definition new_secret :: "awsiamrole \<Rightarrow> string_map \<Rightarrow> secret" where
  "new_secret r data =
     \<lparr>SecretMeta =
        \<lparr>Name = role_name r, Namespace = role_ns r, UID = [], ResourceVersion = [], Generation = 0,
         Labels = mergeLabels (Labels (RoleMeta r)) awsIAMRoleOwnerLabels,
         OwnerReferences =
           [\<lparr>refAPIVersion = APIVersion (RoleTypeMeta r), refKind = Kind (RoleTypeMeta r),
             refName = role_name r, refUID = UID (RoleMeta r)\<rparr>]\<rparr>,
      Data = Some (data(awsIAMRoleGenerationKey \<mapsto> show_int (sint (Generation (RoleMeta r)))))\<rparr>"

definition provision :: "'w env \<Rightarrow> awsiamrole \<Rightarrow> ('w, unit outcome) ctl" where
  "provision e r = do {
     res \<leftarrow> AWSIAMRole_getCreds e (RoleReference (Spec r)) (roleSessionDuration r);
     case res of
       Panic m \<Rightarrow> ret (Panic m)
     | Err err \<Rightarrow> do {
         _ \<leftarrow> event e r EventTypeWarning ''GetCredentialsFailed''
                (FailedToGetCredentials (RoleReference (Spec r)) err);
         ret (Ok ())
       }
     | Ok cd \<Rightarrow> do {
         crt \<leftarrow> create_secret e (role_ns r) (new_secret r (snd cd));
         case crt of
           Inl err \<Rightarrow> do {
             _ \<leftarrow> event e r EventTypeWarning ''CreateSecretFailed''
                    (FailedToCreateSecret (role_ns r) (role_name r) err);
             ret (Ok ())
           }
         | Inr _ \<Rightarrow> do {
             _ \<leftarrow> event e r EventTypeNormal ''CreateCredentials''
                    (CreatedCredentials (RoleARN (fst cd)) (Expiration (fst cd)));
             _ \<leftarrow> update_status e (role_ns r)
                    (with_status r (RoleARN (fst cd)) (Expiration (fst cd)));
             ret (Ok ())
           }
       }
   }"

definition reconcile_role :: "'w env \<Rightarrow> (string \<rightharpoonup> secret) \<Rightarrow> awsiamrole \<Rightarrow> unit \<Rightarrow> ('w, unit outcome) ctl"
where
  "reconcile_role e secretsMap r u =
     (case secretsMap (map_key (RoleMeta r)) of
        Some s \<Rightarrow>
          (case getGeneration (Data s) of
             Inl err \<Rightarrow> do {
               _ \<leftarrow> event e r EventTypeWarning ''ReadSecretFailed''
                      (FailedToParseGeneration (secret_ns s) (secret_name s) err);
               ret (Ok ())
             }
           | Inr generation \<Rightarrow>
               if Generation (RoleMeta r) \<noteq> generation then renew_outdated e r s
               else sync_status e r s)
      | None \<Rightarrow> provision e r)"

definition refresh_listed :: "'w env \<Rightarrow> aws_controller \<Rightarrow> secret list \<Rightarrow> awsiamrole list
    \<Rightarrow> ('w, unit outcome) ctl" where
  "refresh_listed e c secrets roles =
     and_then (for_range (refresh_owned e c (roles_map roles)) secrets []) (\<lambda>orphanSecrets.
     and_then (for_range (delete_orphan e) orphanSecrets ()) (\<lambda>_.
     for_range (reconcile_role e (secrets_map secrets)) roles ()))"

definition AWSIAMRole_refresh :: "'w env \<Rightarrow> aws_controller \<Rightarrow> ('w, unit outcome) ctl" where
  "AWSIAMRole_refresh e c = do {
     secrets \<leftarrow> list_secrets e (namespace c) awsIAMRoleOwnerLabels;
     case secrets of
       Inl err \<Rightarrow> ret (Err err)
     | Inr secrets \<Rightarrow> do {
         roles \<leftarrow> list_roles e (namespace c);
         case roles of
           Inl err \<Rightarrow> ret (Err err)
         | Inr roles \<Rightarrow> refresh_listed e c secrets roles
       }
   }"


section \<open>Owners, labels and generations\<close>

definition owner_ref_of :: "awsiamrole \<Rightarrow> owner_reference" where
  "owner_ref_of r = \<lparr>refAPIVersion = APIVersion (RoleTypeMeta r), refKind = Kind (RoleTypeMeta r),
     refName = role_name r, refUID = UID (RoleMeta r)\<rparr>"

lemma isOwnedReference_iff:
  "isOwnedReference (RoleTypeMeta r) (RoleMeta r) refs \<longleftrightarrow> owner_ref_of r \<in> set refs"
  by (induction refs) (auto simp: owner_ref_of_def)

lemma map_of_rev:
  assumes "distinct (map fst kvs)"
  shows "map_of (rev kvs) = map_of kvs"
proof
  fix k
  have d: "distinct (map fst (rev kvs))"
    using assms by (simp only: rev_map [symmetric] distinct_rev)
  show "map_of (rev kvs) k = map_of kvs k"
  proof (cases "map_of kvs k")
    case None
    then have "map_of (rev kvs) k = None" by (simp add: map_of_eq_None_iff)
    with None show ?thesis by simp
  next
    case (Some v)
    then have "(k, v) \<in> set (rev kvs)" by (simp add: map_of_SomeD)
    with d Some show ?thesis by (simp only: map_of_is_SomeI)
  qed
qed

lemma fold_store:
  "fold (\<lambda>(k, v) m. m(k \<mapsto> v)) kvs m = m ++ map_of (rev kvs)"
  by (induction kvs arbitrary: m) auto

text \<open>
  \<open>mergeLabels\<close> as the code writes it: whatever order \<open>range\<close> visits the entries of the two maps
  in, the stores of the two loops leave \<open>base ++ additional\<close>.
\<close>

theorem mergeLabels_loops:
  assumes "distinct (map fst bs)" "map_of bs = base"
    and "distinct (map fst as)" "map_of as = additional"
  shows "fold (\<lambda>(k, v) m. m(k \<mapsto> v)) as (fold (\<lambda>(k, v) m. m(k \<mapsto> v)) bs Map.empty)
    = mergeLabels base additional"
  using assms by (simp add: fold_store mergeLabels_def map_of_rev)

theorem mergeLabels_loops_witness:
  "fold (\<lambda>(k, v) m. m(k \<mapsto> v)) [(''type'', ''x'')] (fold (\<lambda>(k, v) m. m(k \<mapsto> v)) [(''app'', ''y'')] Map.empty)
    = mergeLabels [''app'' \<mapsto> ''y''] [''type'' \<mapsto> ''x'']"
  by (rule mergeLabels_loops) simp_all

lemma secrets_map_eq: "secrets_map secrets = map_of (rev (map (\<lambda>s. (map_key (SecretMeta s), s)) secrets))"
proof -
  have "secrets_map secrets =
      fold (\<lambda>(k, v) m. m(k \<mapsto> v)) (map (\<lambda>s. (map_key (SecretMeta s), s)) secrets) Map.empty"
    by (simp add: secrets_map_def fold_map comp_def)
  then show ?thesis by (simp add: fold_store)
qed

lemma roles_map_eq: "roles_map roles = map_of (rev (map (\<lambda>r. (map_key (RoleMeta r), r)) roles))"
proof -
  have "roles_map roles =
      fold (\<lambda>(k, v) m. m(k \<mapsto> v)) (map (\<lambda>r. (map_key (RoleMeta r), r)) roles) Map.empty"
    by (simp add: roles_map_def fold_map comp_def)
  then show ?thesis by (simp add: fold_store)
qed

lemma secrets_map_SomeD:
  "secrets_map secrets k = Some s \<Longrightarrow> s \<in> set secrets \<and> map_key (SecretMeta s) = k"
  by (auto simp: secrets_map_eq dest: map_of_SomeD)

lemma roles_map_SomeD:
  "roles_map roles k = Some r \<Longrightarrow> r \<in> set roles \<and> map_key (RoleMeta r) = k"
  by (auto simp: roles_map_eq dest: map_of_SomeD)

lemma secrets_map_None:
  "secrets_map secrets k = None \<longleftrightarrow> k \<notin> (\<lambda>s. map_key (SecretMeta s)) ` set secrets"
  by (auto simp: secrets_map_eq map_of_eq_None_iff image_image)

text \<open>What a written secret reads back as.\<close>

lemma getGeneration_stored:
  "getGeneration (Some (data(awsIAMRoleGenerationKey \<mapsto> show_int (sint n)))) = Inr n"
  by (simp add: getGeneration_def ParseInt64_show)

lemma map_key_renewed [simp]: "map_key (SecretMeta (renewed r data s)) = map_key (SecretMeta s)"
  by (simp add: map_key_def renewed_def)

lemma map_key_new_secret [simp]: "map_key (SecretMeta (new_secret r data)) = map_key (RoleMeta r)"
  by (simp add: map_key_def new_secret_def)

lemma Data_renewed [simp]: "Data (renewed r data s) =
    Some (data(awsIAMRoleGenerationKey \<mapsto> show_int (sint (Generation (RoleMeta r)))))"
  by (simp add: renewed_def)

lemma Data_new_secret [simp]: "Data (new_secret r data) =
    Some (data(awsIAMRoleGenerationKey \<mapsto> show_int (sint (Generation (RoleMeta r)))))"
  by (simp add: new_secret_def)

lemma owner_new_secret [simp]: "owner_ref_of r \<in> set (OwnerReferences (SecretMeta (new_secret r data)))"
  by (simp add: owner_ref_of_def new_secret_def)

lemma owner_renewed [simp]:
  "OwnerReferences (SecretMeta (renewed r data s)) = OwnerReferences (SecretMeta s)"
  by (simp add: renewed_def)

lemma credentials_data_expiry:
  assumes "credentials_data creds = Ok (creds', data)"
  shows "data expireKey = Some (format_RFC3339 (Expiration creds))" "data roleARNKey = Some (RoleARN creds)"
  using assms by (auto simp: credentials_data_def key_defs)

lemma expiry_of_stored:
  assumes "credentials_data creds = Ok (creds', data)" and "expressible (Expiration creds)"
  shows "expiry_of (Some (data(awsIAMRoleGenerationKey \<mapsto> g))) = Some (truncate_second (Expiration creds))"
proof -
  have "expireKey \<noteq> awsIAMRoleGenerationKey" by (simp add: key_defs)
  then show ?thesis
    using credentials_data_expiry(1) [OF assms(1)] rfc3339.parse_fmt [OF assms(2)]
    by (simp add: expiry_of_def)
qed

lemma credentials_data_Ok:
  assumes "expressible (Expiration creds)"
  obtains data where "credentials_data creds = Ok (creds, data)"
proof -
  have "year_ok (Expiration creds)" "zone_ok (zone_offset (Expiration creds))"
    using assms by (simp_all add: expressible_def)
  then obtain x where "format_strict_nano (Expiration creds) = Ok x"
    using format_strict_nano_Ok by blast
  then show thesis
    by (intro that) (simp add: credentials_data_def marshal_process_credentials_def process_credentials_of_def)
qed

lemma with_status_sel [simp]:
  "RoleMeta (with_status r arn t) = RoleMeta r" "Spec (with_status r arn t) = Spec r"
  "RoleTypeMeta (with_status r arn t) = RoleTypeMeta r"
  "ObservedGeneration (Status (with_status r arn t)) = Some (Generation (RoleMeta r))"
  "owner_ref_of (with_status r arn t) = owner_ref_of r"
  by (simp_all add: with_status_def owner_ref_of_def)

text \<open>
  C36: A secret records the generation it was made for: \<open>getGeneration\<close> reads back from every secret that
  is created or renewed the generation of the role, for every 64-bit value; a secret without the key
  counts as generation 0, and an empty value is an error.
\<close>

theorem generation_round_trip:
  "getGeneration (Data (new_secret r data)) = Inr (Generation (RoleMeta r))
    \<and> getGeneration (Data (renewed r data s)) = Inr (Generation (RoleMeta r))
    \<and> getGeneration (Some (data(awsIAMRoleGenerationKey := None))) = Inr 0
    \<and> getGeneration (Some (data(awsIAMRoleGenerationKey \<mapsto> []))) = Inl ErrSyntax"
  by (simp add: getGeneration_stored) (simp add: getGeneration_def)

text \<open>
  A created secret belongs to its role and to no other: another resource owns it exactly when it
  has the same API version, kind, name and UID, so not when a role was deleted and made anew.
\<close>

theorem created_secret_owner:
  "isOwnedReference (RoleTypeMeta r') (RoleMeta r') (OwnerReferences (SecretMeta (new_secret r data)))
    \<longleftrightarrow> APIVersion (RoleTypeMeta r') = APIVersion (RoleTypeMeta r)
      \<and> Kind (RoleTypeMeta r') = Kind (RoleTypeMeta r)
      \<and> role_name r' = role_name r \<and> UID (RoleMeta r') = UID (RoleMeta r)"
  by (auto simp: isOwnedReference_iff owner_ref_of_def new_secret_def)

text \<open>
  The session duration of a role reaches STS as it was specified: a positive number of seconds
  below 2^31 is sent as that number, and a role without one asks for an hour.
\<close>

theorem session_seconds:
  assumes "RoleSessionDuration (Spec r) = word_of_int n" and "0 \<le> n" and "n < 2 ^ 31"
  shows "duration_seconds aws (roleSessionDuration r) = (if n = 0 then 3600 else word_of_int n)"
proof -
  have n: "sint (RoleSessionDuration (Spec r)) = n"
    using assms sint_int64 [of n] by simp
  show ?thesis
  proof (cases "n = 0")
    case True
    with n duration_seconds_exact [of 3600 aws] show ?thesis by (simp add: roleSessionDuration_def)
  next
    case False
    with n assms duration_seconds_exact [of n aws] show ?thesis by (simp add: roleSessionDuration_def)
  qed
qed

section \<open>The traces of a refresh\<close>

text \<open>
  Which secrets are orphans: those of no listed role, and those that do not name the role of their
  key as an owner.
\<close>

definition orphan :: "(string \<rightharpoonup> awsiamrole) \<Rightarrow> secret \<Rightarrow> bool" where
  "orphan awsIAMRolesMap s =
     (case awsIAMRolesMap (map_key (SecretMeta s)) of
        None \<Rightarrow> True
      | Some r \<Rightarrow> \<not> isOwnedReference (RoleTypeMeta r) (RoleMeta r) (OwnerReferences (SecretMeta s)))"

text \<open>The calls of one turn of the first loop, branch by branch.\<close>

inductive owned_trace :: "int64 \<Rightarrow> (string \<rightharpoonup> awsiamrole) \<Rightarrow> secret \<Rightarrow> secret list
    \<Rightarrow> secret list outcome \<Rightarrow> call list \<Rightarrow> bool"
  for lim rm s os where
  orphaned: "orphan rm s \<Longrightarrow> owned_trace lim rm s os (Ok (os @ [s])) []"
| fresh: "rm (map_key (SecretMeta s)) = Some r \<Longrightarrow> \<not> orphan rm s \<Longrightarrow> due_trace lim (Data s) False cs
    \<Longrightarrow> owned_trace lim rm s os (Ok os) cs"
| refused: "rm (map_key (SecretMeta s)) = Some r \<Longrightarrow> \<not> orphan rm s \<Longrightarrow> due_trace lim (Data s) True cs
    \<Longrightarrow> obind g credentials_data = Err err
    \<Longrightarrow> owned_trace lim rm s os (Ok os)
      (cs @ [CGetCreds (RoleReference (Spec r)) (roleSessionDuration r) g,
        CEvent r EventTypeWarning ''GetCredentialsFailed'' (FailedToGetCredentials (RoleReference (Spec r)) err)])"
| crashed: "rm (map_key (SecretMeta s)) = Some r \<Longrightarrow> \<not> orphan rm s \<Longrightarrow> due_trace lim (Data s) True cs
    \<Longrightarrow> obind g credentials_data = Panic m
    \<Longrightarrow> owned_trace lim rm s os (Panic m)
      (cs @ [CGetCreds (RoleReference (Spec r)) (roleSessionDuration r) g])"
| unwritten: "rm (map_key (SecretMeta s)) = Some r \<Longrightarrow> \<not> orphan rm s \<Longrightarrow> due_trace lim (Data s) True cs
    \<Longrightarrow> \<exists>creds. obind g credentials_data = Ok (creds, data)
    \<Longrightarrow> owned_trace lim rm s os (Ok os)
      (cs @ [CGetCreds (RoleReference (Spec r)) (roleSessionDuration r) g,
        CUpdateSecret (secret_ns s) (renewed r data s) (Inl err)])"
| written: "rm (map_key (SecretMeta s)) = Some r \<Longrightarrow> \<not> orphan rm s \<Longrightarrow> due_trace lim (Data s) True cs
    \<Longrightarrow> obind g credentials_data = Ok (creds, data)
    \<Longrightarrow> owned_trace lim rm s os (Ok os)
      (cs @ [CGetCreds (RoleReference (Spec r)) (roleSessionDuration r) g,
        CUpdateSecret (secret_ns s) (renewed r data s) (Inr s'),
        CEvent r EventTypeNormal ''UpdateCredentials'' (UpdatedCredentials (RoleARN creds) (Expiration creds)),
        CUpdateStatus (role_ns r) (with_status r (RoleARN creds) (Expiration creds)) st])"

lemma emits_refresh_owned: "emits (owned_trace (refreshLimit c) rm s os) (refresh_owned e c rm s os)"
proof (cases "orphan rm s")
  case True
  then show ?thesis
    by (auto simp: refresh_owned_def orphan_def intro!: emits_return owned_trace.orphaned
      split: option.splits)
next
  case False
  then obtain r where r: "rm (map_key (SecretMeta s)) = Some r"
    and owned: "isOwnedReference (RoleTypeMeta r) (RoleMeta r) (OwnerReferences (SecretMeta s))"
    by (auto simp: orphan_def split: option.splits)
  note written = owned_trace.refused [OF r False] owned_trace.crashed [OF r False]
    owned_trace.unwritten [OF r False] owned_trace.written [OF r False]
  show ?thesis
    unfolding refresh_owned_def r option.case
    apply (simp only: owned not_True_eq_False if_False)
    apply (rule emits_bind [OF emits_refresh_due])
    subgoal for b cs
      by (cases b) (auto simp: AWSIAMRole_getCreds_def call_defs
        intro!: emits_run written split: outcome.split sum.split
        intro: owned_trace.fresh [OF r False])
    done
qed

text \<open>The calls for one role: the status is synchronised, the secret is renewed or created.\<close>

inductive sync_trace :: "awsiamrole \<Rightarrow> secret \<Rightarrow> call list \<Rightarrow> bool" for r s where
  observed: "ObservedGeneration (Status r) = Some (Generation (RoleMeta r)) \<Longrightarrow> sync_trace r s []"
| unreadable: "ObservedGeneration (Status r) \<noteq> Some (Generation (RoleMeta r))
    \<Longrightarrow> parse_RFC3339 (data_value (Data s) expireKey) = None
    \<Longrightarrow> sync_trace r s
      [CEvent r EventTypeWarning ''ReadSecretFailed''
        (FailedToParseExpiry (data_value (Data s) expireKey) (secret_ns s) (secret_name s))]"
| reported: "ObservedGeneration (Status r) \<noteq> Some (Generation (RoleMeta r))
    \<Longrightarrow> parse_RFC3339 (data_value (Data s) expireKey) = Some t
    \<Longrightarrow> sync_trace r s
      [CUpdateStatus (role_ns r) (with_status r (data_value (Data s) roleARNKey) t) st]"

lemma emits_sync_status: "emits (\<lambda>r cs. r = Ok () \<and> sync_trace ro s cs) (sync_status e ro s)"
  unfolding sync_status_def event_def update_status_def
  by (auto intro!: emits_run intro: sync_trace.intros split: option.split)

abbreviation asks :: "awsiamrole \<Rightarrow> credentials outcome \<Rightarrow> call" where
  "asks r g \<equiv> CGetCreds (RoleReference (Spec r)) (roleSessionDuration r) g"

inductive reconcile_trace :: "(string \<rightharpoonup> secret) \<Rightarrow> awsiamrole \<Rightarrow> unit outcome \<Rightarrow> call list \<Rightarrow> bool"
  for sm r where
  garbled: "sm (map_key (RoleMeta r)) = Some s \<Longrightarrow> getGeneration (Data s) = Inl err
    \<Longrightarrow> reconcile_trace sm r (Ok ())
      [CEvent r EventTypeWarning ''ReadSecretFailed''
        (FailedToParseGeneration (secret_ns s) (secret_name s) err)]"
| current: "sm (map_key (RoleMeta r)) = Some s \<Longrightarrow> getGeneration (Data s) = Inr (Generation (RoleMeta r))
    \<Longrightarrow> sync_trace r s cs \<Longrightarrow> reconcile_trace sm r (Ok ()) cs"
| refused: "sm (map_key (RoleMeta r)) = Some s \<Longrightarrow> getGeneration (Data s) = Inr n
    \<Longrightarrow> Generation (RoleMeta r) \<noteq> n \<Longrightarrow> obind g credentials_data = Err err
    \<Longrightarrow> reconcile_trace sm r (Ok ()) [asks r g,
        CEvent r EventTypeWarning ''GetCredentialsFailed'' (FailedToGetCredentials (RoleReference (Spec r)) err)]"
| crashed: "sm (map_key (RoleMeta r)) = Some s \<Longrightarrow> getGeneration (Data s) = Inr n
    \<Longrightarrow> Generation (RoleMeta r) \<noteq> n \<Longrightarrow> obind g credentials_data = Panic m
    \<Longrightarrow> reconcile_trace sm r (Panic m) [asks r g]"
| unwritten: "sm (map_key (RoleMeta r)) = Some s \<Longrightarrow> getGeneration (Data s) = Inr n
    \<Longrightarrow> Generation (RoleMeta r) \<noteq> n \<Longrightarrow> \<exists>creds. obind g credentials_data = Ok (creds, data)
    \<Longrightarrow> reconcile_trace sm r (Ok ()) [asks r g,
        CUpdateSecret (secret_ns s) (renewed r data s) (Inl err),
        CEvent r EventTypeWarning ''UpdateSecretFailed''
          (FailedToUpdateSecret (secret_ns s) (secret_name s) err)]"
| written: "sm (map_key (RoleMeta r)) = Some s \<Longrightarrow> getGeneration (Data s) = Inr n
    \<Longrightarrow> Generation (RoleMeta r) \<noteq> n \<Longrightarrow> obind g credentials_data = Ok (creds, data)
    \<Longrightarrow> sync_trace r (renewed r data s) cs
    \<Longrightarrow> reconcile_trace sm r (Ok ()) (asks r g #
        CUpdateSecret (secret_ns s) (renewed r data s) (Inr s') #
        CEvent r EventTypeNormal ''UpdateCredentials''
          (UpdatedCredentials (RoleARN creds) (Expiration creds)) # cs)"
| unprovided: "sm (map_key (RoleMeta r)) = None \<Longrightarrow> obind g credentials_data = Err err
    \<Longrightarrow> reconcile_trace sm r (Ok ()) [asks r g,
        CEvent r EventTypeWarning ''GetCredentialsFailed'' (FailedToGetCredentials (RoleReference (Spec r)) err)]"
| crashed_new: "sm (map_key (RoleMeta r)) = None \<Longrightarrow> obind g credentials_data = Panic m
    \<Longrightarrow> reconcile_trace sm r (Panic m) [asks r g]"
| uncreated: "sm (map_key (RoleMeta r)) = None \<Longrightarrow> \<exists>creds. obind g credentials_data = Ok (creds, data)
    \<Longrightarrow> reconcile_trace sm r (Ok ()) [asks r g,
        CCreateSecret (role_ns r) (new_secret r data) (Inl err),
        CEvent r EventTypeWarning ''CreateSecretFailed''
          (FailedToCreateSecret (role_ns r) (role_name r) err)]"
| created: "sm (map_key (RoleMeta r)) = None \<Longrightarrow> obind g credentials_data = Ok (creds, data)
    \<Longrightarrow> reconcile_trace sm r (Ok ()) [asks r g,
        CCreateSecret (role_ns r) (new_secret r data) (Inr s'),
        CEvent r EventTypeNormal ''CreateCredentials''
          (CreatedCredentials (RoleARN creds) (Expiration creds)),
        CUpdateStatus (role_ns r) (with_status r (RoleARN creds) (Expiration creds)) st]"

lemma emits_provision:
  assumes "sm (map_key (RoleMeta r)) = None"
  shows "emits (reconcile_trace sm r) (provision e r)"
  using reconcile_trace.unprovided [where sm = sm and r = r, OF assms] reconcile_trace.crashed_new [where sm = sm and r = r, OF assms]
    reconcile_trace.uncreated [where sm = sm and r = r, OF assms] reconcile_trace.created [where sm = sm and r = r, OF assms]
  by (auto simp: provision_def AWSIAMRole_getCreds_def call_defs intro!: emits_run
    split: outcome.split sum.split)

lemma emits_renew_outdated:
  assumes "sm (map_key (RoleMeta r)) = Some s" "getGeneration (Data s) = Inr n"
    "Generation (RoleMeta r) \<noteq> n"
  shows "emits (reconcile_trace sm r) (renew_outdated e r s)"
proof -
  note rules = reconcile_trace.refused [where sm = sm and r = r, OF assms] reconcile_trace.crashed [where sm = sm and r = r, OF assms]
    reconcile_trace.unwritten [where sm = sm and r = r, OF assms] reconcile_trace.written [where sm = sm and r = r, OF assms]
  have sync: "emits (\<lambda>b ds. reconcile_trace sm r b (asks r g #
      CUpdateSecret (secret_ns s) (renewed r data s) (Inr s') #
      CEvent r EventTypeNormal ''UpdateCredentials'' (UpdatedCredentials (RoleARN creds) (Expiration creds)) # ds))
      (sync_status e r (renewed r data s))"
    if "obind g credentials_data = Ok (creds, data)" for g creds data s'
    using that by (auto intro!: emits_mono [OF emits_sync_status] rules(4))
  from rules(1-3) sync show ?thesis
    by (auto simp: renew_outdated_def AWSIAMRole_getCreds_def call_defs intro!: emits_run
      split: outcome.split sum.split)
qed

lemma emits_reconcile_role: "emits (reconcile_trace sm r) (reconcile_role e sm r u)"
proof (cases "sm (map_key (RoleMeta r))")
  case None
  then show ?thesis by (simp add: reconcile_role_def emits_provision)
next
  case (Some s)
  show ?thesis
  proof (cases "getGeneration (Data s)")
    case (Inl err)
    with Some show ?thesis
      by (auto simp: reconcile_role_def event_def intro!: emits_run reconcile_trace.garbled)
  next
    case (Inr n)
    show ?thesis
    proof (cases "Generation (RoleMeta r) = n")
      case True
      with Some Inr show ?thesis
        by (auto simp: reconcile_role_def intro!: emits_mono [OF emits_sync_status] reconcile_trace.current)
    qed (use Some Inr in \<open>simp add: reconcile_role_def emits_renew_outdated\<close>)
  qed
qed

definition deleted_trace :: "secret \<Rightarrow> unit \<Rightarrow> unit outcome \<Rightarrow> call list \<Rightarrow> bool" where
  "deleted_trace s u r cs \<longleftrightarrow>
     r = Ok () \<and> (\<exists>res. cs = [CDeleteSecret (secret_ns s) (secret_name s) res])"

lemma emits_delete_orphan: "emits (deleted_trace s u) (delete_orphan e s u)"
  unfolding delete_orphan_def delete_secret_def
  by (auto intro!: emits_run simp: deleted_trace_def)

definition listed_trace :: "aws_controller \<Rightarrow> secret list \<Rightarrow> awsiamrole list \<Rightarrow> unit outcome
    \<Rightarrow> call list \<Rightarrow> bool" where
  "listed_trace c secrets roles =
     seq_trace (loop_trace (owned_trace (refreshLimit c) (roles_map roles)) secrets [])
       (\<lambda>orphanSecrets. seq_trace (loop_trace deleted_trace orphanSecrets ())
         (\<lambda>_. loop_trace (\<lambda>r _. reconcile_trace (secrets_map secrets) r) roles ()))"

lemma emits_refresh_listed: "emits (listed_trace c secrets roles) (refresh_listed e c secrets roles)"
  unfolding listed_trace_def refresh_listed_def
  by (intro emits_and_then emits_for_range emits_refresh_owned emits_delete_orphan emits_reconcile_role)

text \<open>The calls of a whole refresh: it stops at the first list that fails.\<close>

inductive after_listing :: "aws_controller \<Rightarrow> (secret list \<Rightarrow> awsiamrole list \<Rightarrow> unit outcome \<Rightarrow> call list \<Rightarrow> bool)
    \<Rightarrow> unit outcome \<Rightarrow> call list \<Rightarrow> bool" for c P where
  no_secrets: "after_listing c P (Err err) [CListSecrets (namespace c) awsIAMRoleOwnerLabels (Inl err)]"
| no_roles: "after_listing c P (Err err)
    [CListSecrets (namespace c) awsIAMRoleOwnerLabels (Inr secrets), CListRoles (namespace c) (Inl err)]"
| listed: "P secrets roles r cs \<Longrightarrow> after_listing c P r
    (CListSecrets (namespace c) awsIAMRoleOwnerLabels (Inr secrets) # CListRoles (namespace c) (Inr roles) # cs)"

lemma emits_after_listing:
  assumes "\<And>secrets roles. emits (P secrets roles) (refresh_listed e c secrets roles)"
  shows "emits (after_listing c P) (AWSIAMRole_refresh e c)"
proof -
  have listed: "emits (\<lambda>r cs. after_listing c P r
      (CListSecrets (namespace c) awsIAMRoleOwnerLabels (Inr secrets)
        # CListRoles (namespace c) (Inr roles) # cs)) (refresh_listed e c secrets roles)" for secrets roles
    by (rule emits_mono [OF assms]) (rule after_listing.listed)
  show ?thesis
    unfolding AWSIAMRole_refresh_def list_secrets_def list_roles_def
    by (auto intro!: emits_run listed after_listing.no_secrets after_listing.no_roles split: sum.split)
qed

lemma emits_refresh:
  assumes "\<And>secrets roles r cs. listed_trace c secrets roles r cs \<Longrightarrow> P secrets roles r cs"
  shows "emits (after_listing c P) (AWSIAMRole_refresh e c)"
  by (rule emits_after_listing, rule emits_mono [OF emits_refresh_listed], rule assms)

section \<open>What the loops do\<close>

inductive_cases owned_traceE: "owned_trace lim rm s os r cs"
inductive_cases reconcile_traceE: "reconcile_trace sm r res cs"
inductive_cases sync_traceE: "sync_trace r s cs"

lemma owned_loop_orphans:
  assumes "loop_trace (owned_trace lim rm) secrets os r cs"
  shows "r = Ok (os @ filter (orphan rm) secrets) \<or> (\<exists>m. r = Panic m)"
  using assms by induction (auto elim!: owned_traceE)

lemma deleted_loop:
  assumes "loop_trace deleted_trace ss u r cs"
  shows "r = Ok ()"
  using assms by induction (auto simp: deleted_trace_def)

lemma listed_trace_cases [consumes 1, case_names crashed finished]:
  assumes "listed_trace c secrets roles r cs"
  obtains (crashed) m where "r = Panic m"
      "loop_trace (owned_trace (refreshLimit c) (roles_map roles)) secrets [] (Panic m) cs"
  | (finished) cs1 cs2 cs3 where "cs = cs1 @ cs2 @ cs3"
      "loop_trace (owned_trace (refreshLimit c) (roles_map roles)) secrets []
         (Ok (filter (orphan (roles_map roles)) secrets)) cs1"
      "loop_trace deleted_trace (filter (orphan (roles_map roles)) secrets) () (Ok ()) cs2"
      "loop_trace (\<lambda>r _. reconcile_trace (secrets_map secrets) r) roles () r cs3"
  using assms unfolding listed_trace_def
proof (cases rule: seq_trace.cases)
  case (both os cs1 cs')
  then have os: "os = filter (orphan (roles_map roles)) secrets"
    by (auto dest: owned_loop_orphans)
  from both(3) show thesis
  proof (cases rule: seq_trace.cases)
    case (both u cs2 cs3)
    with \<open>cs = cs1 @ cs'\<close> \<open>loop_trace _ secrets [] (Ok os) cs1\<close> show thesis
      by (intro finished) (simp_all add: os)
  qed (auto dest: deleted_loop)
qed (auto dest: owned_loop_orphans intro: crashed)

end
