(* ===== verification/Examples.thy ===== *)
theory Examples
  imports AWSIAMRoleController
begin

text \<open>
  Concrete values at which the properties are applied: a role, its secret, and a client and
  an SDK that answer every call with fixed values.
\<close>

definition example_early :: gotime where
  "example_early = \<lparr>at = Instant (1893400000 * 1000000000), zone_offset = 0\<rparr>"

definition example_meta :: object_meta where
  "example_meta = \<lparr>Name = ''app'', Namespace = ''default'', UID = ''u1'', ResourceVersion = ''1'',
     Generation = 1, Labels = Map.empty, OwnerReferences = []\<rparr>"

definition example_role :: awsiamrole where
  "example_role =
     \<lparr>RoleTypeMeta = \<lparr>APIVersion = ''zalando.org/v1'', Kind = ''AWSIAMRole''\<rparr>, RoleMeta = example_meta,
      Spec = \<lparr>RoleReference = ''app'', RoleSessionDuration = 0\<rparr>,
      Status = \<lparr>ObservedGeneration = Some 1, statusRoleARN = ''arn:aws:iam::012345678910:role/app'',
                statusExpiration = Some example_time\<rparr>\<rparr>"

definition example_data :: string_map where
  "example_data = Map.empty(roleARNKey \<mapsto> ''arn:aws:iam::012345678910:role/app'',
     expireKey \<mapsto> ''2030-01-01T00:00:00Z'')"

definition example_secret :: secret where
  "example_secret = new_secret example_role example_data"

definition example_aws :: "unit aws" where
  "example_aws =
     \<lparr>AssumeRole = (\<lambda>params w. (Inr \<lparr>stsCredentials = Some \<lparr>stsAccessKeyId = Some ''AKIA'',
        stsSecretAccessKey = Some ''secret'', stsSessionToken = Some ''token'',
        stsExpiration = Some example_time\<rparr>\<rparr>, w)),
      GetIAMInfo = (\<lambda>w. (Inr ''arn:aws:iam::012345678910:instance-profile/kube'', w)),
      ParsePartition = (\<lambda>arn. Inr ''aws''),
      ToString = (\<lambda>s. case s of None \<Rightarrow> [] | Some s \<Rightarrow> s),
      ToTime = (\<lambda>t. case t of None \<Rightarrow> example_time | Some t \<Rightarrow> t),
      SecondsToInt32 = (\<lambda>d. 0)\<rparr>"

definition example_getter :: sts_getter where
  "example_getter = NewSTSCredentialsGetter ''arn:aws:iam::012345678910:role/'' ''arn:aws:iam::''"

definition example_env :: "unit env" where
  "example_env =
     \<lparr>Now = (\<lambda>w. (example_early, w)),
      GetCreds = sts_get example_aws example_getter,
      ListSecrets = (\<lambda>ns sel w. (Inr [example_secret], w)),
      ListRoles = (\<lambda>ns w. (Inr [example_role], w)),
      UpdateSecret = (\<lambda>ns s w. (Inr s, w)),
      CreateSecret = (\<lambda>ns s w. (Inr s, w)),
      DeleteSecret = (\<lambda>ns n w. (None, w)),
      UpdateStatus = (\<lambda>ns r w. (Inr r, w)),
      RecordEvent = (\<lambda>r t reason m w. w)\<rparr>"

text \<open>A role reference with 60 levels.\<close>

definition example_deep_role :: awsiamrole where
  "example_deep_role = example_role\<lparr>Spec := \<lparr>RoleReference = replicate 60 CHR ''/'', RoleSessionDuration = 0\<rparr>\<rparr>"

lemma example_expiry: "parse_RFC3339 ''2030-01-01T00:00:00Z'' = Some example_time"
  by code_simp

theorem session_seconds_witness:
  "duration_seconds example_aws (roleSessionDuration (example_role\<lparr>Spec := \<lparr>RoleReference = ''app'',
     RoleSessionDuration = 900\<rparr>\<rparr>)) = 900"
  using session_seconds [of "example_role\<lparr>Spec := \<lparr>RoleReference = ''app'', RoleSessionDuration = 900\<rparr>\<rparr>"
      900 example_aws] by simp

lemma example_credentials_data:
  "\<exists>data. credentials_data example_credentials = Ok (example_credentials, data)"
  using credentials_data_Ok [OF example_credentials_ok(4)] by blast

end
