(* ===== verification/RoleStore.thy ===== *)
theory RoleStore
  imports Prelude "HOL-Library.AList"
begin

text \<open>
  \<^verbatim>\<open>role_store.go\<close>: the in-memory store of which pods use which role in which namespace.  The three
  levels of Go maps are association lists (at most one entry per key, an invariant here), so that
  \<open>len\<close> and the emptiness tests of \<open>Remove\<close> compute; the order of a list stands for one order in
  which Go may range over the map.  The inner maps are not shared with anything outside the store,
  so updating them in place is the same as storing the updated map.  The read/write lock only
  serialises the operations, each of which is one step here.

  The contract of the store is the locale \<open>role_index\<close>: a set of (role, namespace, pod) triples.
\<close>

section \<open>The contract\<close>

locale role_index =
  fixes empty :: 's
    and exists :: "'s \<Rightarrow> string \<Rightarrow> string \<Rightarrow> bool"
    and add :: "string \<Rightarrow> string \<Rightarrow> string \<Rightarrow> 's \<Rightarrow> 's"
    and remove :: "string \<Rightarrow> string \<Rightarrow> string \<Rightarrow> 's \<Rightarrow> 's"
    and uses :: "'s \<Rightarrow> (string \<times> string \<times> string) set"
    and invar :: "'s \<Rightarrow> bool"
  assumes uses_empty: "uses empty = {}"
    and uses_add: "invar s \<Longrightarrow> uses (add r n p s) = insert (r, n, p) (uses s)"
    and uses_remove: "invar s \<Longrightarrow> uses (remove r n p s) = uses s - {(r, n, p)}"
    and exists_uses: "invar s \<Longrightarrow> exists s r n \<longleftrightarrow> (\<exists>p. (r, n, p) \<in> uses s)"
    and invar_empty: "invar empty"
    and invar_add: "invar s \<Longrightarrow> invar (add r n p s)"
    and invar_remove: "invar s \<Longrightarrow> invar (remove r n p s)"
begin

lemma exists_empty: "\<not> exists empty r n"
  by (simp add: exists_uses invar_empty uses_empty)

lemma exists_add:
  "invar s \<Longrightarrow> exists (add r n p s) r' n' \<longleftrightarrow> (r' = r \<and> n' = n) \<or> exists s r' n'"
  by (auto simp: exists_uses invar_add uses_add)

end

section \<open>The store\<close>

type_synonym pods = "(string \<times> unit) list"
type_synonym namespaces = "(string \<times> pods) list"

record role_store =
  Store :: "(string \<times> namespaces) list"

definition NewRoleStore :: role_store where
  "NewRoleStore = \<lparr>Store = []\<rparr>"

definition Exists :: "role_store \<Rightarrow> string \<Rightarrow> string \<Rightarrow> bool" where
  "Exists s role namespace =
     (case map_of (Store s) role of
        Some ns \<Rightarrow> (case map_of ns namespace of Some _ \<Rightarrow> True | None \<Rightarrow> False)
      | None \<Rightarrow> False)"

definition Add :: "string \<Rightarrow> string \<Rightarrow> string \<Rightarrow> role_store \<Rightarrow> role_store" where
  "Add role namespace name s =
     s\<lparr>Store :=
       (case map_of (Store s) role of
          Some ns \<Rightarrow>
            (case map_of ns namespace of
               Some pods \<Rightarrow>
                 AList.update role (AList.update namespace (AList.update name () pods) ns) (Store s)
             | None \<Rightarrow> AList.update role (AList.update namespace [(name, ())] ns) (Store s))
        | None \<Rightarrow> AList.update role [(namespace, [(name, ())])] (Store s))\<rparr>"

definition Remove :: "string \<Rightarrow> string \<Rightarrow> string \<Rightarrow> role_store \<Rightarrow> role_store" where
  "Remove role namespace name s =
     s\<lparr>Store :=
       (case map_of (Store s) role of
          Some ns \<Rightarrow>
            (case map_of ns namespace of
               Some pods \<Rightarrow>
                 (let ns' =
                    (case map_of pods name of
                       Some _ \<Rightarrow>
                         (if length pods = 1 then AList.delete namespace ns
                          else AList.update namespace (AList.delete name pods) ns)
                     | None \<Rightarrow> ns)
                  in if length ns' = 0 then AList.delete role (Store s)
                     else AList.update role ns' (Store s))
             | None \<Rightarrow> Store s)
        | None \<Rightarrow> Store s)\<rparr>"

text \<open>The triples a store stands for, and its invariant: one entry per key, no empty inner map.\<close>

definition uses_of :: "role_store \<Rightarrow> (string \<times> string \<times> string) set" where
  "uses_of s = {(r, n, p). \<exists>ns pods. map_of (Store s) r = Some ns \<and> map_of ns n = Some pods
                              \<and> map_of pods p = Some ()}"

definition pods_ok :: "pods \<Rightarrow> bool" where
  "pods_ok pods \<longleftrightarrow> distinct (map fst pods) \<and> pods \<noteq> []"

definition namespaces_ok :: "namespaces \<Rightarrow> bool" where
  "namespaces_ok ns \<longleftrightarrow> distinct (map fst ns) \<and> ns \<noteq> [] \<and> (\<forall>(n, pods) \<in> set ns. pods_ok pods)"

definition store_ok :: "role_store \<Rightarrow> bool" where
  "store_ok s \<longleftrightarrow> distinct (map fst (Store s)) \<and> (\<forall>(r, ns) \<in> set (Store s). namespaces_ok ns)"

section \<open>The invariant\<close>

lemma update_ok:
  assumes "distinct (map fst m)" and "\<forall>(k, v) \<in> set m. P v" and "P v"
  shows "distinct (map fst (AList.update k v m)) \<and> (\<forall>(k, v) \<in> set (AList.update k v m). P v)"
proof
  show "distinct (map fst (AList.update k v m))"
    using assms(1) by (rule distinct_update)
  show "\<forall>(k, v) \<in> set (AList.update k v m). P v"
    using assms(2,3) by (induction m) auto
qed

lemma delete_ok:
  assumes "distinct (map fst m)" and "\<forall>(k, v) \<in> set m. P v"
  shows "distinct (map fst (AList.delete k m)) \<and> (\<forall>(k, v) \<in> set (AList.delete k m). P v)"
proof
  show "distinct (map fst (AList.delete k m))"
    using assms(1) by (rule distinct_delete)
  show "\<forall>(k, v) \<in> set (AList.delete k m). P v"
    using assms(2) by (auto simp: AList.delete_eq)
qed

lemma namespaces_ok_update:
  "namespaces_ok ns \<Longrightarrow> pods_ok pods \<Longrightarrow> namespaces_ok (AList.update n pods ns)"
  using update_ok [of ns pods_ok pods n] by (cases ns) (auto simp: namespaces_ok_def)

lemma namespaces_ok_delete:
  "namespaces_ok ns \<Longrightarrow> AList.delete n ns \<noteq> [] \<Longrightarrow> namespaces_ok (AList.delete n ns)"
  using delete_ok [of ns pods_ok n] by (auto simp: namespaces_ok_def)

lemma pods_ok_update: "pods_ok pods \<Longrightarrow> pods_ok (AList.update p () pods)"
  unfolding pods_ok_def by (metis distinct_update update_nonempty)

lemma pods_ok_delete:
  assumes "pods_ok pods" and "length pods \<noteq> 1"
  shows "pods_ok (AList.delete p pods)"
proof -
  obtain x y zs where "pods = x # y # zs"
    using assms by (cases pods rule: list.exhaust [case_names Nil Cons])
      (auto simp: pods_ok_def neq_Nil_conv length_Suc_conv elim: list.exhaust)
  with assms(1) have "AList.delete p pods \<noteq> []"
    by (auto simp: pods_ok_def)
  with assms(1) show ?thesis
    by (simp add: pods_ok_def distinct_delete)
qed

lemma store_okD:
  assumes "store_ok s" and "map_of (Store s) r = Some ns"
  shows "namespaces_ok ns"
  using assms by (auto simp: store_ok_def dest: map_of_SomeD)

lemma namespaces_okD:
  assumes "namespaces_ok ns" and "map_of ns n = Some pods"
  shows "pods_ok pods"
  using assms by (auto simp: namespaces_ok_def dest: map_of_SomeD)

lemma store_ok_update:
  "store_ok s \<Longrightarrow> namespaces_ok ns \<Longrightarrow> store_ok (s\<lparr>Store := AList.update r ns (Store s)\<rparr>)"
  using update_ok [of "Store s" namespaces_ok ns r] by (simp add: store_ok_def)

lemma store_ok_delete: "store_ok s \<Longrightarrow> store_ok (s\<lparr>Store := AList.delete r (Store s)\<rparr>)"
  using delete_ok [of "Store s" namespaces_ok r] by (simp add: store_ok_def)

lemma store_ok_New: "store_ok NewRoleStore"
  by (simp add: store_ok_def NewRoleStore_def)

lemma pods_ok_single: "pods_ok [(p, ())]"
  by (simp add: pods_ok_def)

lemma namespaces_ok_single: "pods_ok pods \<Longrightarrow> namespaces_ok [(n, pods)]"
  by (simp add: namespaces_ok_def)

lemmas store_intros =
  store_ok_update store_ok_delete namespaces_ok_update namespaces_ok_delete
  pods_ok_update pods_ok_delete pods_ok_single namespaces_ok_single

lemma store_ok_Add: "store_ok s \<Longrightarrow> store_ok (Add r n p s)"
  unfolding Add_def
  by (auto intro!: store_intros dest: store_okD namespaces_okD split: option.split)

lemma store_ok_Remove: "store_ok s \<Longrightarrow> store_ok (Remove r n p s)"
  unfolding Remove_def Let_def
  by (auto intro!: store_intros dest: store_okD namespaces_okD split: option.split)

section \<open>The store implements its contract\<close>

definition ns_uses :: "namespaces \<Rightarrow> (string \<times> string) set" where
  "ns_uses ns = {(n, p). \<exists>pods. map_of ns n = Some pods \<and> map_of pods p = Some ()}"

lemma uses_of_ns: "(r, n, p) \<in> uses_of s \<longleftrightarrow> (\<exists>ns. map_of (Store s) r = Some ns \<and> (n, p) \<in> ns_uses ns)"
  by (auto simp: uses_of_def ns_uses_def)

lemma ns_uses_Nil [simp]: "ns_uses [] = {}"
  by (simp add: ns_uses_def)

lemma ns_uses_update:
  "ns_uses (AList.update n pods ns) =
     {(m, p). if m = n then map_of pods p = Some () else (m, p) \<in> ns_uses ns}"
  by (auto simp: ns_uses_def update_conv')

lemma ns_uses_delete: "ns_uses (AList.delete n ns) = {(m, p). m \<noteq> n \<and> (m, p) \<in> ns_uses ns}"
  by (auto simp: ns_uses_def delete_conv' split: if_splits)

lemma uses_of_New: "uses_of NewRoleStore = {}"
  by (simp add: uses_of_def NewRoleStore_def)

lemma pods_ok_inhabited: "pods_ok pods \<Longrightarrow> \<exists>p. map_of pods p = Some ()"
  by (cases pods) (auto simp: pods_ok_def)

lemma Exists_uses: "store_ok s \<Longrightarrow> Exists s r n \<longleftrightarrow> (\<exists>p. (r, n, p) \<in> uses_of s)"
  by (auto simp: Exists_def uses_of_def split: option.splits
      dest: store_okD namespaces_okD pods_ok_inhabited)

lemma uses_of_update:
  "uses_of (s\<lparr>Store := AList.update r ns (Store s)\<rparr>) =
     {(r', n, p). if r' = r then (n, p) \<in> ns_uses ns else (r', n, p) \<in> uses_of s}"
  by (auto simp: uses_of_ns update_conv')

lemma uses_of_delete:
  "uses_of (s\<lparr>Store := AList.delete r (Store s)\<rparr>) = {(r', n, p). r' \<noteq> r \<and> (r', n, p) \<in> uses_of s}"
  by (auto simp: uses_of_ns delete_conv' split: if_splits)

text \<open>\<open>level r N S\<close>: the triples \<open>S\<close> with those of role \<open>r\<close> replaced by \<open>N\<close>.\<close>

definition level :: "string \<Rightarrow> (string \<times> string) set \<Rightarrow> (string \<times> string \<times> string) set
    \<Rightarrow> (string \<times> string \<times> string) set" where
  "level r N S = {(r', n, p). if r' = r then (n, p) \<in> N else (r', n, p) \<in> S}"

definition at_role :: "string \<Rightarrow> (string \<times> string \<times> string) set \<Rightarrow> (string \<times> string) set" where
  "at_role r S = {(n, p). (r, n, p) \<in> S}"

lemma level_insert: "level r (insert (n, p) (at_role r S)) S = insert (r, n, p) S"
  by (auto simp: level_def at_role_def split: if_splits)

lemma level_remove: "level r (at_role r S - {(n, p)}) S = S - {(r, n, p)}"
  by (auto simp: level_def at_role_def split: if_splits)

lemma at_role_uses:
  "at_role r (uses_of s) = (case map_of (Store s) r of Some ns \<Rightarrow> ns_uses ns | None \<Rightarrow> {})"
  unfolding at_role_def uses_of_ns by (cases "map_of (Store s) r") simp_all

lemma uses_of_level:
  "uses_of (s\<lparr>Store := AList.update r ns (Store s)\<rparr>) = level r (ns_uses ns) (uses_of s)"
  "uses_of (s\<lparr>Store := AList.delete r (Store s)\<rparr>) = level r {} (uses_of s)"
  by (simp_all add: uses_of_update uses_of_delete level_def) auto

lemma uses_of_Add: "uses_of (Add r n p s) = insert (r, n, p) (uses_of s)"
proof (cases "map_of (Store s) r")
  case None
  have "ns_uses [(n, [(p, ())])] = insert (n, p) (at_role r (uses_of s))"
    unfolding at_role_uses None by (auto simp: ns_uses_def split: if_splits)
  then have "uses_of (s\<lparr>Store := AList.update r [(n, [(p, ())])] (Store s)\<rparr>) = insert (r, n, p) (uses_of s)"
    by (simp only: uses_of_level level_insert)
  then show ?thesis unfolding Add_def None by simp
next
  case (Some ns)
  define pods' where "pods' = (case map_of ns n of Some pods \<Rightarrow> AList.update p () pods | None \<Rightarrow> [(p, ())])"
  have Add: "Add r n p s = s\<lparr>Store := AList.update r (AList.update n pods' ns) (Store s)\<rparr>"
    unfolding Add_def Some pods'_def by (simp split: option.split)
  have "ns_uses (AList.update n pods' ns) = insert (n, p) (ns_uses ns)"
    unfolding ns_uses_update pods'_def
    by (auto simp: ns_uses_def update_conv' split: option.splits if_splits)
  then have "ns_uses (AList.update n pods' ns) = insert (n, p) (at_role r (uses_of s))"
    unfolding at_role_uses Some by simp
  then show ?thesis
    by (simp only: Add uses_of_level level_insert)
qed

lemma pods_single:
  "length pods = 1 \<Longrightarrow> map_of pods p = Some () \<Longrightarrow> map_of pods q = Some () \<longleftrightarrow> q = p"
  by (cases pods) (auto split: if_splits)

lemma ns_uses_removed:
  assumes "map_of ns n = Some pods" and "map_of pods p = Some ()"
  shows "ns_uses (if length pods = 1 then AList.delete n ns
                  else AList.update n (AList.delete p pods) ns) = ns_uses ns - {(n, p)}"
proof -
  have n: "(n, q) \<in> ns_uses ns \<longleftrightarrow> map_of pods q = Some ()" for q
    using assms(1) by (simp add: ns_uses_def)
  show ?thesis
  proof (cases "length pods = 1")
    case True
    have "(m, q) \<in> ns_uses (AList.delete n ns) \<longleftrightarrow> (m, q) \<in> ns_uses ns - {(n, p)}" for m q
      using n [of q] pods_single [OF True assms(2)] by (cases "m = n") (simp_all add: ns_uses_delete)
    with True show ?thesis by auto
  next
    case False
    have "(m, q) \<in> ns_uses (AList.update n (AList.delete p pods) ns) \<longleftrightarrow> (m, q) \<in> ns_uses ns - {(n, p)}" for m q
      using n [of q] by (cases "m = n") (simp_all add: ns_uses_update delete_conv')
    with False show ?thesis by auto
  qed
qed

lemma uses_of_Remove_level:
  assumes "map_of (Store s) r = Some ns" and "ns_uses ns' = ns_uses ns - {(n, p)}"
  shows "uses_of (s\<lparr>Store := if length ns' = 0 then AList.delete r (Store s)
                               else AList.update r ns' (Store s)\<rparr>) = uses_of s - {(r, n, p)}"
proof -
  have "uses_of (s\<lparr>Store := if length ns' = 0 then AList.delete r (Store s)
      else AList.update r ns' (Store s)\<rparr>) = level r (ns_uses ns') (uses_of s)"
    by (cases ns') (simp_all add: uses_of_level)
  also have "\<dots> = level r (at_role r (uses_of s) - {(n, p)}) (uses_of s)"
    using assms by (simp add: at_role_uses)
  finally show ?thesis by (simp only: level_remove)
qed

lemma uses_of_Remove:
  assumes "store_ok s"
  shows "uses_of (Remove r n p s) = uses_of s - {(r, n, p)}"
proof (cases "map_of (Store s) r")
  case None
  then have "(r, n, p) \<notin> uses_of s" by (simp add: uses_of_ns)
  then show ?thesis unfolding Remove_def None by simp
next
  case (Some ns)
  note ns = Some
  define ns' where "ns' = (case map_of ns n of Some pods \<Rightarrow>
      (case map_of pods p of
         Some _ \<Rightarrow> (if length pods = 1 then AList.delete n ns else AList.update n (AList.delete p pods) ns)
       | None \<Rightarrow> ns) | None \<Rightarrow> ns)"
  have "ns_uses ns' = ns_uses ns - {(n, p)}"
  proof (cases "\<exists>pods. map_of ns n = Some pods \<and> map_of pods p = Some ()")
    case True
    then show ?thesis using ns_uses_removed by (auto simp: ns'_def)
  next
    case False
    then show ?thesis by (auto simp: ns'_def ns_uses_def split: option.splits)
  qed
  note level = uses_of_Remove_level [OF ns this]
  show ?thesis
  proof (cases "map_of ns n")
    case None
    then have "(r, n, p) \<notin> uses_of s"
      using ns by (simp add: uses_of_def)
    then have "uses_of s - {(r, n, p)} = uses_of s" by blast
    with None ns show ?thesis by (simp add: Remove_def)
  next
    case (Some pods)
    then have "Remove r n p s = s\<lparr>Store := if length ns' = 0 then AList.delete r (Store s)
        else AList.update r ns' (Store s)\<rparr>"
      by (simp only: Remove_def ns ns'_def Some option.case Let_def)
    with level show ?thesis by (simp only:)
  qed
qed

interpretation rs: role_index NewRoleStore Exists Add Remove uses_of store_ok
  by unfold_locales
    (simp_all add: uses_of_New uses_of_Add uses_of_Remove Exists_uses store_ok_New store_ok_Add store_ok_Remove)

section \<open>Histories\<close>

text \<open>Any sequence of operations on a new store, and the uses it leaves.\<close>

datatype store_op = Use string string string | Unuse string string string

primrec do_op :: "store_op \<Rightarrow> role_store \<Rightarrow> role_store" where
  "do_op (Use r n p) s = Add r n p s"
| "do_op (Unuse r n p) s = Remove r n p s"

primrec net_op :: "store_op \<Rightarrow> (string \<times> string \<times> string) set \<Rightarrow> (string \<times> string \<times> string) set" where
  "net_op (Use r n p) u = insert (r, n, p) u"
| "net_op (Unuse r n p) u = u - {(r, n, p)}"

lemma do_op_uses: "store_ok s \<Longrightarrow> store_ok (do_op op s) \<and> uses_of (do_op op s) = net_op op (uses_of s)"
  by (cases op) (simp_all add: rs.invar_add rs.invar_remove rs.uses_add rs.uses_remove)

lemma fold_do_op:
  "store_ok s \<Longrightarrow> store_ok (fold do_op ops s) \<and> uses_of (fold do_op ops s) = fold net_op ops (uses_of s)"
  by (induction ops arbitrary: s) (simp_all add: do_op_uses)

text \<open>
  C23: The role store is right after any history.  Whatever operations a new store has seen, it keeps
  one entry per key and no empty inner map, it holds exactly the uses that were added and not removed
  since, and \<open>Exists\<close> finds a role in a namespace exactly when some pod there still uses it.
\<close>

theorem role_store_history:
  "let s = fold do_op ops NewRoleStore; u = fold net_op ops {} in
     store_ok s \<and> uses_of s = u \<and> (\<forall>r n. Exists s r n \<longleftrightarrow> (\<exists>p. (r, n, p) \<in> u))"
  using fold_do_op [OF rs.invar_empty, of ops]
  by (simp add: Let_def rs.uses_empty rs.exists_uses)

end
