(* ===== verification/SecretsController.thy ===== *)
theory SecretsController
  imports SecretData RoleStore
begin

text \<open>
  \<^verbatim>\<open>secrets_controller.go\<close>: secrets for the roles in a role store, one per role and namespace.
  \<open>Secrets_refresh\<close> lists the secrets with the owner label; its first loop deletes those whose role
  is not in the store and refreshes those that are due (\<open>refresh_unowned\<close>), and its second loop
  creates the missing ones (\<open>provision_used\<close>, \<open>create_missing\<close>).  The order of the store's lists is
  the order in which Go ranges over its maps; the statements hold for every such order.  Log lines
  are left out.
\<close>

section \<open>The controller\<close>

definition ownerLabels :: string_map where
  "ownerLabels = Map.empty(heritageLabelKey \<mapsto> awsIAMControllerLabelValue)"

record secrets_controller =
  secInterval :: int64
  secRefreshLimit :: int64
  roleStore :: role_store
  secNamespace :: string

definition NewSecretsController :: "string \<Rightarrow> int64 \<Rightarrow> int64 \<Rightarrow> secrets_controller" where
  "NewSecretsController ns ivl lim =
     \<lparr>secInterval = ivl, secRefreshLimit = lim, roleStore = NewRoleStore, secNamespace = ns\<rparr>"

text \<open>The secret data made of credentials: unlike the other controller's, without the role ARN.\<close>

definition secret_data :: "credentials \<Rightarrow> string_map outcome" where
  "secret_data creds =
     (let credsFile = credentials_file (AccessKeyID creds) (SecretAccessKey creds)
                        (SessionToken creds) (format_RFC3339 (Expiration creds))
      in obind (marshal_process_credentials (process_credentials_of creds)) (\<lambda>processCredsData.
           Ok (Map.empty(
             expireKey \<mapsto> format_RFC3339 (Expiration creds),
             credentialsFileKey \<mapsto> credsFile,
             credentialsProcessFileKey \<mapsto> credentialsProcessFileContent,
             credentialsJSONFileKey \<mapsto> processCredsData))))"

definition oneHour :: int64 where
  "oneHour = 3600 * 1000000000"

definition Secrets_getCreds :: "'w env \<Rightarrow> string \<Rightarrow> ('w, string_map outcome) ctl" where
  "Secrets_getCreds e role = do {
     r \<leftarrow> get_creds e role oneHour;
     ret (obind r secret_data)
   }"

section \<open>The loops of a refresh\<close>

definition role_of :: "secret \<Rightarrow> string" where
  "role_of s = trim_prefix (secret_name s) secretPrefix"

type_synonym creds_cache = "string \<rightharpoonup> string_map"

definition refresh_unowned :: "'w env \<Rightarrow> secrets_controller \<Rightarrow> secret \<Rightarrow> creds_cache \<times> role_store
    \<Rightarrow> ('w, (creds_cache \<times> role_store) outcome) ctl" where
  "refresh_unowned e c s st =
     (if 0 < length (OwnerReferences (SecretMeta s)) then ret (Ok st)
      else
        let role = role_of s;
            credsCache = fst st;
            tmpSecretStore = Add role (secret_ns s) [] (snd st)
        in if \<not> Exists (roleStore c) role (secret_ns s)
           then do {
             _ \<leftarrow> delete_secret e (secret_ns s) (secret_name s);
             ret (Ok (credsCache, tmpSecretStore))
           }
           else do {
             refreshCreds \<leftarrow> refresh_due e (secRefreshLimit c) (Data s);
             if refreshCreds then do {
               res \<leftarrow> Secrets_getCreds e role;
               case res of
                 Panic m \<Rightarrow> ret (Panic m)
               | Err err \<Rightarrow> ret (Ok (credsCache, tmpSecretStore))
               | Ok data \<Rightarrow> do {
                   upd \<leftarrow> update_secret e (secret_ns s) (s\<lparr>Data := Some data\<rparr>);
                   case upd of
                     Inl err \<Rightarrow> ret (Ok (credsCache, tmpSecretStore))
                   | Inr _ \<Rightarrow> ret (Ok (credsCache(role \<mapsto> data), tmpSecretStore))
                 }
             }
             else ret (Ok (case Data s of
                             None \<Rightarrow> credsCache
                           | Some data \<Rightarrow> credsCache(role \<mapsto> data), tmpSecretStore))
           })"

definition role_secret :: "string \<Rightarrow> string \<Rightarrow> string_map \<Rightarrow> secret" where
  "role_secret role ns creds =
     \<lparr>SecretMeta = \<lparr>Name = secretPrefix @ role, Namespace = ns, UID = [], ResourceVersion = [],
        Generation = 0, Labels = ownerLabels, OwnerReferences = []\<rparr>,
      Data = Some creds\<rparr>"

definition create_missing :: "'w env \<Rightarrow> role_store \<Rightarrow> string \<Rightarrow> string_map \<Rightarrow> string \<times> pods \<Rightarrow> unit
    \<Rightarrow> ('w, unit outcome) ctl" where
  "create_missing e tmpSecretStore role creds entry u =
     (if \<not> Exists tmpSecretStore role (fst entry)
      then do {
        _ \<leftarrow> create_secret e (fst entry) (role_secret role (fst entry) creds);
        ret (Ok ())
      }
      else ret (Ok ()))"

definition provision_used :: "'w env \<Rightarrow> creds_cache \<Rightarrow> role_store \<Rightarrow> string \<times> namespaces \<Rightarrow> unit
    \<Rightarrow> ('w, unit outcome) ctl" where
  "provision_used e credsCache tmpSecretStore entry u =
     (case credsCache (fst entry) of
        Some creds \<Rightarrow> for_range (create_missing e tmpSecretStore (fst entry) creds) (snd entry) ()
      | None \<Rightarrow> do {
          res \<leftarrow> Secrets_getCreds e (fst entry);
          case res of
            Panic m \<Rightarrow> ret (Panic m)
          | Err err \<Rightarrow> ret (Ok ())
          | Ok creds \<Rightarrow> for_range (create_missing e tmpSecretStore (fst entry) creds) (snd entry) ()
        })"

definition Secrets_refresh_listed :: "'w env \<Rightarrow> secrets_controller \<Rightarrow> secret list \<Rightarrow> ('w, unit outcome) ctl"
where
  "Secrets_refresh_listed e c secrets =
     and_then (for_range (refresh_unowned e c) secrets (Map.empty, NewRoleStore)) (\<lambda>st.
     for_range (provision_used e (fst st) (snd st)) (Store (roleStore c)) ())"

definition Secrets_refresh :: "'w env \<Rightarrow> secrets_controller \<Rightarrow> ('w, unit outcome) ctl" where
  "Secrets_refresh e c = do {
     secrets \<leftarrow> list_secrets e (secNamespace c) ownerLabels;
     case secrets of
       Inl err \<Rightarrow> ret (Err err)
     | Inr secrets \<Rightarrow> Secrets_refresh_listed e c secrets
   }"

section \<open>The traces of a refresh\<close>

abbreviation unowned :: "secret \<Rightarrow> bool" where
  "unowned s \<equiv> OwnerReferences (SecretMeta s) = []"

abbreviation used :: "secrets_controller \<Rightarrow> secret \<Rightarrow> bool" where
  "used c s \<equiv> Exists (roleStore c) (role_of s) (secret_ns s)"

abbreviation asks_role :: "string \<Rightarrow> credentials outcome \<Rightarrow> call" where
  "asks_role role g \<equiv> CGetCreds role oneHour g"

abbreviation seen :: "secret \<Rightarrow> creds_cache \<times> role_store \<Rightarrow> role_store" where
  "seen s st \<equiv> Add (role_of s) (secret_ns s) [] (snd st)"

inductive unowned_trace :: "secrets_controller \<Rightarrow> secret \<Rightarrow> creds_cache \<times> role_store
    \<Rightarrow> (creds_cache \<times> role_store) outcome \<Rightarrow> call list \<Rightarrow> bool"
  for c s st where
  owned: "\<not> unowned s \<Longrightarrow> unowned_trace c s st (Ok st) []"
| unused: "unowned s \<Longrightarrow> \<not> used c s
    \<Longrightarrow> unowned_trace c s st (Ok (fst st, seen s st)) [CDeleteSecret (secret_ns s) (secret_name s) res]"
| fresh: "unowned s \<Longrightarrow> used c s \<Longrightarrow> due_trace (secRefreshLimit c) (Data s) False cs
    \<Longrightarrow> unowned_trace c s st
      (Ok (case Data s of None \<Rightarrow> fst st | Some data \<Rightarrow> (fst st)(role_of s \<mapsto> data), seen s st)) cs"
| refused: "unowned s \<Longrightarrow> used c s \<Longrightarrow> due_trace (secRefreshLimit c) (Data s) True cs
    \<Longrightarrow> \<exists>err. obind g secret_data = Err err
    \<Longrightarrow> unowned_trace c s st (Ok (fst st, seen s st)) (cs @ [asks_role (role_of s) g])"
| crashed: "unowned s \<Longrightarrow> used c s \<Longrightarrow> due_trace (secRefreshLimit c) (Data s) True cs
    \<Longrightarrow> obind g secret_data = Panic m
    \<Longrightarrow> unowned_trace c s st (Panic m) (cs @ [asks_role (role_of s) g])"
| unwritten: "unowned s \<Longrightarrow> used c s \<Longrightarrow> due_trace (secRefreshLimit c) (Data s) True cs
    \<Longrightarrow> obind g secret_data = Ok data
    \<Longrightarrow> unowned_trace c s st (Ok (fst st, seen s st))
      (cs @ [asks_role (role_of s) g, CUpdateSecret (secret_ns s) (s\<lparr>Data := Some data\<rparr>) (Inl err)])"
| written: "unowned s \<Longrightarrow> used c s \<Longrightarrow> due_trace (secRefreshLimit c) (Data s) True cs
    \<Longrightarrow> obind g secret_data = Ok data
    \<Longrightarrow> unowned_trace c s st (Ok ((fst st)(role_of s \<mapsto> data), seen s st))
      (cs @ [asks_role (role_of s) g, CUpdateSecret (secret_ns s) (s\<lparr>Data := Some data\<rparr>) (Inr s')])"

lemma emits_refresh_unowned: "emits (unowned_trace c s st) (refresh_unowned e c s st)"
proof (cases "unowned s \<and> used c s")
  case True
  then have u: "unowned s" "used c s" by simp_all
  note due = unowned_trace.refused [OF u] unowned_trace.crashed [OF u]
    unowned_trace.unwritten [OF u] unowned_trace.written [OF u]
  show ?thesis
    unfolding refresh_unowned_def Let_def
    apply (simp only: u list.size(3) less_irrefl if_False not_True_eq_False)
    apply (rule emits_bind [OF emits_refresh_due])
    subgoal for b cs
      by (cases b) (auto simp: Secrets_getCreds_def call_defs intro!: emits_run due
        split: outcome.split sum.split intro: unowned_trace.fresh [OF u])
    done
next
  case False
  then show ?thesis
    by (auto simp: refresh_unowned_def delete_secret_def Let_def intro!: emits_run
      unowned_trace.owned unowned_trace.unused)
qed

definition create_trace :: "role_store \<Rightarrow> string \<Rightarrow> string_map \<Rightarrow> string \<times> pods \<Rightarrow> unit
    \<Rightarrow> unit outcome \<Rightarrow> call list \<Rightarrow> bool" where
  "create_trace tmp role creds entry u r cs \<longleftrightarrow> r = Ok () \<and>
     (if Exists tmp role (fst entry) then cs = []
      else \<exists>res. cs = [CCreateSecret (fst entry) (role_secret role (fst entry) creds) res])"

lemma emits_create_missing:
  "emits (create_trace tmp role creds entry u) (create_missing e tmp role creds entry u)"
  unfolding create_missing_def create_secret_def
  by (auto simp: create_trace_def intro!: emits_run)

inductive used_trace :: "creds_cache \<Rightarrow> role_store \<Rightarrow> string \<times> namespaces \<Rightarrow> unit outcome \<Rightarrow> call list \<Rightarrow> bool"
  for cache tmp entry where
  cached: "cache (fst entry) = Some creds \<Longrightarrow> loop_trace (create_trace tmp (fst entry) creds) (snd entry) () r cs
    \<Longrightarrow> used_trace cache tmp entry r cs"
| asked: "cache (fst entry) = None \<Longrightarrow> obind g secret_data = Ok creds
    \<Longrightarrow> loop_trace (create_trace tmp (fst entry) creds) (snd entry) () r cs
    \<Longrightarrow> used_trace cache tmp entry r (asks_role (fst entry) g # cs)"
| refused: "cache (fst entry) = None \<Longrightarrow> \<exists>err. obind g secret_data = Err err
    \<Longrightarrow> used_trace cache tmp entry (Ok ()) [asks_role (fst entry) g]"
| crashed: "cache (fst entry) = None \<Longrightarrow> obind g secret_data = Panic m
    \<Longrightarrow> used_trace cache tmp entry (Panic m) [asks_role (fst entry) g]"

lemma emits_provision_used: "emits (used_trace cache tmp entry) (provision_used e cache tmp entry u)"
proof (cases "cache (fst entry)")
  case (Some creds)
  then show ?thesis
    by (auto simp: provision_used_def intro!: used_trace.cached
      emits_mono [OF emits_for_range [OF emits_create_missing]])
next
  case None
  have loop: "emits (\<lambda>r cs. used_trace cache tmp entry r (asks_role (fst entry) g # cs))
      (for_range (create_missing e tmp (fst entry) creds) (snd entry) ())"
    if "obind g secret_data = Ok creds" for g creds
    using that None
    by (auto intro!: used_trace.asked emits_mono [OF emits_for_range [OF emits_create_missing]])
  from loop None used_trace.refused [where cache = cache and entry = entry, OF None]
    used_trace.crashed [where cache = cache and entry = entry, OF None] show ?thesis
    by (auto simp: provision_used_def Secrets_getCreds_def call_defs intro!: emits_run
      split: outcome.split)
qed

definition Secrets_listed_trace :: "secrets_controller \<Rightarrow> secret list \<Rightarrow> unit outcome \<Rightarrow> call list \<Rightarrow> bool" where
  "Secrets_listed_trace c secrets =
     seq_trace (loop_trace (unowned_trace c) secrets (Map.empty, NewRoleStore))
       (\<lambda>st. loop_trace (\<lambda>entry _. used_trace (fst st) (snd st) entry) (Store (roleStore c)) ())"

inductive after_secrets :: "secrets_controller \<Rightarrow> (secret list \<Rightarrow> unit outcome \<Rightarrow> call list \<Rightarrow> bool)
    \<Rightarrow> unit outcome \<Rightarrow> call list \<Rightarrow> bool" for c P where
  no_secrets: "after_secrets c P (Err err) [CListSecrets (secNamespace c) ownerLabels (Inl err)]"
| listed: "P secrets r cs
    \<Longrightarrow> after_secrets c P r (CListSecrets (secNamespace c) ownerLabels (Inr secrets) # cs)"

lemma emits_Secrets_refresh:
  assumes "\<And>secrets r cs. Secrets_listed_trace c secrets r cs \<Longrightarrow> P secrets r cs"
  shows "emits (after_secrets c P) (Secrets_refresh e c)"
proof -
  have "emits (Secrets_listed_trace c secrets) (Secrets_refresh_listed e c secrets)" for secrets
    unfolding Secrets_listed_trace_def Secrets_refresh_listed_def
    by (intro emits_and_then emits_for_range emits_refresh_unowned emits_provision_used)
  then have "emits (\<lambda>r cs. after_secrets c P r
      (CListSecrets (secNamespace c) ownerLabels (Inr secrets) # cs)) (Secrets_refresh_listed e c secrets)"
    for secrets
    by (rule emits_mono) (simp add: after_secrets.listed assms)
  then show ?thesis
    unfolding Secrets_refresh_def list_secrets_def
    by (auto intro!: emits_run after_secrets.no_secrets split: sum.split)
qed

end
