(* ===== verification/ClientConfig.thy ===== *)
theory ClientConfig
  imports Prelude Complex_Main
begin

text \<open>
  From the command line to the clients of the API server: \<open>ConfigureKubeConfig\<close> and the unified clientset
  of \<^verbatim>\<open>pkg/clientset/unified.go\<close>, and the generated constructors that it calls,
  \<^verbatim>\<open>pkg/client/clientset/versioned/clientset.go\<close> and \<^verbatim>\<open>typed/zalando.org/v1/zalando.org_client.go\<close>.
  client-go is a parameter (\<open>client_lib\<close>): its constructors are calls to the world outside, logged with
  the configuration they get.  Everything it makes (HTTP clients, rate limiters, REST clients, TLS
  settings, serializers) is of one type \<open>'o\<close>; pointers to configurations are passed as values, as
  every function copies the one it is given before it writes to it.
\<close>

section \<open>Configurations\<close>

text \<open>Durations are in seconds here.\<close>

record 'o transport =
  DialTimeout :: int
  KeepAlive :: int
  DualStack :: bool
  TLSHandshakeTimeout :: int
  ResponseHeaderTimeout :: int
  MaxIdleConns :: int
  MaxIdleConnsPerHost :: int
  IdleConnTimeout :: int
  TransportTLS :: "'o option"

record group_version =
  gvGroup :: string
  gvVersion :: string

record 'o rest_config =
  Host :: string
  Timeout :: int
  Transport :: "'o transport option"
  QPS :: real
  Burst :: int
  TLSClientConfig :: "'o option"
  UserAgent :: string
  RateLimiter :: "'o option"
  GroupVersion :: "group_version option"
  APIPath :: string
  NegotiatedSerializer :: "'o option"

record 'o in_cluster =
  InClusterConfig :: "error + 'o rest_config"
  TLSConfigFor :: "'o rest_config \<Rightarrow> error + 'o option"

definition base_transport :: "int \<Rightarrow> 'o transport" where
  "base_transport timeout =
     \<lparr>DialTimeout = timeout, KeepAlive = 30, DualStack = False, TLSHandshakeTimeout = timeout,
      ResponseHeaderTimeout = 10, MaxIdleConns = 10, MaxIdleConnsPerHost = 2, IdleConnTimeout = 20,
      TransportTLS = None\<rparr>"

definition ConfigureKubeConfig :: "'o in_cluster \<Rightarrow> string option \<Rightarrow> int \<Rightarrow> error + 'o rest_config" where
  "ConfigureKubeConfig cl apiServerURL timeout =
     (case apiServerURL of
        Some url \<Rightarrow>
          Inr \<lparr>Host = url, Timeout = timeout, Transport = Some (base_transport timeout), QPS = 100,
               Burst = 500, TLSClientConfig = None, UserAgent = [], RateLimiter = None,
               GroupVersion = None, APIPath = [], NegotiatedSerializer = None\<rparr>
      | None \<Rightarrow>
          (case InClusterConfig cl of
             Inl err \<Rightarrow> Inl err
           | Inr config \<Rightarrow>
               (case TLSConfigFor cl config of
                  Inl err \<Rightarrow> Inl err
                | Inr tls \<Rightarrow>
                    Inr (config\<lparr>Timeout := timeout,
                      Transport := Some ((base_transport timeout)\<lparr>TransportTLS := tls\<rparr>),
                      QPS := 100, Burst := 500, TLSClientConfig := None\<rparr>))))"

text \<open>
  The goroutine that \<open>ConfigureKubeConfig\<close> leaves behind: every 20 seconds it closes the idle connections,
  until the channel it was given is closed.  \<open>Timing t\<close> waits for a timer that fires at \<open>t\<close>; a step has
  the number of times it closes the connections.
\<close>

datatype closer = Timing int | Returned

inductive closer_step :: "int \<Rightarrow> bool \<Rightarrow> closer \<Rightarrow> nat \<Rightarrow> closer \<Rightarrow> bool" for now stopped where
  close_idle: "t \<le> now \<Longrightarrow> closer_step now stopped (Timing t) 1 (Timing (now + 20))"
| stop: "stopped \<Longrightarrow> closer_step now stopped (Timing t) 0 Returned"

text \<open>Its runs from the time 0 on: the state, the time, the number of closings and whether it is to stop.\<close>

inductive closer_run :: "closer \<Rightarrow> int \<Rightarrow> nat \<Rightarrow> bool \<Rightarrow> bool" where
  begins: "closer_run (Timing 20) 0 0 False"
| elapses: "closer_run c now n stopped \<Longrightarrow> 0 \<le> d \<Longrightarrow> closer_run c (now + d) n stopped"
| told: "closer_run c now n stopped \<Longrightarrow> closer_run c now n True"
| steps: "closer_run c now n stopped \<Longrightarrow> closer_step now stopped c k c' \<Longrightarrow> closer_run c' now (n + k) stopped"

text \<open>It closes them at most once in 20 seconds, and ends only when it is told to.\<close>

lemma closer_bounded:
  assumes "closer_run c now n stopped"
  shows "20 * int n \<le> now" and "c = Returned \<Longrightarrow> stopped"
proof -
  have "20 * int n \<le> now \<and> (c = Returned \<longrightarrow> stopped) \<and> (\<forall>t. c = Timing t \<longrightarrow> 20 * (int n + 1) \<le> t)"
    using assms by induction (auto elim!: closer_step.cases)
  then show "20 * int n \<le> now" "c = Returned \<Longrightarrow> stopped" by blast+
qed

section \<open>The library\<close>

datatype 'o client_call =
  CKubernetes "'o rest_config" "'o outcome"
| CHTTPClientFor "'o rest_config" "'o outcome"
| CTokenBucket real int 'o
| CRESTClient "'o rest_config" 'o "'o outcome"
| CDiscovery "'o rest_config" 'o "'o outcome"

record ('o, 'w) client_lib =
  KubernetesNewForConfig :: "'o rest_config \<Rightarrow> 'w \<Rightarrow> 'o outcome \<times> 'w"
  HTTPClientFor :: "'o rest_config \<Rightarrow> 'w \<Rightarrow> 'o outcome \<times> 'w"
  NewTokenBucketRateLimiter :: "real \<Rightarrow> int \<Rightarrow> 'w \<Rightarrow> 'o \<times> 'w"
  RESTClientForConfigAndClient :: "'o rest_config \<Rightarrow> 'o \<Rightarrow> 'w \<Rightarrow> 'o outcome \<times> 'w"
  NewDiscoveryClientForConfigAndClient :: "'o rest_config \<Rightarrow> 'o \<Rightarrow> 'w \<Rightarrow> 'o outcome \<times> 'w"
  NewDiscoveryClient :: "'o \<Rightarrow> 'o"
  DefaultKubernetesUserAgent :: string
  GeneratedClientSerializer :: 'o

type_synonym ('w, 'o, 'a) client_prog = "('w, 'o client_call, 'a) prog"

definition kubernetes_client :: "('o, 'w) client_lib \<Rightarrow> 'o rest_config \<Rightarrow> ('w, 'o, 'o outcome) client_prog" where
  "kubernetes_client lib c = perform (KubernetesNewForConfig lib c) (CKubernetes c)"

definition http_client :: "('o, 'w) client_lib \<Rightarrow> 'o rest_config \<Rightarrow> ('w, 'o, 'o outcome) client_prog" where
  "http_client lib c = perform (HTTPClientFor lib c) (CHTTPClientFor c)"

definition token_bucket :: "('o, 'w) client_lib \<Rightarrow> real \<Rightarrow> int \<Rightarrow> ('w, 'o, 'o) client_prog" where
  "token_bucket lib q b = perform (NewTokenBucketRateLimiter lib q b) (CTokenBucket q b)"

definition rest_client :: "('o, 'w) client_lib \<Rightarrow> 'o rest_config \<Rightarrow> 'o \<Rightarrow> ('w, 'o, 'o outcome) client_prog" where
  "rest_client lib c h = perform (RESTClientForConfigAndClient lib c h) (CRESTClient c h)"

definition discovery_client :: "('o, 'w) client_lib \<Rightarrow> 'o rest_config \<Rightarrow> 'o \<Rightarrow> ('w, 'o, 'o outcome) client_prog"
where
  "discovery_client lib c h = perform (NewDiscoveryClientForConfigAndClient lib c h) (CDiscovery c h)"

lemmas client_call_defs = kubernetes_client_def http_client_def token_bucket_def rest_client_def
  discovery_client_def

section \<open>The client of the group zalando.org/v1\<close>

definition SchemeGroupVersion :: group_version where
  "SchemeGroupVersion = \<lparr>gvGroup = ''zalando.org'', gvVersion = ''v1''\<rparr>"

record 'o zalando_client =
  restClient :: 'o

definition setConfigDefaults :: "('o, 'w) client_lib \<Rightarrow> 'o rest_config \<Rightarrow> 'o rest_config" where
  "setConfigDefaults lib config =
     (let config = config\<lparr>GroupVersion := Some SchemeGroupVersion, APIPath := ''/apis'',
            NegotiatedSerializer := Some (GeneratedClientSerializer lib)\<rparr>
      in if UserAgent config = [] then config\<lparr>UserAgent := DefaultKubernetesUserAgent lib\<rparr> else config)"

definition zalandov1_NewForConfigAndClient :: "('o, 'w) client_lib \<Rightarrow> 'o rest_config \<Rightarrow> 'o
    \<Rightarrow> ('w, 'o, 'o zalando_client outcome) client_prog" where
  "zalandov1_NewForConfigAndClient lib c h =
     and_then (rest_client lib (setConfigDefaults lib c) h) (\<lambda>client. ret (Ok \<lparr>restClient = client\<rparr>))"

definition zalandov1_NewForConfig :: "('o, 'w) client_lib \<Rightarrow> 'o rest_config
    \<Rightarrow> ('w, 'o, 'o zalando_client outcome) client_prog" where
  "zalandov1_NewForConfig lib c =
     (let config = setConfigDefaults lib c
      in and_then (http_client lib config) (\<lambda>h. zalandov1_NewForConfigAndClient lib config h))"

text \<open>\<open>NewForConfigOrDie\<close> of both packages: an error becomes a panic.\<close>

definition or_die :: "('s, 'a outcome) state \<Rightarrow> ('s, 'a outcome) state" where
  "or_die m = do {
     r \<leftarrow> m;
     ret (case r of Ok a \<Rightarrow> Ok a | Err err \<Rightarrow> Panic err | Panic p \<Rightarrow> Panic p)
   }"

definition zalandov1_NewForConfigOrDie :: "('o, 'w) client_lib \<Rightarrow> 'o rest_config
    \<Rightarrow> ('w, 'o, 'o zalando_client outcome) client_prog" where
  "zalandov1_NewForConfigOrDie lib c = or_die (zalandov1_NewForConfig lib c)"

definition zalandov1_New :: "'o \<Rightarrow> 'o zalando_client" where
  "zalandov1_New c = \<lparr>restClient = c\<rparr>"

text \<open>A nil client has no REST client.\<close>

definition RESTClient :: "'o zalando_client option \<Rightarrow> 'o option" where
  "RESTClient c = (case c of None \<Rightarrow> None | Some c \<Rightarrow> Some (restClient c))"

text \<open>The client of the roles of a namespace: the resource, the REST client and the namespace it is made of.\<close>

record 'o roles_client =
  rolesResource :: string
  rolesREST :: "'o option"
  rolesNamespace :: string

definition newAWSIAMRoles :: "'o zalando_client option \<Rightarrow> string \<Rightarrow> 'o roles_client" where
  "newAWSIAMRoles c ns = \<lparr>rolesResource = ''awsiamroles'', rolesREST = RESTClient c, rolesNamespace = ns\<rparr>"

definition zalandov1_AWSIAMRoles :: "'o zalando_client option \<Rightarrow> string \<Rightarrow> 'o roles_client" where
  "zalandov1_AWSIAMRoles c namespace = newAWSIAMRoles c namespace"

section \<open>The clientsets\<close>

record 'o clientset =
  DiscoveryClient :: 'o
  zalandoV1 :: "'o zalando_client"

definition burst_error :: error where
  "burst_error =
     ''burst is required to be greater than 0 when RateLimiter is not set and QPS is set to greater than 0''"

definition limited_config :: "('o, 'w) client_lib \<Rightarrow> 'o rest_config \<Rightarrow> ('w, 'o, 'o rest_config outcome) client_prog"
where
  "limited_config lib c =
     (if RateLimiter c = None \<and> 0 < QPS c
      then if Burst c \<le> 0 then ret (Err burst_error)
           else do {
             limiter \<leftarrow> token_bucket lib (QPS c) (Burst c);
             ret (Ok (c\<lparr>RateLimiter := Some limiter\<rparr>))
           }
      else ret (Ok c))"

definition NewForConfigAndClient :: "('o, 'w) client_lib \<Rightarrow> 'o rest_config \<Rightarrow> 'o
    \<Rightarrow> ('w, 'o, 'o clientset outcome) client_prog" where
  "NewForConfigAndClient lib c httpClient =
     and_then (limited_config lib c) (\<lambda>configShallowCopy.
     and_then (zalandov1_NewForConfigAndClient lib configShallowCopy httpClient) (\<lambda>zalando.
     and_then (discovery_client lib configShallowCopy httpClient) (\<lambda>discovery.
     ret (Ok \<lparr>DiscoveryClient = discovery, zalandoV1 = zalando\<rparr>))))"

definition with_user_agent :: "('o, 'w) client_lib \<Rightarrow> 'o rest_config \<Rightarrow> 'o rest_config" where
  "with_user_agent lib c =
     (if UserAgent c = [] then c\<lparr>UserAgent := DefaultKubernetesUserAgent lib\<rparr> else c)"

definition NewForConfig :: "('o, 'w) client_lib \<Rightarrow> 'o rest_config \<Rightarrow> ('w, 'o, 'o clientset outcome) client_prog"
where
  "NewForConfig lib c =
     (let configShallowCopy = with_user_agent lib c
      in and_then (http_client lib configShallowCopy) (\<lambda>httpClient.
           NewForConfigAndClient lib configShallowCopy httpClient))"

definition NewForConfigOrDie :: "('o, 'w) client_lib \<Rightarrow> 'o rest_config
    \<Rightarrow> ('w, 'o, 'o clientset outcome) client_prog" where
  "NewForConfigOrDie lib c = or_die (NewForConfig lib c)"

text \<open>\<open>New\<close>, from a REST client.\<close>

definition clientset_New :: "('o, 'w) client_lib \<Rightarrow> 'o \<Rightarrow> 'o clientset" where
  "clientset_New lib c = \<lparr>DiscoveryClient = NewDiscoveryClient lib c, zalandoV1 = zalandov1_New c\<rparr>"

definition Discovery :: "'o clientset option \<Rightarrow> 'o option" where
  "Discovery c = (case c of None \<Rightarrow> None | Some c \<Rightarrow> Some (DiscoveryClient c))"

definition clientset_ZalandoV1 :: "'o clientset \<Rightarrow> 'o zalando_client" where
  "clientset_ZalandoV1 c = zalandoV1 c"

text \<open>The clientset of the program: the one of Kubernetes and the generated one.\<close>

record 'o unified_clientset =
  kubernetes :: 'o
  awsiamroles :: "'o clientset"

definition NewClientset :: "'o \<Rightarrow> 'o clientset \<Rightarrow> 'o unified_clientset" where
  "NewClientset k a = \<lparr>kubernetes = k, awsiamroles = a\<rparr>"

definition Unified_NewForConfig :: "('o, 'w) client_lib \<Rightarrow> 'o rest_config
    \<Rightarrow> ('w, 'o, 'o unified_clientset outcome) client_prog" where
  "Unified_NewForConfig lib kubeconfig =
     and_then (kubernetes_client lib kubeconfig) (\<lambda>kubeClient.
     and_then (NewForConfig lib kubeconfig) (\<lambda>awsIAMRoleClient.
     ret (Ok \<lparr>kubernetes = kubeClient, awsiamroles = awsIAMRoleClient\<rparr>)))"

definition ZalandoV1 :: "'o unified_clientset \<Rightarrow> 'o zalando_client" where
  "ZalandoV1 c = clientset_ZalandoV1 (awsiamroles c)"

section \<open>What the constructors do\<close>

text \<open>How a configuration connects: the fields that no constructor changes.\<close>

definition same_connection :: "'o rest_config \<Rightarrow> 'o rest_config \<Rightarrow> bool" where
  "same_connection c d \<longleftrightarrow> Host d = Host c \<and> Timeout d = Timeout c \<and> Transport d = Transport c
     \<and> QPS d = QPS c \<and> Burst d = Burst c \<and> TLSClientConfig d = TLSClientConfig c"

text \<open>
  A call of the constructors for the configuration \<open>c\<close>, when \<open>h\<close> is the HTTP client and \<open>rl\<close> the rate
  limiter they share.
\<close>

primrec connects :: "'o rest_config \<Rightarrow> 'o \<Rightarrow> 'o option \<Rightarrow> 'o client_call \<Rightarrow> bool" where
  "connects c h rl (CKubernetes d r) = (d = c)"
| "connects c h rl (CHTTPClientFor d r) = (same_connection c d \<and> (\<forall>h'. r = Ok h' \<longrightarrow> h' = h))"
| "connects c h rl (CTokenBucket q b l) = (q = QPS c \<and> b = Burst c \<and> 0 < b \<and> rl = Some l)"
| "connects c h rl (CRESTClient d h' r) =
     (same_connection c d \<and> h' = h \<and> RateLimiter d = rl
       \<and> GroupVersion d = Some SchemeGroupVersion \<and> APIPath d = ''/apis'')"
| "connects c h rl (CDiscovery d h' r) = (same_connection c d \<and> h' = h \<and> RateLimiter d = rl)"

definition one_connection :: "'o rest_config \<Rightarrow> 'o client_call list \<Rightarrow> bool" where
  "one_connection c cs \<longleftrightarrow>
     (\<exists>h rl. list_all (connects c h rl) cs \<and> (0 < QPS c \<longrightarrow> rl \<noteq> None))"

text \<open>A call that fails, and with what.\<close>

primrec call_result :: "'o client_call \<Rightarrow> 'o outcome" where
  "call_result (CKubernetes d r) = r"
| "call_result (CHTTPClientFor d r) = r"
| "call_result (CTokenBucket q b l) = Ok l"
| "call_result (CRESTClient d h r) = r"
| "call_result (CDiscovery d h r) = r"

definition fails_at_last :: "'a outcome \<Rightarrow> 'o client_call list \<Rightarrow> bool" where
  "fails_at_last r cs \<longleftrightarrow> cs \<noteq> [] \<and>
     (case r of Ok a \<Rightarrow> \<exists>b. call_result (last cs) = Ok b
      | Err err \<Rightarrow> call_result (last cs) = Err err
      | Panic m \<Rightarrow> call_result (last cs) = Panic m)
     \<and> list_all (\<lambda>call. \<exists>b. call_result call = Ok b) (butlast cs)"

lemma same_connection_sel:
  "same_connection c (with_user_agent lib c)"
  "same_connection c d \<Longrightarrow> same_connection c (d\<lparr>RateLimiter := l\<rparr>)"
  "same_connection c d \<Longrightarrow> same_connection c (setConfigDefaults lib d)"
  by (simp_all add: same_connection_def with_user_agent_def setConfigDefaults_def Let_def)

lemma setConfigDefaults_sel:
  "RateLimiter (setConfigDefaults lib d) = RateLimiter d"
  "GroupVersion (setConfigDefaults lib d) = Some SchemeGroupVersion"
  "APIPath (setConfigDefaults lib d) = ''/apis''"
  by (simp_all add: setConfigDefaults_def Let_def)

lemma with_user_agent_sel [simp]:
  "RateLimiter (with_user_agent lib c) = RateLimiter c" "QPS (with_user_agent lib c) = QPS c"
  "Burst (with_user_agent lib c) = Burst c"
  by (simp_all add: with_user_agent_def)

text \<open>Sequences of library calls, one at a time.\<close>

lemma and_then_perform:
  "and_then (perform f lg) k = perform f lg \<bind> (\<lambda>r. case r of
     Ok a \<Rightarrow> k a | Err e \<Rightarrow> ret (Err e) | Panic p \<Rightarrow> ret (Panic p))"
  by (simp add: and_then_def)

lemma and_then_assoc: "and_then (and_then m f) g = and_then m (\<lambda>a. and_then (f a) g)"
proof -
  have "(case r of Ok a \<Rightarrow> f a | Err e \<Rightarrow> ret (Err e) | Panic p \<Rightarrow> ret (Panic p)) \<bind>
      (\<lambda>r. case r of Ok a \<Rightarrow> g a | Err e \<Rightarrow> ret (Err e) | Panic p \<Rightarrow> ret (Panic p)) =
    (case r of Ok a \<Rightarrow> f a \<bind> (\<lambda>r. case r of Ok a \<Rightarrow> g a | Err e \<Rightarrow> ret (Err e) | Panic p \<Rightarrow> ret (Panic p))
     | Err e \<Rightarrow> ret (Err e) | Panic p \<Rightarrow> ret (Panic p))" for r
    by (cases r) simp_all
  then show ?thesis by (simp add: and_then_def)
qed

lemma and_then_return: "and_then (ret (Ok a)) f = f a" "and_then (ret (Err e)) f = ret (Err e)"
  by (simp_all add: and_then_def)

lemma emits_and_then_call:
  assumes "\<And>a. emits (\<lambda>b ds. Q b (lg (Ok a) # ds)) (k a)"
    and "\<And>e. Q (Err e) [lg (Err e)]" and "\<And>m. Q (Panic m) [lg (Panic m)]"
  shows "emits Q (and_then (perform f lg) k)"
  unfolding and_then_perform
  by (rule emits_call) (auto intro: assms emits_return split: outcome.split)

lemmas same_connection_intros = same_connection_sel(1) same_connection_sel(2,3) [OF same_connection_sel(1)]
  same_connection_sel(3) [OF same_connection_sel(2) [OF same_connection_sel(1)]]

text \<open>The outcome of the constructors: of their library calls, or the complaint about the burst.\<close>

definition clients_made :: "'o rest_config \<Rightarrow> 'a outcome \<Rightarrow> 'o client_call list \<Rightarrow> bool" where
  "clients_made c r cs \<longleftrightarrow> one_connection c cs
     \<and> (fails_at_last r cs
       \<or> r = Err burst_error \<and> RateLimiter c = None \<and> 0 < QPS c \<and> Burst c \<le> 0
         \<and> list_all (\<lambda>call. \<exists>b. call_result call = Ok b) cs)"

lemma and_then_bind_Ok: "and_then (m \<bind> (\<lambda>a. ret (Ok (f a)))) g = m \<bind> (\<lambda>a. g (f a))"
  by (simp add: and_then_def)

lemma emits_NewForConfig:
  "emits (clients_made c) (Unified_NewForConfig lib c)"
proof -
  note defs = Unified_NewForConfig_def NewForConfig_def NewForConfigAndClient_def limited_config_def
    zalandov1_NewForConfigAndClient_def client_call_defs Let_def and_then_assoc and_then_return and_then_bind_Ok
  note made = clients_made_def fails_at_last_def one_connection_def same_connection_intros setConfigDefaults_sel
  consider "RateLimiter c = None" "0 < QPS c" | l where "RateLimiter c = Some l" | "RateLimiter c = None" "\<not> 0 < QPS c"
    by fastforce
  then show ?thesis
  proof cases
    case 1
    then show ?thesis
      by (simp add: defs, intro conjI impI emits_and_then_call emits_call emits_return)
        (simp_all add: made split_option_ex)
  next
    case 2
    then show ?thesis
      by (simp add: defs, intro conjI impI emits_and_then_call emits_call emits_return)
        (simp_all add: made split_option_ex)
  next
    case 3
    then show ?thesis
      by (simp add: defs, intro conjI impI emits_and_then_call emits_call emits_return)
        (simp_all add: made split_option_ex)
  qed
qed

text \<open>What \<open>ConfigureKubeConfig\<close> sets, with and without a URL.\<close>

lemma ConfigureKubeConfig_sets:
  assumes "ConfigureKubeConfig cl url timeout = Inr c"
  shows "QPS c = 100" "Burst c = 500" "TLSClientConfig c = None" "Timeout c = timeout"
    "\<exists>tls. Transport c = Some ((base_transport timeout)\<lparr>TransportTLS := tls\<rparr>)"
  using assms by (auto simp: ConfigureKubeConfig_def base_transport_def split: option.splits sum.splits)

text \<open>
  C33: The clients of the program.  The configuration that \<open>ConfigureKubeConfig\<close> returns passes the checks
  of the constructors, so these fail only where a call of the library fails, at once and with its
  error.  They change nothing of how it connects: every client gets the program's own transport and no
  TLS settings beside it, which the library would refuse; the generated clients share one HTTP client
  and one rate limiter, of 100 requests a second and bursts of 500 unless the configuration brings one,
  and the one for roles speaks to \<open>/apis\<close> of \<open>zalando.org/v1\<close>.
\<close>

theorem program_clients:
  assumes "ConfigureKubeConfig cl url timeout = Inr c"
  shows "emits (\<lambda>r cs. one_connection c cs \<and> fails_at_last r cs) (Unified_NewForConfig lib c)
    \<and> TLSClientConfig c = None \<and> QPS c = 100 \<and> Burst c = 500
    \<and> (\<exists>tls. Transport c = Some ((base_transport timeout)\<lparr>TransportTLS := tls\<rparr>))"
proof -
  note sets = ConfigureKubeConfig_sets [OF assms]
  have "emits (\<lambda>r cs. one_connection c cs \<and> fails_at_last r cs) (Unified_NewForConfig lib c)"
    by (rule emits_mono [OF emits_NewForConfig]) (simp add: clients_made_def sets)
  with sets show ?thesis by simp
qed

text \<open>A library whose constructors succeed, and a URL on the command line.\<close>

definition example_client_lib :: "(nat, nat) client_lib" where
  "example_client_lib =
     \<lparr>KubernetesNewForConfig = (\<lambda>c n. (Ok n, Suc n)), HTTPClientFor = (\<lambda>c n. (Ok n, Suc n)),
      NewTokenBucketRateLimiter = (\<lambda>q b n. (n, Suc n)),
      RESTClientForConfigAndClient = (\<lambda>c h n. (Ok n, Suc n)),
      NewDiscoveryClientForConfigAndClient = (\<lambda>c h n. (Ok n, Suc n)),
      NewDiscoveryClient = (\<lambda>c. c), DefaultKubernetesUserAgent = ''kube-aws-iam-controller'', GeneratedClientSerializer = 0\<rparr>"

definition example_in_cluster :: "nat in_cluster" where
  "example_in_cluster = \<lparr>InClusterConfig = Inl ''not in a cluster'', TLSConfigFor = (\<lambda>c. Inr None)\<rparr>"

theorem program_clients_witness:
  "\<exists>c. ConfigureKubeConfig example_in_cluster (Some ''http://127.0.0.1:8001'') 10 = Inr c
    \<and> emits (\<lambda>r cs. one_connection c cs \<and> fails_at_last r cs) (Unified_NewForConfig example_client_lib c)"
proof -
  obtain c where c: "ConfigureKubeConfig example_in_cluster (Some ''http://127.0.0.1:8001'') 10 = Inr c"
    by (simp add: ConfigureKubeConfig_def)
  with program_clients [OF c, of example_client_lib] show ?thesis by blast
qed

end
