(* ===== verification/Startup.thy ===== *)
theory Startup
  imports Examples SecretsController ClientConfig
begin

text \<open>
  \<^verbatim>\<open>main.go\<close> up to the start of the controllers: from the command line to the credentials getter and
  the two controllers.  Parsing the flags is the library's; their values are the record \<open>flags\<close>.  A
  fatal error of \<open>main\<close> is an error here.  The client of the API server is the subject of
  \<open>ClientConfig\<close>.
\<close>

section \<open>The command line\<close>

record flags =
  flagInterval :: int64
  flagRefreshLimit :: int64
  flagBaseRoleARN :: string
  flagNamespace :: string
  flagAssumeRole :: string

record program =
  credsGetter :: sts_getter
  assumedRole :: "string option"
  secretsController :: secrets_controller
  awsIAMRoleController :: aws_controller

definition base_role_arn :: "'w aws \<Rightarrow> flags \<Rightarrow> ('w, aws_call, string outcome) prog" where
  "base_role_arn aws config =
     (if flagBaseRoleARN config = []
      then do {
        base \<leftarrow> GetBaseRoleARN aws;
        ret (case base of
               Ok arn \<Rightarrow> Ok arn
             | Err err \<Rightarrow> Err (''Failed to autodiscover Base Role ARN: '' @ err)
             | Panic m \<Rightarrow> Panic m)
      }
      else ret (Ok (flagBaseRoleARN config)))"

definition assume_role :: "flags \<Rightarrow> string \<Rightarrow> string \<Rightarrow> string option" where
  "assume_role config base prefix =
     (if flagAssumeRole config = [] then None
      else if \<not> has_prefix (flagAssumeRole config) prefix then Some (base @ flagAssumeRole config)
      else Some (flagAssumeRole config))"

definition main_startup :: "'w aws \<Rightarrow> flags \<Rightarrow> ('w, aws_call, program outcome) prog" where
  "main_startup aws config =
     and_then (base_role_arn aws config) (\<lambda>base.
       ret (case GetPrefixFromARN aws base of
              Err err \<Rightarrow> Err (''Failed to parse ARN prefix from Base Role ARN: '' @ err)
            | Panic m \<Rightarrow> Panic m
            | Ok prefix \<Rightarrow>
                Ok \<lparr>credsGetter = NewSTSCredentialsGetter base prefix,
                    assumedRole = assume_role config base prefix,
                    secretsController = NewSecretsController (flagNamespace config)
                      (flagInterval config) (flagRefreshLimit config),
                    awsIAMRoleController = NewAWSIAMRoleController (flagInterval config)
                      (flagRefreshLimit config) (flagNamespace config)\<rparr>))"

section \<open>Role references\<close>

text \<open>
  Resolving a role reference is idempotent when the base role ARN starts with the prefix, as the
  prefix that \<open>main\<close> computes from it does: a full ARN stands for itself, anything else is appended
  to the base, and the result is a full ARN.
\<close>

theorem resolve_idempotent:
  assumes "has_prefix (baseRoleARN g) (baseRoleARNPrefix g)"
  shows "has_prefix (resolveRoleARN g role) (baseRoleARNPrefix g)
    \<and> resolveRoleARN g (resolveRoleARN g role) = resolveRoleARN g role"
proof -
  have "has_prefix (baseRoleARN g @ role) (baseRoleARNPrefix g)"
    using assms by (auto simp: has_prefix_iff)
  then show ?thesis by (simp add: resolveRoleARN_def)
qed

theorem resolve_idempotent_witness:
  "resolveRoleARN example_getter (resolveRoleARN example_getter ''app'') = resolveRoleARN example_getter ''app''"
  using resolve_idempotent [of example_getter "''app''"]
  by (simp add: example_getter_def NewSTSCredentialsGetter_def has_prefix_def)

primrec occurs :: "string \<Rightarrow> string \<Rightarrow> bool" where
  "occurs old [] \<longleftrightarrow> old = []"
| "occurs old (c # s) \<longleftrightarrow> has_prefix (c # s) old \<or> occurs old s"

text \<open>The first occurrence is behind a part in which there is none and that ends with another character.\<close>

lemma replace_first_skip:
  assumes "c \<notin> set old" and "old \<noteq> []" and "\<not> occurs old p"
  shows "replace_first old new (p @ c # s) = p @ c # replace_first old new s"
  using assms(3)
proof (induction p)
  case Nil
  with assms(1,2) show ?case by (cases old) (simp_all add: has_prefix_def)
next
  case (Cons a p)
  have "\<not> has_prefix ((a # p) @ c # s) old"
  proof
    assume "has_prefix ((a # p) @ c # s) old"
    then obtain r where "(a # p) @ c # s = old @ r" by (auto simp: has_prefix_iff)
    then obtain us where "a # p = old @ us \<or> (a # p) @ us = old \<and> c # s = us @ r"
      unfolding append_eq_append_conv2 by blast
    then consider "has_prefix (a # p) old" | "old = a # p" | "c \<in> set old"
      by (cases us) (auto simp: has_prefix_iff)
    then show False
      using Cons.prems assms(1) by cases (auto simp: has_prefix_iff)
  qed
  moreover have "\<not> occurs old p" using Cons.prems by simp
  ultimately show ?case using Cons.IH by simp
qed

lemma replace_first_here: "old \<noteq> [] \<Longrightarrow> replace_first old new (old @ s) = new @ s"
  by (cases old) (simp_all add: has_prefix_def)

lemma replace_profile:
  assumes "\<not> occurs ''instance-profile'' part" and "\<not> occurs ''instance-profile'' acc"
  shows "replace_first ''instance-profile'' ''role''
      (''arn:'' @ part @ '':iam::'' @ acc @ '':instance-profile/'' @ name)
    = ''arn:'' @ part @ '':iam::'' @ acc @ '':role/'' @ name"
proof -
  let ?r = "replace_first ''instance-profile'' ''role''"
  note skip = replace_first_skip [of "CHR '':''" "''instance-profile''" _ "''role''"]
  have "?r (acc @ '':instance-profile/'' @ name) = acc @ '':role/'' @ name"
    using skip [of acc "''instance-profile'' @ CHR ''/'' # name"] assms(2)
      replace_first_here [of "''instance-profile''" "''role''" "CHR ''/'' # name"] by simp
  moreover have "?r (CHR '':'' # s) = CHR '':'' # ?r s" "?r (''iam:'' @ s) = ''iam:'' @ ?r s"
    "?r (''arn:'' @ s) = ''arn:'' @ ?r s" for s
    by (simp_all add: has_prefix_def)
  moreover have "?r (part @ CHR '':'' # s) = part @ CHR '':'' # ?r s" for s
    using skip [of part s] assms(1) by simp
  ultimately show ?thesis by simp
qed

text \<open>
  The session name of a role reference with these levels, for an account: a panic when it has no room
  for them; else the account and the levels behind dots, each cut to some length, and none of
  them cut when they fit.
\<close>

definition names_session :: "string \<Rightarrow> string list \<Rightarrow> string outcome \<Rightarrow> bool" where
  "names_session account levels r \<longleftrightarrow>
     (if 66 \<le> length account + 2 * length levels then r = Panic ''slice bounds out of range''
      else (\<exists>ks. length ks = length levels \<and> r = Ok (account @ dotted ks levels))
        \<and> (list_all (\<lambda>l. l \<noteq> []) levels \<and> length account + length (path_name levels) \<le> 64
            \<longrightarrow> r = Ok (account @ path_name levels)))"

lemma normalizeRoleARN_names_session:
  assumes "CHR ''/'' \<notin> set hdr"
  shows "names_session (trim_suffix (trim_prefix hdr prefix) roleARNSuffix) (split_on CHR ''/'' role)
    (normalizeRoleARN (hdr @ CHR ''/'' # role) prefix)"
proof -
  define levels where "levels = split_on CHR ''/'' role"
  define acc where "acc = trim_suffix (trim_prefix hdr prefix) roleARNSuffix"
  have eq: "normalizeRoleARN (hdr @ CHR ''/'' # role) prefix =
      obind (normalizePath levels (64 - int (length acc))) (\<lambda>path. Ok (acc @ path))"
    by (simp add: normalizeRoleARN_eq split_on_arn [OF assms] levels_def acc_def)
  have "levels \<noteq> []" by (simp add: levels_def)
  from normalizePath_cases [OF this, of "64 - int (length acc)"] have
    "66 \<le> length acc + 2 * length levels \<Longrightarrow> normalizePath levels (64 - int (length acc)) = Panic ''slice bounds out of range''"
    "\<not> 66 \<le> length acc + 2 * length levels \<Longrightarrow>
      \<exists>ks. length ks = length levels \<and> normalizePath levels (64 - int (length acc)) = Ok (dotted ks levels)"
    by (auto split: if_splits)
  moreover have "normalizePath levels (64 - int (length acc)) = Ok (path_name levels)"
    if "list_all (\<lambda>l. l \<noteq> []) levels" "length acc + length (path_name levels) \<le> 64"
    using that by (intro normalizePath_exact) (simp_all add: list_all_iff)
  ultimately show ?thesis
    by (auto simp: names_session_def eq levels_def [symmetric] acc_def [symmetric])
qed

text \<open>
  C30: Autodiscovery: without a base role ARN on the command line, the program takes the account and
  partition of the instance profile; it then starts with the base ARN of that account's roles and the
  prefix of the partition.  The session name of a bare role reference is then the account followed by
  the levels of the reference behind dots, with nothing cut if they fit, and the only other outcome is
  the panic of a reference with too many levels.  That neither the account nor the partition has a slash
  or an \<^verbatim>\<open>instance-profile\<close> in it is true of those of AWS.
\<close>

theorem autodiscovery:
  assumes "flagBaseRoleARN config = []"
    and "GetIAMInfo aws w = (Inr (''arn:'' @ part @ '':iam::'' @ acc @ '':instance-profile/'' @ name), w')"
    and "ParsePartition aws (''arn:'' @ part @ '':iam::'' @ acc @ '':role/'') = Inr part"
    and "\<not> occurs ''instance-profile'' part" "\<not> occurs ''instance-profile'' acc"
    and "CHR ''/'' \<notin> set part" "CHR ''/'' \<notin> set acc"
  shows "\<exists>p. fst (run_state (main_startup aws config) \<lparr>world = w, trace = []\<rparr>) = Ok p
    \<and> credsGetter p = NewSTSCredentialsGetter (''arn:'' @ part @ '':iam::'' @ acc @ '':role/'')
        (''arn:'' @ part @ '':iam::'')
    \<and> (has_prefix role (''arn:'' @ part @ '':iam::'')
       \<or> names_session acc (split_on CHR ''/'' role)
           (normalizeRoleARN (resolveRoleARN (credsGetter p) role) (baseRoleARNPrefix (credsGetter p))))"
proof -
  let ?h = "''arn:'' @ part @ '':iam::'' @ acc @ '':role''"
  have slash: "CHR ''/'' \<notin> set ?h" using assms(6,7) by auto
  have split: "split_on CHR ''/'' (?h @ CHR ''/'' # s) = ?h # split_on CHR ''/'' s" for s
    using slash by (intro split_on_append) auto
  have start: "fst (run_state (main_startup aws config) \<lparr>world = w, trace = []\<rparr>) =
      Ok \<lparr>credsGetter = NewSTSCredentialsGetter (?h @ ''/'') (''arn:'' @ part @ '':iam::''),
          assumedRole = assume_role config (?h @ ''/'') (''arn:'' @ part @ '':iam::''),
          secretsController = NewSecretsController (flagNamespace config) (flagInterval config)
            (flagRefreshLimit config),
          awsIAMRoleController = NewAWSIAMRoleController (flagInterval config)
            (flagRefreshLimit config) (flagNamespace config)\<rparr>"
    using split [of name] replace_profile [OF assms(4,5), of name] assms(1-3)
    by (simp add: main_startup_def and_then_def base_role_arn_def GetBaseRoleARN_def GetPrefixFromARN_def Let_def)
  have "trim_suffix (trim_prefix ?h (''arn:'' @ part @ '':iam::'')) roleARNSuffix = acc"
    using trim_prefix_append [of "''arn:'' @ part @ '':iam::''" "acc @ '':role''"]
      trim_suffix_append [of acc "'':role''"]
    by (simp add: roleARNSuffix_def)
  then have "names_session acc (split_on CHR ''/'' role)
      (normalizeRoleARN (?h @ CHR ''/'' # role) (''arn:'' @ part @ '':iam::''))"
    using normalizeRoleARN_names_session [OF slash, of "''arn:'' @ part @ '':iam::''" role] by simp
  then show ?thesis
    using start by (auto simp: NewSTSCredentialsGetter_def resolveRoleARN_def)
qed

definition example_flags :: flags where
  "example_flags = \<lparr>flagInterval = 10000000000, flagRefreshLimit = 900000000000, flagBaseRoleARN = [],
     flagNamespace = [], flagAssumeRole = []\<rparr>"

text \<open>The example, in a partition with an \<^verbatim>\<open>i\<close> in its name.\<close>

definition example_iso_aws :: "unit aws" where
  "example_iso_aws = example_aws
     \<lparr>GetIAMInfo := (\<lambda>w. (Inr ''arn:aws-iso-b:iam::012345678910:instance-profile/kube'', w)),
      ParsePartition := (\<lambda>arn. Inr ''aws-iso-b'')\<rparr>"

lemma autodiscovery_witness_premises:
  "\<not> occurs ''instance-profile'' ''aws-iso-b''" "\<not> occurs ''instance-profile'' ''012345678910''"
  by (simp_all add: has_prefix_def)

theorem autodiscovery_witness:
  "\<exists>p. fst (run_state (main_startup example_iso_aws example_flags) \<lparr>world = (), trace = []\<rparr>) = Ok p
    \<and> normalizeRoleARN (resolveRoleARN (credsGetter p) ''team/app'') (baseRoleARNPrefix (credsGetter p))
      = Ok ''012345678910.team.app''"
proof -
  have info: "GetIAMInfo example_iso_aws () =
      (Inr (''arn:'' @ ''aws-iso-b'' @ '':iam::'' @ ''012345678910'' @ '':instance-profile/'' @ ''kube''), ())"
    "ParsePartition example_iso_aws (''arn:'' @ ''aws-iso-b'' @ '':iam::'' @ ''012345678910'' @ '':role/'') = Inr ''aws-iso-b''"
    by (simp_all add: example_iso_aws_def)
  from autodiscovery [OF _ info autodiscovery_witness_premises, of example_flags "''team/app''"] obtain p where p:
    "fst (run_state (main_startup example_iso_aws example_flags) \<lparr>world = (), trace = []\<rparr>) = Ok p"
    "names_session ''012345678910'' (split_on CHR ''/'' ''team/app'')
      (normalizeRoleARN (resolveRoleARN (credsGetter p) ''team/app'') (baseRoleARNPrefix (credsGetter p)))"
    by (auto simp: example_flags_def has_prefix_def)
  have "split_on CHR ''/'' ''team/app'' = [''team'', ''app'']" "path_name [''team'', ''app''] = ''.team.app''"
    by code_simp+
  with p show ?thesis by (simp add: names_session_def)
qed

end
