(* ===== verification/Recorder.thy ===== *)
theory Recorder
  imports ClientConfig
begin

text \<open>
  \<^verbatim>\<open>pkg/recorder/recorder.go\<close>: the recorder of events that the role controller gets.  Broadcasters,
  sinks and recorders are client-go's, objects of the type \<open>'o\<close> as in \<open>ClientConfig\<close>, and making or
  starting one is a call.
\<close>

text \<open>The dynamic types that a \<open>kubernetes.Interface\<close> of the program can have.\<close>

datatype 'o kubernetes_interface =
  KubernetesClientset 'o
| FakeClientset 'o
| UnifiedClientset "'o unified_clientset"

datatype 'o recorder_call =
  CNewBroadcaster 'o
| CStartLogging 'o
| CStartRecordingToSink 'o 'o
| CNewRecorder 'o string 'o

record ('o, 'w) recorder_lib =
  NewBroadcaster :: "'w \<Rightarrow> 'o \<times> 'w"
  StartLogging :: "'o \<Rightarrow> 'w \<Rightarrow> unit \<times> 'w"
  CoreV1RESTClient :: "'o \<Rightarrow> 'o"
  EventSink :: "'o \<Rightarrow> 'o"
  StartRecordingToSink :: "'o \<Rightarrow> 'o \<Rightarrow> 'w \<Rightarrow> unit \<times> 'w"
  NewRecorder :: "'o \<Rightarrow> string \<Rightarrow> 'w \<Rightarrow> 'o \<times> 'w"

text \<open>\<open>kubeClient.CoreV1().RESTClient()\<close>; the unified clientset has the method of the clientset it embeds.\<close>

primrec core_rest_client :: "('o, 'w) recorder_lib \<Rightarrow> 'o kubernetes_interface \<Rightarrow> 'o" where
  "core_rest_client lib (KubernetesClientset k) = CoreV1RESTClient lib k"
| "core_rest_client lib (FakeClientset k) = CoreV1RESTClient lib k"
| "core_rest_client lib (UnifiedClientset c) = CoreV1RESTClient lib (kubernetes c)"

definition isfake :: "'o kubernetes_interface \<Rightarrow> bool" where
  "isfake kubeClient = (case kubeClient of FakeClientset k \<Rightarrow> True | _ \<Rightarrow> False)"

definition start_recording :: "('o, 'w) recorder_lib \<Rightarrow> 'o \<Rightarrow> 'o \<Rightarrow> ('w, 'o recorder_call, unit) prog" where
  "start_recording lib eventBroadcaster sink =
     perform (StartRecordingToSink lib eventBroadcaster sink) (\<lambda>_. CStartRecordingToSink eventBroadcaster sink)"

definition CreateEventRecorder :: "('o, 'w) recorder_lib \<Rightarrow> 'o kubernetes_interface
    \<Rightarrow> ('w, 'o recorder_call, 'o) prog" where
  "CreateEventRecorder lib kubeClient = do {
     eventBroadcaster \<leftarrow> perform (NewBroadcaster lib) CNewBroadcaster;
     _ \<leftarrow> perform (StartLogging lib eventBroadcaster) (\<lambda>_. CStartLogging eventBroadcaster);
     _ \<leftarrow> (if \<not> isfake kubeClient
           then start_recording lib eventBroadcaster (EventSink lib (core_rest_client lib kubeClient))
           else ret ());
     perform (NewRecorder lib eventBroadcaster ''kube-aws-iam-controller'')
       (CNewRecorder eventBroadcaster ''kube-aws-iam-controller'')
   }"

text \<open>The calls for a recorder: of one broadcaster, which logs first and is given the sink before the recorder.\<close>

definition recorder_trace :: "'o option \<Rightarrow> 'o \<Rightarrow> 'o recorder_call list \<Rightarrow> bool" where
  "recorder_trace sink r cs \<longleftrightarrow> (\<exists>b. cs = [CNewBroadcaster b, CStartLogging b]
     @ (case sink of None \<Rightarrow> [] | Some sink \<Rightarrow> [CStartRecordingToSink b sink])
     @ [CNewRecorder b ''kube-aws-iam-controller'' r])"

lemma emits_CreateEventRecorder:
  "emits (recorder_trace (if isfake k then None else Some (EventSink lib (core_rest_client lib k))))
     (CreateEventRecorder lib k)"
  by (cases "isfake k")
    (simp_all add: CreateEventRecorder_def start_recording_def recorder_trace_def emits_run)

text \<open>
  The recorder of the role controller sends its events to the API server through the Kubernetes client
  that the unified clientset wraps, whichever it is: the test for a fake client, meant to keep tests from
  recording, looks at the type of the wrapper and so never keeps a program with a unified clientset from
  it.
\<close>

theorem unified_recorder_records:
  "emits (recorder_trace (Some (EventSink lib (CoreV1RESTClient lib (kubernetes c)))))
     (CreateEventRecorder lib (UnifiedClientset c))"
  using emits_CreateEventRecorder [of "UnifiedClientset c" lib] by (simp add: isfake_def)

end
