(* ===== verification/MainProgram.thy ===== *)
theory MainProgram
  imports Startup Recorder
begin

text \<open>
  The whole of \<open>main\<close> in \<^verbatim>\<open>main.go\<close>, from the flags to the controllers that are about to run.  Parsing
  the command line and loading the configuration of the AWS SDK are parameters, as are the libraries
  of the parts it puts together: the clients (\<open>ClientConfig\<close>), the start of the AWS side
  (\<open>Startup\<close>) and the recorder (\<open>Recorder\<close>).  \<open>log.Fatalf\<close> ends the program: its message is
  the error.  What runs then is the subject of \<open>Process\<close>.
\<close>

section \<open>The command line\<close>

datatype flag_var = BoolVar | DurationVar | StringVar | URLVar

text \<open>The flags with the types of their variables and their defaults.\<close>

definition main_flags :: "(string \<times> flag_var \<times> string option) list" where
  "main_flags =
     [(''debug'', BoolVar, None),
      (''interval'', DurationVar, Some ''10s''),
      (''refresh-limit'', DurationVar, Some ''15m''),
      (''base-role-arn'', StringVar, None),
      (''assume-role'', StringVar, None),
      (''namespace'', StringVar, Some ''''),
      (''apiserver'', URLVar, None)]"

text \<open>What the parser writes to the variables, by flag; a \<open>*url.URL\<close> is nil or has a string.\<close>

record parsed =
  boolVar :: "string \<Rightarrow> bool"
  durationVar :: "string \<Rightarrow> int64"
  stringVar :: "string \<Rightarrow> string"
  urlVar :: "string \<Rightarrow> string option"

record main_config = flags +
  Debug :: bool
  APIServer :: "string option"

definition config_of :: "parsed \<Rightarrow> main_config" where
  "config_of p =
     \<lparr>flagInterval = durationVar p ''interval'', flagRefreshLimit = durationVar p ''refresh-limit'',
      flagBaseRoleARN = stringVar p ''base-role-arn'', flagNamespace = stringVar p ''namespace'',
      flagAssumeRole = stringVar p ''assume-role'', Debug = boolVar p ''debug'',
      APIServer = urlVar p ''apiserver''\<rparr>"

definition defaultClientGOTimeout :: int where
  "defaultClientGOTimeout = 30"

section \<open>The program\<close>

datatype 'o main_call =
  CParse "error + parsed"
| CSetDebugLevel
| CClient "'o client_call"
| CLoadConfig "error option"
| CAWS aws_call
| CRecorder "'o recorder_call"

record ('o, 'w) outside =
  ParseFlags :: "(string \<times> flag_var \<times> string option) list \<Rightarrow> 'w \<Rightarrow> (error + parsed) \<times> 'w"
  SetDebugLevel :: "'w \<Rightarrow> 'w"
  LoadDefaultConfig :: "'w \<Rightarrow> error option \<times> 'w"
  inCluster :: "'o in_cluster"
  clientLib :: "('o, 'w) client_lib"
  recorderLib :: "('o, 'w) recorder_lib"
  awsLib :: "'w aws"

type_synonym ('w, 'o, 'a) main_prog = "('w, 'o main_call, 'a outcome) prog"

text \<open>A part whose calls are among those of the program, and an error that is fatal.\<close>

definition calling :: "('c \<Rightarrow> 'd) \<Rightarrow> ('w, 'c, 'a) prog \<Rightarrow> ('w, 'd, 'a) prog" where
  "calling f m = State (\<lambda>s. case run_state m \<lparr>world = world s, trace = []\<rparr> of
     (a, s') \<Rightarrow> (a, s\<lparr>world := world s', trace := trace s @ map f (trace s')\<rparr>))"

definition fatal :: "(error \<Rightarrow> string) \<Rightarrow> 'a outcome \<Rightarrow> 'a outcome" where
  "fatal msg r = (case r of Ok a \<Rightarrow> Ok a | Err err \<Rightarrow> Err (msg err) | Panic p \<Rightarrow> Panic p)"

lemma fatal_eq [simp]:
  "fatal msg r = Ok a \<longleftrightarrow> r = Ok a" "fatal msg r = Panic p \<longleftrightarrow> r = Panic p"
  "fatal msg r = Err e \<longleftrightarrow> (\<exists>err. r = Err err \<and> e = msg err)"
  by (cases r; auto simp: fatal_def)+

definition parse_flags :: "('o, 'w) outside \<Rightarrow> ('w, 'o, main_config) main_prog" where
  "parse_flags out = do {
     p \<leftarrow> perform (ParseFlags out main_flags) CParse;
     case p of
       Inl usage \<Rightarrow> ret (Err usage)
     | Inr p \<Rightarrow>
         (let config = config_of p in do {
            _ \<leftarrow> (if Debug config then perform (\<lambda>w. ((), SetDebugLevel out w)) (\<lambda>_. CSetDebugLevel) else ret ());
            ret (Ok config)
          })
   }"

definition kube_config :: "('o, 'w) outside \<Rightarrow> main_config \<Rightarrow> ('w, 'o, 'o rest_config) main_prog" where
  "kube_config out config =
     ret (case ConfigureKubeConfig (inCluster out) (APIServer config) defaultClientGOTimeout of
            Inl err \<Rightarrow> Err (''Failed to set up Kubernetes config: '' @ err)
          | Inr kubeConfig \<Rightarrow> Ok kubeConfig)"

definition kube_client :: "('o, 'w) outside \<Rightarrow> 'o rest_config \<Rightarrow> ('w, 'o, 'o unified_clientset) main_prog" where
  "kube_client out kubeConfig = do {
     r \<leftarrow> calling CClient (Unified_NewForConfig (clientLib out) kubeConfig);
     ret (fatal (\<lambda>err. ''Failed to initialize Kubernetes client: '' @ err @ ''.'') r)
   }"

definition load_config :: "('o, 'w) outside \<Rightarrow> ('w, 'o, unit) main_prog" where
  "load_config out = do {
     err \<leftarrow> perform (LoadDefaultConfig out) CLoadConfig;
     ret (case err of None \<Rightarrow> Ok () | Some err \<Rightarrow> Err (''unable to load SDK config, '' @ err))
   }"

text \<open>The program when its controllers are made: they have the client, and the role controller its recorder.\<close>

record 'o running =
  runClient :: "'o unified_clientset"
  runRecorder :: 'o
  runProgram :: program

definition main_prepare :: "('o, 'w) outside \<Rightarrow> ('w, 'o, 'o running) main_prog" where
  "main_prepare out =
     and_then (parse_flags out) (\<lambda>config.
     and_then (kube_config out config) (\<lambda>kubeConfig.
     and_then (kube_client out kubeConfig) (\<lambda>client.
     and_then (load_config out) (\<lambda>_.
     and_then (calling CAWS (main_startup (awsLib out) (flags.truncate config))) (\<lambda>program. do {
       rec \<leftarrow> calling CRecorder (CreateEventRecorder (recorderLib out) (UnifiedClientset client));
       ret (Ok \<lparr>runClient = client, runRecorder = rec, runProgram = program\<rparr>)
     })))))"

section \<open>The calls of each part\<close>

lemma emits_calling:
  fixes m :: "('w, 'c, 'a) prog" and f :: "'c \<Rightarrow> 'd"
  assumes "emits P m"
  shows "emits (\<lambda>r ds. \<exists>cs. ds = map f cs \<and> P r cs) (calling f m)"
  unfolding emits_def
proof
  fix s :: "('w, 'd) st"
  obtain cs where "trace (snd (run_state m \<lparr>world = world s, trace = []\<rparr>)) = cs"
    "P (fst (run_state m \<lparr>world = world s, trace = []\<rparr>)) cs"
    using assms by (rule emitsD [where s = "\<lparr>world = world s, trace = []\<rparr>"]) simp
  then show "\<exists>ds. trace (snd (run_state (calling f m) s)) = trace s @ ds
      \<and> (\<exists>cs. ds = map f cs \<and> P (fst (run_state (calling f m) s)) cs)"
    by (auto simp: calling_def split: prod.split)
qed

text \<open>
  The calls of each step, with its result.  What a call returns is what the library gave, in some state
  of the world outside.
\<close>

definition gives :: "('w \<Rightarrow> 'r \<times> 'w) \<Rightarrow> 'r \<Rightarrow> bool" where
  "gives f r \<longleftrightarrow> (\<exists>w w'. f w = (r, w'))"

lemma givesI: "f w = (r, w') \<Longrightarrow> gives f r"
  unfolding gives_def by blast

definition parsed_calls :: "parsed \<Rightarrow> 'o main_call list" where
  "parsed_calls p = CParse (Inr p) # (if Debug (config_of p) then [CSetDebugLevel] else [])"

lemma parsed_calls_parse: "CParse (Inr vals) \<in> set (parsed_calls p) \<longleftrightarrow> vals = p"
  by (auto simp: parsed_calls_def)

definition parse_trace :: "('o, 'w) outside \<Rightarrow> main_config outcome \<Rightarrow> 'o main_call list \<Rightarrow> bool" where
  "parse_trace out r cs \<longleftrightarrow>
     (\<exists>err. gives (ParseFlags out main_flags) (Inl err) \<and> cs = [CParse (Inl err)] \<and> r = Err err)
     \<or> (\<exists>p. gives (ParseFlags out main_flags) (Inr p) \<and> cs = parsed_calls p \<and> r = Ok (config_of p))"

lemma emits_parse_flags: "emits (parse_trace out) (parse_flags out)"
  unfolding parse_flags_def
proof (rule emits_bind)
  show "emits (\<lambda>r cs. gives (ParseFlags out main_flags) r \<and> cs = [CParse r]) (perform (ParseFlags out main_flags) CParse)"
    by (rule emits_perform) (simp add: givesI)
qed (auto simp: parse_trace_def parsed_calls_def Let_def intro!: emits_run split: sum.split)

definition kube_trace :: "('o, 'w) outside \<Rightarrow> main_config \<Rightarrow> 'o rest_config outcome \<Rightarrow> 'o main_call list \<Rightarrow> bool" where
  "kube_trace out config r cs \<longleftrightarrow> cs = [] \<and>
     (case ConfigureKubeConfig (inCluster out) (APIServer config) 30 of
        Inl err \<Rightarrow> r = Err (''Failed to set up Kubernetes config: '' @ err)
      | Inr kubeConfig \<Rightarrow> r = Ok kubeConfig)"

lemma emits_kube_config: "emits (kube_trace out config) (kube_config out config)"
  by (auto simp: kube_config_def kube_trace_def defaultClientGOTimeout_def intro!: emits_return split: sum.split)

primrec genuine :: "('o, 'w) client_lib \<Rightarrow> 'o client_call \<Rightarrow> bool" where
  "genuine lib (CKubernetes c r) \<longleftrightarrow> gives (KubernetesNewForConfig lib c) r"
| "genuine lib (CHTTPClientFor c r) \<longleftrightarrow> gives (HTTPClientFor lib c) r"
| "genuine lib (CTokenBucket q b l) \<longleftrightarrow> gives (NewTokenBucketRateLimiter lib q b) l"
| "genuine lib (CRESTClient c h r) \<longleftrightarrow> gives (RESTClientForConfigAndClient lib c h) r"
| "genuine lib (CDiscovery c h r) \<longleftrightarrow> gives (NewDiscoveryClientForConfigAndClient lib c h) r"

lemma policy_genuine:
  "policy (genuine lib) (\<lambda>_. True) (kubernetes_client lib c)" "policy (genuine lib) (\<lambda>_. True) (http_client lib c)"
  "policy (genuine lib) (\<lambda>_. True) (token_bucket lib q b)" "policy (genuine lib) (\<lambda>_. True) (rest_client lib c h)"
  "policy (genuine lib) (\<lambda>_. True) (discovery_client lib c h)"
  unfolding client_call_defs by (auto intro!: policy_perform intro: givesI)

lemma policy_genuine_clients: "policy (genuine lib) (\<lambda>_. True) (Unified_NewForConfig lib c)"
proof -
  note seq = policy_and_then [where Q = "\<lambda>_. True" and R = "\<lambda>_. True", unfolded post_ok_any]
  show ?thesis
    unfolding Unified_NewForConfig_def NewForConfig_def NewForConfigAndClient_def limited_config_def
      zalandov1_NewForConfigAndClient_def Let_def
    by (auto intro!: seq policy_intros policy_genuine split: option.split)
qed

text \<open>The clients are all made, or the last call fails.\<close>

definition client_calls :: "('o, 'w) client_lib \<Rightarrow> 'o rest_config \<Rightarrow> 'o unified_clientset outcome
    \<Rightarrow> 'o client_call list \<Rightarrow> bool" where
  "client_calls lib c r ds \<longleftrightarrow> one_connection c ds \<and> fails_at_last r ds \<and> list_all (genuine lib) ds"

definition client_trace :: "('o, 'w) outside \<Rightarrow> 'o rest_config \<Rightarrow> 'o unified_clientset outcome
    \<Rightarrow> 'o main_call list \<Rightarrow> bool" where
  "client_trace out c r cs \<longleftrightarrow> (\<exists>r' ds. cs = map CClient ds \<and> client_calls (clientLib out) c r' ds
     \<and> r = fatal (\<lambda>err. ''Failed to initialize Kubernetes client: '' @ err @ ''.'') r')"

lemma emits_kube_client:
  assumes "ConfigureKubeConfig cl url timeout = Inr c"
  shows "emits (client_trace out c) (kube_client out c)"
proof -
  have "emits (\<lambda>r ds. clients_made c r ds \<and> list_all (genuine (clientLib out)) ds \<and> True)
      (Unified_NewForConfig (clientLib out) c)"
    using policy_genuine_clients unfolding policy_def by (rule emits_conj [OF emits_NewForConfig])
  then have "emits (client_calls (clientLib out) c) (Unified_NewForConfig (clientLib out) c)"
    by (rule emits_mono) (simp add: client_calls_def clients_made_def ConfigureKubeConfig_sets [OF assms])
  then show ?thesis
    unfolding kube_client_def client_trace_def
    by (rule emits_bind [OF emits_calling]) (auto intro!: emits_return)
qed

definition load_trace :: "('o, 'w) outside \<Rightarrow> unit outcome \<Rightarrow> 'o main_call list \<Rightarrow> bool" where
  "load_trace out r cs \<longleftrightarrow> (\<exists>err. gives (LoadDefaultConfig out) err \<and> cs = [CLoadConfig err]
     \<and> r = (case err of None \<Rightarrow> Ok () | Some err \<Rightarrow> Err (''unable to load SDK config, '' @ err)))"

lemma emits_load_config: "emits (load_trace out) (load_config out)"
  unfolding load_config_def
proof (rule emits_bind)
  show "emits (\<lambda>r cs. gives (LoadDefaultConfig out) r \<and> cs = [CLoadConfig r]) (perform (LoadDefaultConfig out) CLoadConfig)"
    by (rule emits_perform) (simp add: givesI)
qed (auto simp: load_trace_def intro!: emits_return)

section \<open>The AWS side\<close>

text \<open>The base role ARN: the flag, or the account of the instance profile, which is asked for only then.\<close>

definition base_of_profile :: "string \<Rightarrow> string" where
  "base_of_profile profile = takeWhile (\<lambda>c. c \<noteq> CHR ''/'') (replace_first ''instance-profile'' ''role'' profile) @ ''/''"

definition base_from :: "'w aws \<Rightarrow> flags \<Rightarrow> aws_call list \<Rightarrow> string \<Rightarrow> bool" where
  "base_from aws config cs base \<longleftrightarrow>
     (if flagBaseRoleARN config = []
      then \<exists>profile. gives (GetIAMInfo aws) (Inr profile) \<and> cs = [CGetIAMInfo (Inr profile)]
        \<and> CHR ''/'' \<in> set profile \<and> base = base_of_profile profile
      else cs = [] \<and> base = flagBaseRoleARN config)"

text \<open>The controllers have the interval, the limit and the namespace of the flags.\<close>

definition configured :: "flags \<Rightarrow> program \<Rightarrow> bool" where
  "configured config p \<longleftrightarrow>
     secretsController p = NewSecretsController (flagNamespace config) (flagInterval config) (flagRefreshLimit config)
     \<and> awsIAMRoleController p = NewAWSIAMRoleController (flagInterval config) (flagRefreshLimit config)
         (flagNamespace config)"

text \<open>At most the instance profile is asked for, and no credentials.\<close>

inductive startup_trace :: "'w aws \<Rightarrow> flags \<Rightarrow> program outcome \<Rightarrow> aws_call list \<Rightarrow> bool" for aws config where
  no_info: "flagBaseRoleARN config = [] \<Longrightarrow> gives (GetIAMInfo aws) (Inl err)
    \<Longrightarrow> startup_trace aws config (Err (''Failed to autodiscover Base Role ARN: '' @ err)) [CGetIAMInfo (Inl err)]"
| bad_profile: "flagBaseRoleARN config = [] \<Longrightarrow> gives (GetIAMInfo aws) (Inr profile) \<Longrightarrow> CHR ''/'' \<notin> set profile
    \<Longrightarrow> startup_trace aws config (Err ''Failed to autodiscover Base Role ARN: failed to determine BaseRoleARN'')
      [CGetIAMInfo (Inr profile)]"
| bad_arn: "base_from aws config cs base \<Longrightarrow> ParsePartition aws base = Inl err
    \<Longrightarrow> startup_trace aws config
      (Err (''Failed to parse ARN prefix from Base Role ARN: error parsing ARN ('' @ base @ ''): '' @ err)) cs"
| made: "base_from aws config cs base \<Longrightarrow> ParsePartition aws base = Inr part \<Longrightarrow> configured config p
    \<Longrightarrow> credsGetter p = NewSTSCredentialsGetter base (''arn:'' @ part @ '':iam::'')
    \<Longrightarrow> assumedRole p = assume_role config base (''arn:'' @ part @ '':iam::'')
    \<Longrightarrow> startup_trace aws config (Ok p) cs"

lemma hd_split_on: "hd (split_on c s) = takeWhile (\<lambda>x. x \<noteq> c) s"
  by (induction s) (auto split: list.split)

lemma set_replace_first:
  assumes "c \<notin> set old" and "c \<notin> set new"
  shows "c \<in> set (replace_first old new s) \<longleftrightarrow> c \<in> set s"
proof (induction s)
  case (Cons a s)
  show ?case
  proof (cases "has_prefix (a # s) old")
    case True
    then obtain t where t: "a # s = old @ t" by (auto simp: has_prefix_iff)
    with assms have "c \<in> set (a # s) \<longleftrightarrow> c \<in> set t" by simp
    moreover have "replace_first old new (a # s) = new @ drop (length old) (a # s)" using True by simp
    then have "replace_first old new (a # s) = new @ t" by (simp only: t) simp
    ultimately show ?thesis using assms(2) by simp
  qed (use Cons in simp)
qed (use assms in auto)

definition base_trace :: "'w aws \<Rightarrow> flags \<Rightarrow> string outcome \<Rightarrow> aws_call list \<Rightarrow> bool" where
  "base_trace aws config r cs \<longleftrightarrow>
     (case r of Ok base \<Rightarrow> base_from aws config cs base
      | Err msg \<Rightarrow> startup_trace aws config (Err msg) cs
      | Panic m \<Rightarrow> False)"

lemma emits_base_role_arn: "emits (base_trace aws config) (base_role_arn aws config)"
proof (cases "flagBaseRoleARN config = []")
  case True
  have asked: "emits (\<lambda>r cs. gives (GetIAMInfo aws) r \<and> cs = [CGetIAMInfo r]) (perform (GetIAMInfo aws) CGetIAMInfo)"
    by (rule emits_perform) (simp add: givesI)
  have found: "length (split_on CHR ''/'' (replace_first ''instance-profile'' ''role'' profile)) < 2
      \<longleftrightarrow> CHR ''/'' \<notin> set profile" for profile
    using set_replace_first [of "CHR ''/''" "''instance-profile''" "''role''" profile]
    by (simp add: length_split_on count_list_0_iff)
  have "emits (\<lambda>r cs. (\<exists>err. gives (GetIAMInfo aws) (Inl err) \<and> cs = [CGetIAMInfo (Inl err)] \<and> r = Err err)
      \<or> (\<exists>profile. gives (GetIAMInfo aws) (Inr profile) \<and> cs = [CGetIAMInfo (Inr profile)]
          \<and> (CHR ''/'' \<notin> set profile \<and> r = Err ''failed to determine BaseRoleARN''
            \<or> CHR ''/'' \<in> set profile \<and> r = Ok (base_of_profile profile)))) (GetBaseRoleARN aws)"
    unfolding GetBaseRoleARN_def Let_def found hd_split_on
    by (rule emits_bind [OF asked]) (auto simp: base_of_profile_def intro!: emits_return split: sum.split)
  then show ?thesis
    unfolding base_role_arn_def if_P [OF True]
    by (rule emits_bind)
      (auto simp: base_trace_def base_from_def True intro!: emits_return startup_trace.no_info [simplified]
        startup_trace.bad_profile [simplified])
next
  case False
  then show ?thesis by (auto simp: base_role_arn_def base_trace_def base_from_def intro!: emits_return)
qed

lemma emits_main_startup: "emits (startup_trace aws config) (main_startup aws config)"
proof -
  have "emits (\<lambda>r cs. cs = [] \<and> (\<forall>ds. base_from aws config ds base \<longrightarrow> startup_trace aws config r ds))
    (ret (case GetPrefixFromARN aws base of
        Err err \<Rightarrow> Err (''Failed to parse ARN prefix from Base Role ARN: '' @ err)
      | Panic m \<Rightarrow> Panic m
      | Ok prefix \<Rightarrow>
          Ok \<lparr>credsGetter = NewSTSCredentialsGetter base prefix, assumedRole = assume_role config base prefix,
              secretsController = NewSecretsController (flagNamespace config) (flagInterval config)
                (flagRefreshLimit config),
              awsIAMRoleController = NewAWSIAMRoleController (flagInterval config) (flagRefreshLimit config)
                (flagNamespace config)\<rparr>))" for base
    by (rule emits_return)
      (auto simp: GetPrefixFromARN_def configured_def split: sum.split
        intro: startup_trace.bad_arn [simplified] startup_trace.made)
  with emits_base_role_arn show ?thesis
    unfolding main_startup_def
    by (rule emits_mono [OF emits_and_then]) (auto simp: base_trace_def elim!: seq_trace.cases)
qed

section \<open>Starting, or not\<close>

text \<open>The calls up to the clients, all of which succeed if the result is theirs.\<close>

definition connecting :: "('o, 'w) outside \<Rightarrow> parsed \<Rightarrow> 'o unified_clientset outcome \<Rightarrow> 'o main_call list \<Rightarrow> bool" where
  "connecting out vals r cs \<longleftrightarrow> gives (ParseFlags out main_flags) (Inr vals)
     \<and> (\<exists>kubeConfig clients. cs = parsed_calls vals @ map CClient clients
         \<and> ConfigureKubeConfig (inCluster out) (APIServer (config_of vals)) 30 = Inr kubeConfig
         \<and> client_calls (clientLib out) kubeConfig r clients)"

text \<open>The calls after which the program ends, and with which message, by the step that fails.\<close>

inductive stops_with :: "('o, 'w) outside \<Rightarrow> string \<Rightarrow> 'o main_call list \<Rightarrow> bool" for out where
  bad_flags: "gives (ParseFlags out main_flags) (Inl err) \<Longrightarrow> stops_with out err [CParse (Inl err)]"
| bad_config: "gives (ParseFlags out main_flags) (Inr vals)
    \<Longrightarrow> ConfigureKubeConfig (inCluster out) (APIServer (config_of vals)) 30 = Inl err
    \<Longrightarrow> stops_with out (''Failed to set up Kubernetes config: '' @ err) (parsed_calls vals)"
| no_client: "connecting out vals (Err err) cs
    \<Longrightarrow> stops_with out (''Failed to initialize Kubernetes client: '' @ err @ ''.'') cs"
| no_sdk: "connecting out vals (Ok client) cs \<Longrightarrow> gives (LoadDefaultConfig out) (Some err)
    \<Longrightarrow> stops_with out (''unable to load SDK config, '' @ err) (cs @ [CLoadConfig (Some err)])"
| no_base: "connecting out vals (Ok client) cs \<Longrightarrow> gives (LoadDefaultConfig out) None
    \<Longrightarrow> startup_trace (awsLib out) (flags.truncate (config_of vals)) (Err msg) aws_calls
    \<Longrightarrow> stops_with out msg (cs @ CLoadConfig None # map CAWS aws_calls)"

definition recording_trace :: "('o, 'w) outside \<Rightarrow> 'o unified_clientset \<Rightarrow> 'o \<Rightarrow> 'o recorder_call list \<Rightarrow> bool" where
  "recording_trace out client = recorder_trace
     (Some (EventSink (recorderLib out) (CoreV1RESTClient (recorderLib out) (kubernetes client))))"

definition starts_with :: "('o, 'w) outside \<Rightarrow> 'o running \<Rightarrow> 'o main_call list \<Rightarrow> bool" where
  "starts_with out p cs \<longleftrightarrow>
     (\<exists>vals pre aws_calls recorders.
         cs = pre @ CLoadConfig None # map CAWS aws_calls @ map CRecorder recorders
         \<and> connecting out vals (Ok (runClient p)) pre
         \<and> gives (LoadDefaultConfig out) None
         \<and> startup_trace (awsLib out) (flags.truncate (config_of vals)) (Ok (runProgram p)) aws_calls
         \<and> recording_trace out (runClient p) (runRecorder p) recorders)"

definition main_outcome :: "('o, 'w) outside \<Rightarrow> 'o running outcome \<Rightarrow> 'o main_call list \<Rightarrow> bool" where
  "main_outcome out r cs \<longleftrightarrow>
     (case r of
        Ok p \<Rightarrow> starts_with out p cs
      | Err msg \<Rightarrow> stops_with out msg cs
      | Panic m \<Rightarrow> \<exists>vals. connecting out vals (Panic m) cs)"

text \<open>What is left to do once the clients are made.\<close>

definition loading_trace :: "('o, 'w) outside \<Rightarrow> flags \<Rightarrow> 'o unified_clientset
    \<Rightarrow> 'o running outcome \<Rightarrow> 'o main_call list \<Rightarrow> bool" where
  "loading_trace out config client = seq_trace (load_trace out) (\<lambda>_.
     seq_trace (\<lambda>r cs. \<exists>ds. cs = map CAWS ds \<and> startup_trace (awsLib out) config r ds) (\<lambda>program r cs.
       \<exists>rec ds. cs = map CRecorder ds \<and> recording_trace out client rec ds
         \<and> r = Ok \<lparr>runClient = client, runRecorder = rec, runProgram = program\<rparr>))"

lemma loading_outcome:
  assumes "loading_trace out (flags.truncate (config_of vals)) client r ds" and pre: "connecting out vals (Ok client) pre"
  shows "main_outcome out r (pre @ ds)"
  using assms(1) unfolding loading_trace_def
proof (cases rule: seq_trace.cases)
  case (both u cs1 es)
  then have load: "cs1 = [CLoadConfig None]" "gives (LoadDefaultConfig out) None"
    by (auto simp: load_trace_def split: option.splits)
  from both(3) show ?thesis
  proof (cases rule: seq_trace.cases)
    case (both p cs2 fs)
    from both(2) obtain as where as: "cs2 = map CAWS as"
      "startup_trace (awsLib out) (flags.truncate (config_of vals)) (Ok p) as" by blast
    from both(3) obtain rec rs where rs: "fs = map CRecorder rs" "recording_trace out client rec rs"
      "r = Ok \<lparr>runClient = client, runRecorder = rec, runProgram = p\<rparr>" by blast
    have "pre @ ds = pre @ CLoadConfig None # map CAWS as @ map CRecorder rs"
      using \<open>ds = cs1 @ es\<close> load(1) both(1) as(1) rs(1) by simp
    with pre load(2) as(2) rs(2) have "starts_with out \<lparr>runClient = client, runRecorder = rec, runProgram = p\<rparr> (pre @ ds)"
      unfolding starts_with_def running.select_convs by blast
    with rs(3) show ?thesis by (simp add: main_outcome_def)
  next
    case (returned e)
    from returned(2) obtain as where as: "es = map CAWS as"
      "startup_trace (awsLib out) (flags.truncate (config_of vals)) (Err e) as" by blast
    from stops_with.no_base [OF pre load(2) as(2)] show ?thesis
      using \<open>ds = cs1 @ es\<close> load(1) as(1) returned(1) by (simp add: main_outcome_def)
  qed (auto elim: startup_trace.cases)
next
  case (returned e)
  then obtain err where "gives (LoadDefaultConfig out) (Some err)" "ds = [CLoadConfig (Some err)]"
    "e = ''unable to load SDK config, '' @ err"
    by (auto simp: load_trace_def split: option.splits)
  with stops_with.no_sdk [OF pre] returned(1) show ?thesis by (simp add: main_outcome_def)
qed (auto simp: load_trace_def split: option.splits)

text \<open>And once the flags are parsed.\<close>

definition connected_trace :: "('o, 'w) outside \<Rightarrow> main_config \<Rightarrow> 'o running outcome \<Rightarrow> 'o main_call list \<Rightarrow> bool" where
  "connected_trace out config r cs \<longleftrightarrow>
     (case ConfigureKubeConfig (inCluster out) (APIServer config) 30 of
        Inl err \<Rightarrow> cs = [] \<and> r = Err (''Failed to set up Kubernetes config: '' @ err)
      | Inr kubeConfig \<Rightarrow>
          seq_trace (client_trace out kubeConfig) (loading_trace out (flags.truncate config)) r cs)"

lemma connected_outcome:
  assumes "connected_trace out (config_of vals) r cs" and vals: "gives (ParseFlags out main_flags) (Inr vals)"
  shows "main_outcome out r (parsed_calls vals @ cs)"
proof (cases "ConfigureKubeConfig (inCluster out) (APIServer (config_of vals)) 30")
  case (Inl err)
  with assms(1) stops_with.bad_config [OF vals Inl] show ?thesis
    by (simp add: main_outcome_def connected_trace_def)
next
  case (Inr kubeConfig)
  have pre: "connecting out vals r' (parsed_calls vals @ map CClient ds)"
    if "client_calls (clientLib out) kubeConfig r' ds" for r' ds
    using that Inr vals unfolding connecting_def by blast
  from assms(1) Inr have "seq_trace (client_trace out kubeConfig)
      (loading_trace out (flags.truncate (config_of vals))) r cs" by (simp add: connected_trace_def)
  then show ?thesis
  proof (cases rule: seq_trace.cases)
    case (both client cs1 ds1)
    from both(2) obtain ds where ds: "cs1 = map CClient ds" "client_calls (clientLib out) kubeConfig (Ok client) ds"
      by (auto simp: client_trace_def dest!: sym [of _ "fatal _ _"])
    show ?thesis using loading_outcome [OF both(3) pre [OF ds(2)]] both(1) ds(1) by simp
  next
    case (returned e)
    from returned(2) obtain err ds where ds: "cs = map CClient ds" "client_calls (clientLib out) kubeConfig (Err err) ds"
      "e = ''Failed to initialize Kubernetes client: '' @ err @ ''.''"
      by (auto simp: client_trace_def dest!: sym [of _ "fatal _ _"])
    show ?thesis
      using stops_with.no_client [OF pre [OF ds(2)]] returned(1) ds(1,3) by (simp add: main_outcome_def)
  next
    case (crashed m)
    from crashed(2) obtain ds where ds: "cs = map CClient ds" "client_calls (clientLib out) kubeConfig (Panic m) ds"
      by (auto simp: client_trace_def dest!: sym [of _ "fatal _ _"])
    show ?thesis using pre [OF ds(2)] crashed(1) ds(1) by (auto simp: main_outcome_def)
  qed
qed

definition main_trace :: "('o, 'w) outside \<Rightarrow> 'o running outcome \<Rightarrow> 'o main_call list \<Rightarrow> bool" where
  "main_trace out = seq_trace (parse_trace out) (connected_trace out)"

lemma main_trace_outcome:
  assumes "main_trace out r cs"
  shows "main_outcome out r cs"
  using assms unfolding main_trace_def
proof (cases rule: seq_trace.cases)
  case (both config cs1 ds)
  then obtain vals where "gives (ParseFlags out main_flags) (Inr vals)" "cs1 = parsed_calls vals"
    "config = config_of vals" by (auto simp: parse_trace_def)
  with both(1,3) connected_outcome [of out vals r ds] show ?thesis by simp
qed (auto simp: parse_trace_def main_outcome_def intro: stops_with.bad_flags)

lemma emits_recording:
  "emits (\<lambda>r cs. \<exists>rec ds. cs = map CRecorder ds \<and> recording_trace out client rec ds
      \<and> r = Ok \<lparr>runClient = client, runRecorder = rec, runProgram = program\<rparr>) (do {
    rec \<leftarrow> calling CRecorder (CreateEventRecorder (recorderLib out) (UnifiedClientset client));
    ret (Ok \<lparr>runClient = client, runRecorder = rec, runProgram = program\<rparr>)
  })"
  unfolding recording_trace_def
  by (rule emits_bind [OF emits_calling [OF emits_CreateEventRecorder]]) (auto simp: isfake_def intro!: emits_return)

lemma emits_main_prepare: "emits (main_trace out) (main_prepare out)"
proof -
  have "emits (connected_trace out config) (and_then (kube_config out config) (\<lambda>kubeConfig.
      and_then (kube_client out kubeConfig) (\<lambda>client.
      and_then (load_config out) (\<lambda>_.
      and_then (calling CAWS (main_startup (awsLib out) (flags.truncate config))) (\<lambda>program. do {
        rec \<leftarrow> calling CRecorder (CreateEventRecorder (recorderLib out) (UnifiedClientset client));
        ret (Ok \<lparr>runClient = client, runRecorder = rec, runProgram = program\<rparr>)
      })))))" for config
  proof (cases "ConfigureKubeConfig (inCluster out) (APIServer config) 30")
    case (Inl err)
    then show ?thesis
      by (simp add: kube_config_def defaultClientGOTimeout_def and_then_return connected_trace_def emits_return)
  next
    case (Inr kubeConfig)
    have "emits (connected_trace out config) (and_then (kube_client out kubeConfig) (\<lambda>client.
      and_then (load_config out) (\<lambda>_.
      and_then (calling CAWS (main_startup (awsLib out) (flags.truncate config))) (\<lambda>program. do {
        rec \<leftarrow> calling CRecorder (CreateEventRecorder (recorderLib out) (UnifiedClientset client));
        ret (Ok \<lparr>runClient = client, runRecorder = rec, runProgram = program\<rparr>)
      }))))"
      unfolding connected_trace_def Inr sum.case loading_trace_def
      by (intro emits_and_then emits_kube_client [OF Inr] emits_load_config emits_recording emits_calling
        emits_main_startup)
    with Inr show ?thesis
      by (simp add: kube_config_def defaultClientGOTimeout_def and_then_return)
  qed
  then show ?thesis
    unfolding main_prepare_def main_trace_def by (intro emits_and_then emits_parse_flags)
qed

text \<open>
  C31: The program starts whole or not at all, and does start if nothing fails.  Its steps come in one
  order: the flags, the log level, the clients, the configuration of the SDK, the base role ARN, the
  recorder.  If it starts, all their calls have succeeded: both controllers are made with the interval,
  limit and namespace of the flags, the getter with the base role ARN of the flag or of the instance
  profile and the prefix of its partition, on clients that share one connection with the configured
  timeout, the recorder on the same Kubernetes client, and without any credentials having been asked
  for.  If it ends instead, then with the message of the step that failed, and that step did fail: the
  library refused the flags, the configuration of the cluster, a client or the SDK's configuration, the
  instance profile could not be had or names no account, or the base role ARN is malformed.  That is the
  last step it takes, and no controller is made; it panics only where a constructor of the client
  libraries does.
\<close>

theorem main_starts_or_stops:
  "emits (main_outcome out) (main_prepare out)"
  using emits_main_prepare main_trace_outcome by (rule emits_mono)

end
