(* ===== verification/AWSIAMRoleRefresh.thy ===== *)
theory AWSIAMRoleRefresh
  imports Examples
begin

text \<open>
  What a refresh of the \<open>AWSIAMRole\<close> controller does to the cluster, proved from its traces: which
  calls it may make, which secrets it deletes, where the data it writes comes from, that every role
  is served, that a settled cluster is left alone, and how it fails.
\<close>

section \<open>The calls it may make\<close>

primrec role_call :: "secret list \<Rightarrow> awsiamrole list \<Rightarrow> call \<Rightarrow> bool" where
  "role_call secrets roles (CNow t) = True"
| "role_call secrets roles (CGetCreds ref d g) =
     (\<exists>r \<in> set roles. ref = RoleReference (Spec r) \<and> d = roleSessionDuration r)"
| "role_call secrets roles (CListSecrets ns sel l) = False"
| "role_call secrets roles (CListRoles ns l) = False"
| "role_call secrets roles (CUpdateSecret ns s' res) =
     (\<exists>s \<in> set secrets. \<exists>r \<in> set roles. \<exists>data. map_key (SecretMeta s) = map_key (RoleMeta r)
        \<and> ns = secret_ns s \<and> s' = renewed r data s)"
| "role_call secrets roles (CCreateSecret ns s' res) =
     (\<exists>r \<in> set roles. \<exists>data. ns = role_ns r \<and> s' = new_secret r data
        \<and> map_key (RoleMeta r) \<notin> (\<lambda>s. map_key (SecretMeta s)) ` set secrets)"
| "role_call secrets roles (CDeleteSecret ns n res) =
     (\<exists>s \<in> set secrets. orphan (roles_map roles) s \<and> ns = secret_ns s \<and> n = secret_name s)"
| "role_call secrets roles (CUpdateStatus ns r' res) =
     (\<exists>r \<in> set roles. \<exists>arn t. ns = role_ns r \<and> r' = with_status r arn t)"
| "role_call secrets roles (CEvent r t reason m) = (r \<in> set roles)"

lemma role_call_intros:
  "role_call secrets roles (CNow t)"
  "r \<in> set roles \<Longrightarrow> role_call secrets roles (asks r g)"
  "s \<in> set secrets \<Longrightarrow> r \<in> set roles \<Longrightarrow> map_key (SecretMeta s) = map_key (RoleMeta r)
    \<Longrightarrow> role_call secrets roles (CUpdateSecret (secret_ns s) (renewed r data s) res)"
  "r \<in> set roles \<Longrightarrow> secrets_map secrets (map_key (RoleMeta r)) = None
    \<Longrightarrow> role_call secrets roles (CCreateSecret (role_ns r) (new_secret r data) crt)"
  "s \<in> set secrets \<Longrightarrow> orphan (roles_map roles) s
    \<Longrightarrow> role_call secrets roles (CDeleteSecret (secret_ns s) (secret_name s) del)"
  "r \<in> set roles \<Longrightarrow> role_call secrets roles (CUpdateStatus (role_ns r) (with_status r arn t) sts)"
  "r \<in> set roles \<Longrightarrow> role_call secrets roles (CEvent r et reason m)"
  by (auto simp: secrets_map_None)

lemma sync_trace_role_call:
  "sync_trace r s cs \<Longrightarrow> r \<in> set roles \<Longrightarrow> list_all (role_call secrets roles) cs"
  by (auto elim!: sync_traceE intro!: role_call_intros simp del: role_call.simps)

lemma due_trace_role_call: "due_trace lim d b cs \<Longrightarrow> list_all (role_call secrets roles) cs"
  by (auto dest!: due_trace_cases)

lemma owned_trace_role_call:
  assumes "owned_trace lim (roles_map roles) s os res cs" and "s \<in> set secrets"
  shows "list_all (role_call secrets roles) cs"
  using assms
  by (auto elim!: owned_traceE dest!: roles_map_SomeD intro!: role_call_intros
    simp: due_trace_role_call simp del: role_call.simps)

lemma reconcile_trace_role_call:
  assumes "reconcile_trace (secrets_map secrets) r res cs" and "r \<in> set roles"
  shows "list_all (role_call secrets roles) cs"
  using assms
  by (auto elim!: reconcile_traceE dest!: secrets_map_SomeD intro!: role_call_intros
    simp: sync_trace_role_call simp del: role_call.simps)

lemma deleted_trace_role_call:
  "deleted_trace s u res cs \<Longrightarrow> s \<in> set secrets \<Longrightarrow> orphan (roles_map roles) s
    \<Longrightarrow> list_all (role_call secrets roles) cs"
  by (auto simp: deleted_trace_def intro!: role_call_intros simp del: role_call.simps)

lemma listed_trace_role_call:
  assumes "listed_trace c secrets roles r cs"
  shows "list_all (role_call secrets roles) cs"
  using assms
proof (cases rule: listed_trace_cases)
  case (crashed m)
  then show ?thesis by (auto elim: loop_trace_all owned_trace_role_call)
next
  case (finished cs1 cs2 cs3)
  have "list_all (role_call secrets roles) cs1"
    using finished(2) by (rule loop_trace_all) (rule owned_trace_role_call)
  moreover have "list_all (role_call secrets roles) cs2"
    using finished(3) by (rule loop_trace_all) (auto intro: deleted_trace_role_call)
  moreover have "list_all (role_call secrets roles) cs3"
    using finished(4) by (rule loop_trace_all) (rule reconcile_trace_role_call)
  ultimately show ?thesis by (simp add: finished(1))
qed

text \<open>
  C4: A refresh asks only for the credentials of listed roles, updates only listed secrets under the
  key of a listed role (with that role's labels, the owner labels and its generation), creates
  secrets only for roles that have none, deletes only orphans, and writes the status and the events
  of listed roles only.  When a list fails it makes no other call and returns the error.
\<close>

theorem AWSIAMRole_refresh_calls:
  "emits (after_listing c (\<lambda>secrets roles r cs. list_all (role_call secrets roles) cs))
    (AWSIAMRole_refresh e c)"
  by (rule emits_refresh) (rule listed_trace_role_call)

section \<open>Orphans\<close>

lemma due_trace_deletions: "due_trace lim d b cs \<Longrightarrow> deletions cs = []"
  by (auto dest!: due_trace_cases)

lemma owned_loop_deletions:
  "loop_trace (owned_trace lim rm) secrets os r cs \<Longrightarrow> deletions cs = []"
  by (induction rule: loop_trace.induct) (auto elim!: owned_traceE simp: due_trace_deletions)

lemma reconcile_loop_deletions:
  "loop_trace (\<lambda>r _. reconcile_trace sm r) roles u r cs \<Longrightarrow> deletions cs = []"
  by (induction rule: loop_trace.induct) (auto elim!: reconcile_traceE sync_traceE)

lemma deleted_loop_deletions:
  "loop_trace deleted_trace ss u r cs \<Longrightarrow> deletions cs = map (\<lambda>s. (secret_ns s, secret_name s)) ss"
  by (induction rule: loop_trace.induct) (auto simp: deleted_trace_def)

lemma listed_trace_deletions:
  assumes "listed_trace c secrets roles r cs"
  shows "deletions cs =
      map (\<lambda>s. (secret_ns s, secret_name s)) (filter (orphan (roles_map roles)) secrets)
    \<or> deletions cs = [] \<and> (\<exists>m. r = Panic m)"
  using assms
proof (cases rule: listed_trace_cases)
  case (crashed m)
  then show ?thesis by (simp add: owned_loop_deletions)
next
  case (finished cs1 cs2 cs3)
  then show ?thesis
    by (simp add: owned_loop_deletions deleted_loop_deletions reconcile_loop_deletions)
qed

text \<open>
  C7: The secrets a refresh deletes are exactly the orphans among the listed secrets, each once and
  in the order of the list, whether or not the other calls succeed; only a panic before the second
  loop leaves them in place.
\<close>

theorem AWSIAMRole_refresh_deletes_orphans:
  "emits (after_listing c (\<lambda>secrets roles r cs.
      deletions cs = map (\<lambda>s. (secret_ns s, secret_name s)) (filter (orphan (roles_map roles)) secrets)
      \<or> deletions cs = [] \<and> (\<exists>m. r = Panic m)))
    (AWSIAMRole_refresh e c)"
  by (rule emits_refresh) (rule listed_trace_deletions)

section \<open>Where the data of a secret comes from\<close>

text \<open>
  A secret that is stored holds the credentials that the call just before it returned for the role
  reference and the session duration of the role of the same namespace and name.
\<close>

definition fed :: "awsiamrole list \<Rightarrow> call option \<Rightarrow> call \<Rightarrow> bool" where
  "fed roles prev c =
     (case stored c of
        None \<Rightarrow> True
      | Some s \<Rightarrow> \<exists>r creds data. r \<in> set roles \<and> map_key (SecretMeta s) = map_key (RoleMeta r)
          \<and> prev = Some (asks r (Ok creds)) \<and> credentials_data creds = Ok (creds, data)
          \<and> Data s = Some (data(awsIAMRoleGenerationKey \<mapsto> show_int (sint (Generation (RoleMeta r))))))"

primrec fed_trace :: "awsiamrole list \<Rightarrow> call option \<Rightarrow> call list \<Rightarrow> bool" where
  "fed_trace roles prev [] = True"
| "fed_trace roles prev (c # cs) = (fed roles prev c \<and> fed_trace roles (Some c) cs)"

lemma fed_any: "fed roles None c \<Longrightarrow> fed roles p c"
  by (auto simp: fed_def split: option.splits)

lemma fed_trace_any: "fed_trace roles None cs \<Longrightarrow> fed_trace roles p cs"
  by (cases cs) (auto intro: fed_any)

lemma fed_trace_append:
  "fed_trace roles p cs \<Longrightarrow> fed_trace roles None ds \<Longrightarrow> fed_trace roles p (cs @ ds)"
  by (induction cs arbitrary: p) (auto intro: fed_trace_any)

lemma credentials_data_fst: "credentials_data creds = Ok (creds', data) \<Longrightarrow> creds' = creds"
  by (auto simp: credentials_data_def)

lemma fed_stored:
  assumes "r \<in> set roles" "credentials_data a = Ok (creds, data)"
  shows "map_key (SecretMeta s) = map_key (RoleMeta r)
      \<Longrightarrow> fed roles (Some (asks r (Ok a))) (CUpdateSecret ns (renewed r data s) res)"
    and "fed roles (Some (asks r (Ok a))) (CCreateSecret ns (new_secret r data) res)"
  using assms credentials_data_fst [OF assms(2)] by (auto simp: fed_def)

lemma fed_other: "stored c = None \<Longrightarrow> fed roles p c"
  by (simp add: fed_def)

lemma owned_trace_fed:
  assumes "owned_trace lim (roles_map roles) s os res cs"
  shows "fed_trace roles None cs"
proof -
  have "fed_trace roles None cs" if "due_trace lim d b cs" for d b cs
    using that by (auto dest!: due_trace_cases simp: fed_other)
  with assms show ?thesis
    by (auto elim!: owned_traceE dest!: roles_map_SomeD intro!: fed_trace_append
      simp: fed_other fed_stored)
qed

lemma sync_trace_fed: "sync_trace r s cs \<Longrightarrow> fed_trace roles p cs"
  by (auto elim!: sync_traceE simp: fed_other)

lemma reconcile_trace_fed:
  assumes "reconcile_trace (secrets_map secrets) r res cs" and "r \<in> set roles"
  shows "fed_trace roles None cs"
  using assms
  by (auto elim!: reconcile_traceE dest!: secrets_map_SomeD
      simp: fed_other fed_stored sync_trace_fed)

lemma loop_trace_fed:
  assumes "loop_trace B xs a r cs"
    and "\<And>x a r cs. x \<in> set xs \<Longrightarrow> B x a r cs \<Longrightarrow> fed_trace roles None cs"
  shows "fed_trace roles None cs"
  using assms by (rule loop_trace_closed) (auto intro: fed_trace_append)

lemma listed_trace_fed:
  assumes "listed_trace c secrets roles r cs"
  shows "fed_trace roles None cs"
  using assms
proof (cases rule: listed_trace_cases)
  case (crashed m)
  then show ?thesis by (auto elim: loop_trace_fed owned_trace_fed)
next
  case (finished cs1 cs2 cs3)
  have "fed_trace roles None cs1"
    using finished(2) by (rule loop_trace_fed) (rule owned_trace_fed)
  moreover have "fed_trace roles None cs2"
    using finished(3) by (rule loop_trace_fed) (auto simp: deleted_trace_def fed_other)
  moreover have "fed_trace roles None cs3"
    using finished(4) by (rule loop_trace_fed) (rule reconcile_trace_fed)
  ultimately show ?thesis by (simp add: finished(1) fed_trace_append)
qed

text \<open>
  C5: Credentials never reach the wrong secret.  Every secret a refresh updates or creates holds the
  data made of the credentials that the call immediately before returned, and that call asked for
  the role reference and session duration of the listed role with the secret's namespace and name;
  the secret records that role's generation.
\<close>

theorem AWSIAMRole_refresh_credentials:
  "emits (after_listing c (\<lambda>secrets roles r cs. fed_trace roles None cs)) (AWSIAMRole_refresh e c)"
  by (rule emits_refresh) (rule listed_trace_fed)

section \<open>Every secret and every role is served\<close>

text \<open>
  What a refresh owes to a role whose secret is to be written: it asks for credentials, and then
  stores them, or warns when it gets none.
\<close>

definition owes_write :: "awsiamrole \<Rightarrow> (string_map \<Rightarrow> error + secret \<Rightarrow> call) \<Rightarrow> call list \<Rightarrow> bool" where
  "owes_write r store cs \<longleftrightarrow> (\<exists>g. asks r g \<in> set cs \<and>
     (case obind g credentials_data of
        Ok (creds, data) \<Rightarrow> \<exists>res. store data res \<in> set cs
      | Err err \<Rightarrow> CEvent r EventTypeWarning ''GetCredentialsFailed''
          (FailedToGetCredentials (RoleReference (Spec r)) err) \<in> set cs
      | Panic m \<Rightarrow> False))"

definition owes_status :: "awsiamrole \<Rightarrow> call list \<Rightarrow> bool" where
  "owes_status r cs \<longleftrightarrow>
     ObservedGeneration (Status r) = Some (Generation (RoleMeta r))
     \<or> (\<exists>m. CEvent r EventTypeWarning ''ReadSecretFailed'' m \<in> set cs)
     \<or> (\<exists>arn t res. CUpdateStatus (role_ns r) (with_status r arn t) res \<in> set cs)"

definition secret_served :: "int64 \<Rightarrow> (string \<rightharpoonup> awsiamrole) \<Rightarrow> call list \<Rightarrow> secret \<Rightarrow> bool" where
  "secret_served lim rm cs s \<longleftrightarrow>
     (if orphan rm s then \<exists>res. CDeleteSecret (secret_ns s) (secret_name s) res \<in> set cs
      else \<exists>r b ds. rm (map_key (SecretMeta s)) = Some r \<and> due_trace lim (Data s) b ds \<and> set ds \<subseteq> set cs
        \<and> (if b then owes_write r (\<lambda>data. CUpdateSecret (secret_ns s) (renewed r data s)) cs
            else True))"

definition role_served :: "(string \<rightharpoonup> secret) \<Rightarrow> call list \<Rightarrow> awsiamrole \<Rightarrow> bool" where
  "role_served sm cs r \<longleftrightarrow>
     (case sm (map_key (RoleMeta r)) of
        None \<Rightarrow> owes_write r (\<lambda>data. CCreateSecret (role_ns r) (new_secret r data)) cs
      | Some s \<Rightarrow> (case getGeneration (Data s) of
            Inl err \<Rightarrow> \<exists>m. CEvent r EventTypeWarning ''ReadSecretFailed'' m \<in> set cs
          | Inr n \<Rightarrow>
              if Generation (RoleMeta r) \<noteq> n
              then owes_write r (\<lambda>data. CUpdateSecret (secret_ns s) (renewed r data s)) cs
              else owes_status r cs))"

lemma owes_write_stored:
  assumes "obind g credentials_data = Ok (creds, data)"
  shows "owes_write r store (pre @ asks r g # store data res # post)"
    and "owes_write r store (asks r g # store data res # post)"
  unfolding owes_write_def using assms by (auto intro!: exI [of _ g] exI [of _ res] simp del: obind_eq_Ok)

lemma owes_write_warned:
  fixes r
  assumes "obind g credentials_data = Err err"
  defines "warning \<equiv> CEvent r EventTypeWarning ''GetCredentialsFailed''
      (FailedToGetCredentials (RoleReference (Spec r)) err)"
  shows "owes_write r store (pre @ asks r g # warning # post)"
    and "owes_write r store (asks r g # warning # post)"
  unfolding owes_write_def warning_def using assms(1) by (auto intro!: exI [of _ g])

lemmas owes_write_intros = owes_write_stored owes_write_warned

lemma owes_write_mono:
  assumes "owes_write r p cs" and "set cs \<subseteq> set ds"
  shows "owes_write r p ds"
proof -
  from assms(1) obtain g where g: "asks r g \<in> set cs" and *: "case obind g credentials_data of
        Ok (creds, data) \<Rightarrow> \<exists>res. p data res \<in> set cs
      | Err err \<Rightarrow> CEvent r EventTypeWarning ''GetCredentialsFailed''
          (FailedToGetCredentials (RoleReference (Spec r)) err) \<in> set cs
      | Panic m \<Rightarrow> False"
    unfolding owes_write_def by blast
  show ?thesis
    unfolding owes_write_def
  proof (intro exI [of _ g] conjI)
    show "asks r g \<in> set ds" using g assms(2) by blast
  qed (use * assms(2) in \<open>cases "obind g credentials_data"; force simp del: obind_eq_Ok\<close>)
qed

lemma owes_status_mono: "owes_status r cs \<Longrightarrow> set cs \<subseteq> set ds \<Longrightarrow> owes_status r ds"
  unfolding owes_status_def by blast

lemma role_served_mono:
  assumes "role_served sm cs r" and "set cs \<subseteq> set ds"
  shows "role_served sm ds r"
  using assms unfolding role_served_def
  by (auto split: option.splits sum.splits if_splits intro: owes_write_mono owes_status_mono)

lemma sync_trace_owes: "sync_trace r s cs \<Longrightarrow> owes_status r cs"
  unfolding owes_status_def by (erule sync_traceE) auto

lemma reconcile_trace_served: "reconcile_trace sm r (Ok u) cs \<Longrightarrow> role_served sm cs r"
proof (induction "Ok u :: unit outcome" cs rule: reconcile_trace.induct)
qed (auto simp: role_served_def sync_trace_owes simp del: obind_eq_Ok intro: owes_write_intros)

lemma owned_trace_served:
  assumes "owned_trace lim rm s os (Ok os') cs" and "\<not> orphan rm s" and "set cs \<subseteq> set ds"
  shows "secret_served lim rm ds s"
proof -
  obtain r where r: "rm (map_key (SecretMeta s)) = Some r"
    using assms(2) by (auto simp: orphan_def split: option.splits)
  have "\<exists>b ts. due_trace lim (Data s) b ts \<and> set ts \<subseteq> set cs
      \<and> (b \<longrightarrow> owes_write r (\<lambda>data. CUpdateSecret (secret_ns s) (renewed r data s)) cs)"
    using assms(1)
  proof (cases rule: owned_trace.cases)
    case orphaned
    with assms(2) show ?thesis by simp
  next
    case (fresh r')
    then show ?thesis by blast
  qed (rule exI [of _ True], rule exI, intro conjI impI, assumption,
      use r in \<open>auto simp del: obind_eq_Ok intro: owes_write_intros\<close>)
  then obtain b ts where due: "due_trace lim (Data s) b ts" and ts: "set ts \<subseteq> set ds"
    and w: "b \<Longrightarrow> owes_write r (\<lambda>data. CUpdateSecret (secret_ns s) (renewed r data s)) ds"
    using assms(3) owes_write_mono [OF _ assms(3)] by blast
  show ?thesis
    unfolding secret_served_def if_not_P [OF assms(2)]
    by (intro exI conjI, rule r, rule due, rule ts) (simp add: w)
qed

lemma listed_trace_served:
  assumes "listed_trace c secrets roles r cs"
  shows "(\<exists>m. r = Panic m) \<or> list_all (secret_served (refreshLimit c) (roles_map roles) cs) secrets
    \<and> list_all (role_served (secrets_map secrets) cs) roles"
  using assms
proof (cases rule: listed_trace_cases)
  case (finished cs1 cs2 cs3)
  have "secret_served (refreshLimit c) (roles_map roles) cs s" if s: "s \<in> set secrets" for s
  proof (cases "orphan (roles_map roles) s")
    case True
    with s have "s \<in> set (filter (orphan (roles_map roles)) secrets)" by simp
    from finished(3) refl this obtain pre cs' post where "cs2 = pre @ cs' @ post"
      "deleted_trace s () (Ok ()) cs'"
      by (rule loop_trace_turn) simp
    with True finished(1) show ?thesis by (auto simp: secret_served_def deleted_trace_def)
  next
    case False
    from finished(2) refl s obtain pre cs' post os os' where "cs1 = pre @ cs' @ post"
      "owned_trace (refreshLimit c) (roles_map roles) s os (Ok os') cs'"
      by (rule loop_trace_turn)
    with False finished(1) show ?thesis by (auto intro: owned_trace_served)
  qed
  moreover have "role_served (secrets_map secrets) cs ro" if "r = Ok ()" and ro: "ro \<in> set roles" for ro
  proof -
    from finished(4) that obtain pre cs' post where "cs3 = pre @ cs' @ post"
      "reconcile_trace (secrets_map secrets) ro (Ok ()) cs'"
      by (rule loop_trace_turn) simp
    with finished(1) show ?thesis by (auto intro: role_served_mono reconcile_trace_served)
  qed
  moreover have "r \<noteq> Err err" for err
    using finished(4) by (rule loop_trace_not_Err) (auto elim: reconcile_traceE)
  ultimately show ?thesis by (cases r) (auto simp: list_all_iff)
qed auto

text \<open>
  C6: No failure keeps a refresh from the other secrets and roles.  Unless it panics, it deletes every
  orphan, asks for new credentials for every owned secret that is due, for every role without a secret
  and for every role whose secret records another generation, stores them or warns that there are
  none, and reports the status of every other role that has not observed its generation.
\<close>

theorem AWSIAMRole_refresh_serves_all:
  "emits (after_listing c (\<lambda>secrets roles r cs.
      (\<exists>m. r = Panic m) \<or> list_all (secret_served (refreshLimit c) (roles_map roles) cs) secrets
        \<and> list_all (role_served (secrets_map secrets) cs) roles))
    (AWSIAMRole_refresh e c)"
  by (rule emits_refresh) (rule listed_trace_served)

section \<open>How it fails\<close>

lemma credentials_data_no_Panic: "credentials_data creds \<noteq> Panic m"
  by (auto simp: credentials_data_def marshal_process_credentials_def format_strict_nano_def
    obind_eq_Panic split: prod.split)

definition panicked :: "unit outcome \<Rightarrow> call list \<Rightarrow> bool" where
  "panicked r cs \<longleftrightarrow> (\<exists>m pre ref d. r = Panic m \<and> cs = pre @ [CGetCreds ref d (Panic m)])"

lemma panicked_append: "panicked r ds \<Longrightarrow> panicked r (cs @ ds)"
  unfolding panicked_def by (metis append.assoc)

lemma asks_Panic:
  assumes "obind g credentials_data = Panic m"
  shows "g = Panic m"
  using assms by (auto simp: obind_eq_Panic credentials_data_no_Panic)

lemma owned_trace_panics:
  assumes "owned_trace lim rm s os (Panic m) cs"
  shows "panicked (Panic m) cs"
  using assms
proof (cases rule: owned_trace.cases)
  case (crashed r ds g)
  then show ?thesis unfolding panicked_def by (blast dest: asks_Panic)
qed

lemma reconcile_trace_panics:
  assumes "reconcile_trace sm r (Panic m) cs"
  shows "panicked (Panic m) cs"
  using assms
proof (cases rule: reconcile_trace.cases)
  case crashed
  then show ?thesis unfolding panicked_def by (metis asks_Panic append_Nil)
next
  case crashed_new
  then show ?thesis unfolding panicked_def by (metis asks_Panic append_Nil)
qed

lemma listed_trace_failures:
  assumes "listed_trace c secrets roles r cs"
  shows "r = Ok () \<or> panicked r cs"
  using assms
proof (cases rule: listed_trace_cases)
  case (crashed m)
  from crashed(2) refl obtain s pre cs' os where "cs = pre @ cs'"
    "owned_trace (refreshLimit c) (roles_map roles) s os (Panic m) cs'"
    by (rule loop_trace_Panic)
  then show ?thesis by (simp add: crashed(1) owned_trace_panics panicked_append)
next
  case (finished cs1 cs2 cs3)
  have "r \<noteq> Err err" for err
    using finished(4) by (rule loop_trace_not_Err) (auto elim: reconcile_traceE)
  moreover have "panicked r cs" if m: "r = Panic m" for m
  proof -
    from finished(4) m obtain ro pre cs' where "cs3 = pre @ cs'"
      "reconcile_trace (secrets_map secrets) ro (Panic m) cs'"
      by (rule loop_trace_Panic)
    then show ?thesis by (simp add: m finished(1) reconcile_trace_panics panicked_append)
  qed
  ultimately show ?thesis by (cases r) auto
qed

text \<open>
  Once both lists succeed, a refresh returns no error: every failure of a single call is handled
  where it occurs.  The only other way out is a panic of the credentials getter, which ends the
  refresh at that very call.
\<close>

theorem AWSIAMRole_refresh_failures:
  "emits (after_listing c (\<lambda>secrets roles r cs. r = Ok () \<or> panicked r cs)) (AWSIAMRole_refresh e c)"
  by (rule emits_refresh) (rule listed_trace_failures)

section \<open>Where the answers come from\<close>

primrec answered :: "'w env \<Rightarrow> call \<Rightarrow> bool" where
  "answered e (CNow t) = True"
| "answered e (CGetCreds ref d g) = (\<exists>w w'. GetCreds e ref d w = (g, w'))"
| "answered e (CListSecrets ns sel l) = True"
| "answered e (CListRoles ns l) = True"
| "answered e (CUpdateSecret ns s res) = True"
| "answered e (CCreateSecret ns s res) = True"
| "answered e (CDeleteSecret ns n res) = True"
| "answered e (CUpdateStatus ns r res) = True"
| "answered e (CEvent r t reason m) = True"

lemma policy_answered_creds: "policy (answered e) (\<lambda>_. True) (get_creds e ref d)"
  unfolding get_creds_def by (rule policy_perform) auto

lemma policy_answered_sync: "policy (answered e) (\<lambda>_. True) (sync_status e r s)"
  unfolding sync_status_def by (auto intro!: policy_intros policy_calls split: option.split)

lemma policy_answered_owned: "policy (answered e) (\<lambda>_. True) (refresh_owned e c rm s os)"
  unfolding refresh_owned_def AWSIAMRole_getCreds_def
  by (auto intro!: policy_intros policy_answered_creds policy_calls policy_refresh_due
    split: option.split outcome.split sum.split)

lemma policy_answered_reconcile: "policy (answered e) (\<lambda>_. True) (reconcile_role e sm r u)"
  unfolding reconcile_role_def renew_outdated_def provision_def AWSIAMRole_getCreds_def
  by (auto intro!: policy_intros policy_answered_creds policy_answered_sync policy_calls
    split: option.split outcome.split sum.split)

lemma policy_answered_delete: "policy (answered e) (\<lambda>_. True) (delete_orphan e s u)"
  unfolding delete_orphan_def by (auto intro!: policy_intros policy_calls)

lemma policy_answered: "policy (answered e) (\<lambda>_. True) (refresh_listed e c secrets roles)"
proof -
  note loop = policy_for_range [where R = "\<lambda>_. True", unfolded post_ok_any]
  note seq = policy_and_then [where Q = "\<lambda>_. True" and R = "\<lambda>_. True", unfolded post_ok_any]
  show ?thesis
    unfolding refresh_listed_def
    by (intro seq loop policy_answered_owned policy_answered_delete policy_answered_reconcile TrueI)
qed

lemma emits_answered: "emits (\<lambda>_ cs. list_all (answered e) cs) (refresh_listed e c secrets roles)"
  using policy_answered [of e c secrets roles] by (simp add: policy_def)

lemma emits_refresh_answered:
  assumes "\<And>secrets roles r cs. listed_trace c secrets roles r cs \<Longrightarrow> list_all (answered e) cs
      \<Longrightarrow> P secrets roles r cs"
  shows "emits (after_listing c P) (AWSIAMRole_refresh e c)"
  by (rule emits_after_listing, rule emits_mono [OF emits_conj [OF emits_refresh_listed emits_answered]])
    (blast intro: assms)

lemma too_deep_unserved:
  assumes "GetCreds e = sts_get aws g" and "too_deep g (RoleReference (Spec r))"
    and "list_all (answered e) cs"
  shows "\<not> owes_write r store cs"
  using assms
  by (auto simp: owes_write_def list_all_iff dest!: bspec simp: sts_get_too_deep)

text \<open>
  A role whose credentials are not asked for: its listed secret has its generation or one that cannot be
  read, and belongs to somebody else or was not due when the clock was read.
\<close>

definition left_alone :: "int64 \<Rightarrow> secret list \<Rightarrow> awsiamrole list \<Rightarrow> awsiamrole \<Rightarrow> call list \<Rightarrow> bool" where
  "left_alone lim secrets roles r cs \<longleftrightarrow>
     (\<exists>s. secrets_map secrets (map_key (RoleMeta r)) = Some s
       \<and> (\<forall>n. getGeneration (Data s) = Inr n \<longrightarrow> n = Generation (RoleMeta r))
       \<and> (orphan (roles_map roles) s \<or> (\<exists>t. CNow t \<in> set cs \<and> \<not> due_at lim (Data s) t)))"

lemma unserved_left_alone:
  assumes "list_all (secret_served lim (roles_map roles) cs) secrets" and "role_served (secrets_map secrets) cs r"
    and "roles_map roles (map_key (RoleMeta r)) = Some r" and none: "\<And>store. \<not> owes_write r store cs"
  shows "left_alone lim secrets roles r cs"
proof -
  from assms(2) none obtain s where s: "secrets_map secrets (map_key (RoleMeta r)) = Some s"
    "\<forall>n. getGeneration (Data s) = Inr n \<longrightarrow> n = Generation (RoleMeta r)"
    unfolding role_served_def by (auto split: option.splits sum.splits if_splits)
  have key: "s \<in> set secrets" "map_key (SecretMeta s) = map_key (RoleMeta r)"
    using secrets_map_SomeD [OF s(1)] by simp_all
  with assms(1) have "secret_served lim (roles_map roles) cs s" by (simp add: list_all_iff)
  then have "orphan (roles_map roles) s \<or> (\<exists>t. CNow t \<in> set cs \<and> \<not> due_at lim (Data s) t)"
    using assms(3) none key(2) by (auto simp: secret_served_def due_trace_def split: if_splits)
  with s show ?thesis by (auto simp: left_alone_def)
qed

text \<open>
  C28: One role reference with too many levels takes the whole controller down: with the getter of the
  program, a refresh that lists a role whose ARN leaves no room for its levels in a session name
  panics, whatever else it lists, unless the role has a listed secret that is up to date (of the role's
  generation, or with one that cannot be read) and either not due yet or somebody else's.
\<close>

theorem deep_role_panics:
  assumes "GetCreds e = sts_get aws g" and "too_deep g (RoleReference (Spec r))"
    and "roles_map roles (map_key (RoleMeta r)) = Some r"
  shows "emits (\<lambda>res cs. panicked res cs \<or> left_alone (refreshLimit c) secrets roles r cs)
    (refresh_listed e c secrets roles)"
proof (rule emits_mono [OF emits_conj [OF emits_refresh_listed emits_answered]], elim conjE)
  fix res cs
  assume cs: "listed_trace c secrets roles res cs" and "list_all (answered e) cs"
  with assms(1,2) have none: "\<not> owes_write r store cs" for store
    by (intro too_deep_unserved)
  have listed: "r \<in> set roles" using roles_map_SomeD [OF assms(3)] by simp
  consider "\<exists>m. res = Panic m" | "list_all (secret_served (refreshLimit c) (roles_map roles) cs) secrets"
      "list_all (role_served (secrets_map secrets) cs) roles"
    using listed_trace_served [OF cs] by blast
  then show "panicked res cs \<or> left_alone (refreshLimit c) secrets roles r cs"
  proof cases
    case 1
    then show ?thesis using listed_trace_failures [OF cs] by auto
  next
    case 2
    then show ?thesis
      using unserved_left_alone [OF 2(1) _ assms(3) none] listed by (simp add: list_all_iff)
  qed
qed

theorem deep_role_panics_witness:
  "too_deep example_getter (RoleReference (Spec example_deep_role))
    \<and> emits panicked (refresh_listed example_env (NewAWSIAMRoleController 0 0 []) [] [example_deep_role])"
proof
  show deep: "too_deep example_getter (RoleReference (Spec example_deep_role))"
    by code_simp
  show "emits panicked (refresh_listed example_env (NewAWSIAMRoleController 0 0 []) [] [example_deep_role])"
    using deep_role_panics [where aws = example_aws and e = example_env and secrets = "[]"
        and roles = "[example_deep_role]" and c = "NewAWSIAMRoleController 0 0 []", OF _ deep]
    by (simp add: example_env_def secrets_map_def roles_map_def left_alone_def)
qed

section \<open>A settled cluster\<close>

definition settled_secret :: "(string \<rightharpoonup> awsiamrole) \<Rightarrow> secret \<Rightarrow> bool" where
  "settled_secret rm s \<longleftrightarrow> \<not> orphan rm s \<and> expiry_of (Data s) \<noteq> None"

definition settled_role :: "(string \<rightharpoonup> secret) \<Rightarrow> awsiamrole \<Rightarrow> bool" where
  "settled_role sm r \<longleftrightarrow>
     ObservedGeneration (Status r) = Some (Generation (RoleMeta r))
     \<and> (case sm (map_key (RoleMeta r)) of
          None \<Rightarrow> False
        | Some s \<Rightarrow> getGeneration (Data s) = Inr (Generation (RoleMeta r)))"

definition settled :: "secret list \<Rightarrow> awsiamrole list \<Rightarrow> bool" where
  "settled secrets roles \<longleftrightarrow>
     list_all (settled_secret (roles_map roles)) secrets \<and> list_all (settled_role (secrets_map secrets)) roles"

text \<open>The calls of the first loop on such secrets, up to the first that the clock shows to be due.\<close>

definition clock_only :: "call list \<Rightarrow> bool" where
  "clock_only cs \<longleftrightarrow> (\<exists>ts. cs = map CNow ts)"

definition seen_due :: "int64 \<Rightarrow> secret list \<Rightarrow> call list \<Rightarrow> bool" where
  "seen_due lim secrets cs \<longleftrightarrow> (\<exists>s \<in> set secrets. \<exists>t. CNow t \<in> set cs \<and> due_at lim (Data s) t)"

lemma clock_only_append: "clock_only cs \<Longrightarrow> clock_only ds \<Longrightarrow> clock_only (cs @ ds)"
  unfolding clock_only_def by (metis map_append)

lemma clock_only_Nil [simp]: "clock_only []"
  by (simp add: clock_only_def)

lemma owned_trace_settled:
  assumes "owned_trace lim rm s os r cs" and "settled_secret rm s"
  shows "clock_only cs \<or> seen_due lim [s] cs"
proof -
  have "\<exists>b t ds. due_trace lim (Data s) b [CNow t] \<and> cs = CNow t # ds \<and> (b \<or> ds = [])"
    using assms by (cases rule: owned_trace.cases) (auto simp: settled_secret_def due_trace_def)
  then show ?thesis
    by (auto simp: due_trace_def seen_due_def clock_only_def intro: exI [of _ "[_]"] split: if_splits)
qed

lemma owned_loop_settled:
  assumes "loop_trace (owned_trace lim rm) secrets os r cs" and "list_all (settled_secret rm) secrets"
  shows "clock_only cs \<or> seen_due lim secrets cs"
  using assms
proof (induction)
  case (again s os os' cs secrets r ds)
  then have "clock_only cs \<or> seen_due lim [s] cs" "clock_only ds \<or> seen_due lim secrets ds"
    by (auto dest: owned_trace_settled)
  then show ?case by (auto simp: seen_due_def intro: clock_only_append)
qed (auto dest!: owned_trace_settled simp: seen_due_def)

lemma reconcile_loop_settled:
  assumes "loop_trace (\<lambda>r _. reconcile_trace sm r) roles u r cs" and "list_all (settled_role sm) roles"
  shows "cs = []"
  using assms
  by (induction)
    (auto elim!: reconcile_traceE sync_traceE simp: settled_role_def split: option.splits)

lemma listed_trace_settled:
  assumes "listed_trace c secrets roles r cs" and "settled secrets roles"
  shows "r = Ok () \<and> clock_only cs \<or> seen_due (refreshLimit c) secrets cs"
proof -
  have "clock_only cs \<or> seen_due (refreshLimit c) secrets cs"
    using assms(1)
  proof (cases rule: listed_trace_cases)
    case (crashed m)
    with assms(2) show ?thesis by (auto simp: settled_def dest: owned_loop_settled)
  next
    case (finished cs1 cs2 cs3)
    have "filter (orphan (roles_map roles)) secrets = []"
      using assms(2) by (auto simp: settled_def settled_secret_def list_all_iff filter_empty_conv)
    with finished(3) have "cs2 = []" by (auto elim: loop_trace.cases)
    moreover have "cs3 = []"
      using finished(4) assms(2) by (auto simp: settled_def dest: reconcile_loop_settled)
    ultimately show ?thesis
      using finished(1,2) assms(2) by (auto simp: settled_def dest: owned_loop_settled)
  qed
  moreover have "\<not> panicked r cs" if "clock_only cs"
    using that by (auto simp: panicked_def clock_only_def map_eq_append_conv)
  ultimately show ?thesis using listed_trace_failures [OF assms(1)] by blast
qed

lemma example_settled: "settled [example_secret] [example_role]"
proof -
  have "\<not> orphan [map_key (RoleMeta example_role) \<mapsto> example_role] example_secret"
    by (simp add: orphan_def isOwnedReference_iff example_secret_def)
  moreover have "expiry_of (Data example_secret) = Some example_time"
    by (simp add: expiry_of_def example_secret_def example_data_def key_defs example_expiry)
  moreover have "getGeneration (Data example_secret) = Inr (Generation (RoleMeta example_role))"
    by (simp add: example_secret_def getGeneration_stored)
  moreover have "ObservedGeneration (Status example_role) = Some (Generation (RoleMeta example_role))"
    by (simp add: example_role_def example_meta_def)
  moreover have "map_key (SecretMeta example_secret) = map_key (RoleMeta example_role)"
    by (simp add: example_secret_def)
  ultimately show ?thesis
    by (simp add: settled_def settled_secret_def settled_role_def roles_map_def secrets_map_def)
qed

text \<open>
  C18: A settled cluster is left alone: when every listed secret is owned and has an expiry that
  parses, and every role has a secret of its generation and has observed it, then a refresh succeeds
  and does nothing but read the clock, unless a reading shows some secret to be due.
\<close>

theorem settled_left_alone:
  assumes "settled secrets roles"
  shows "emits (\<lambda>r cs. r = Ok () \<and> clock_only cs \<or> seen_due (refreshLimit c) secrets cs)
    (refresh_listed e c secrets roles)"
  by (rule emits_mono [OF emits_refresh_listed]) (rule listed_trace_settled [OF _ assms])

theorem settled_left_alone_witness:
  "settled [example_secret] [example_role]
    \<and> emits (\<lambda>r cs. r = Ok () \<and> clock_only cs \<or> seen_due 900 [example_secret] cs)
        (refresh_listed example_env (NewAWSIAMRoleController 0 900 []) [example_secret] [example_role])"
  using settled_left_alone [OF example_settled, of "NewAWSIAMRoleController 0 900 []" example_env]
    example_settled
  by (simp add: NewAWSIAMRoleController_def)

end
