(* ===== verification/Cluster.thy ===== *)
theory Cluster
  imports AWSIAMRoleRefresh
begin

text \<open>
  The cluster behind the client, and what repeated refreshes of the \<open>AWSIAMRole\<close> controller make of it.
  The API server is a parameter: \<open>api_step\<close> says what its documentation promises of each call (a list
  shows the objects of the namespace with the labels, a write that succeeds is applied, one that
  fails may or may not have been), and \<open>serves e v\<close> that the environment \<open>e\<close> keeps these promises for
  the cluster \<open>v w\<close> that it shows in the world \<open>w\<close>, while nobody else writes; \<open>serves_by stp\<close> is the
  same for other steps, \<open>shared_step R\<close> among them, in which others act after each call.
\<close>

section \<open>The state\<close>

text \<open>Objects of one kind are told apart by their namespace and their name.\<close>

datatype object_key = Key (key_namespace: string) (key_name: string)

record cluster =
  secrets_in :: "object_key \<rightharpoonup> secret"
  roles_in :: "object_key \<rightharpoonup> awsiamrole"

definition object_key :: "object_meta \<Rightarrow> object_key" where
  "object_key m = Key (Namespace m) (Name m)"

text \<open>Objects are kept under their namespace, a DNS label, and their name.\<close>

definition keyed :: "('a \<Rightarrow> object_meta) \<Rightarrow> (object_key \<rightharpoonup> 'a) \<Rightarrow> bool" where
  "keyed meta m \<longleftrightarrow> (\<forall>k x. m k = Some x \<longrightarrow> object_key (meta x) = k \<and> CHR ''/'' \<notin> set (key_namespace k))"

definition well_formed :: "cluster \<Rightarrow> bool" where
  "well_formed K \<longleftrightarrow> keyed SecretMeta (secrets_in K) \<and> keyed RoleMeta (roles_in K)"

lemma keyedD:
  assumes "keyed meta m" "m k = Some x"
  shows "object_key (meta x) = k" "CHR ''/'' \<notin> set (key_namespace k)"
  using assms by (simp_all only: keyed_def) blast+

lemma keyed_update:
  assumes "keyed meta m" and "m k = Some y" and "object_key (meta x) = k"
  shows "keyed meta (m(k \<mapsto> x))"
  unfolding keyed_def
proof (intro allI impI)
  fix l z
  assume "(m(k \<mapsto> x)) l = Some z"
  then show "object_key (meta z) = l \<and> CHR ''/'' \<notin> set (key_namespace l)"
    using keyedD [OF assms(1)] assms(2,3) by (cases "l = k") simp_all
qed

lemma keyed_delete: "keyed meta m \<Longrightarrow> keyed meta (m(k := None))"
  by (simp add: keyed_def)

lemma slash_free_append:
  assumes "a @ CHR ''/'' # b = c @ CHR ''/'' # d" and "CHR ''/'' \<notin> set a" and "CHR ''/'' \<notin> set c"
  shows "a = c \<and> b = d"
  using assms by (induction a arbitrary: c) (auto simp: Cons_eq_append_conv append_eq_Cons_conv)

text \<open>On such objects the keys \<open>namespace/name\<close> of the code tell the objects apart.\<close>

lemma map_key_eq_iff:
  assumes "CHR ''/'' \<notin> set (Namespace a)" and "CHR ''/'' \<notin> set (Namespace b)"
  shows "map_key a = map_key b \<longleftrightarrow> object_key a = object_key b"
  using assms by (auto simp: map_key_def object_key_def dest: slash_free_append)

section \<open>The API server\<close>

text \<open>A list enumerates a map when it holds its values, one for each key.\<close>

definition enumerates :: "'a list \<Rightarrow> (object_key \<rightharpoonup> 'a) \<Rightarrow> bool" where
  "enumerates xs m \<longleftrightarrow> (\<exists>kvs. distinct (map fst kvs) \<and> map_of kvs = m \<and> xs = map snd kvs)"

definition satisfying :: "('a \<Rightarrow> bool) \<Rightarrow> (object_key \<rightharpoonup> 'a) \<Rightarrow> (object_key \<rightharpoonup> 'a)" where
  "satisfying P m = (\<lambda>k. case m k of None \<Rightarrow> None | Some x \<Rightarrow> if P x then Some x else None)"

text \<open>The empty namespace stands for all of them.\<close>

definition in_namespace :: "string \<Rightarrow> object_meta \<Rightarrow> bool" where
  "in_namespace ns m \<longleftrightarrow> ns = [] \<or> Namespace m = ns"

definition selected :: "string \<Rightarrow> string_map \<Rightarrow> secret \<Rightarrow> bool" where
  "selected ns sel s \<longleftrightarrow> in_namespace ns (SecretMeta s) \<and> sel \<subseteq>\<^sub>m Labels (SecretMeta s)"

text \<open>What the server sets itself in an object that it accepts.\<close>

definition accepted :: "secret \<Rightarrow> secret \<Rightarrow> bool" where
  "accepted s s' \<longleftrightarrow> (\<exists>u v. s' = s\<lparr>SecretMeta := (SecretMeta s)\<lparr>UID := u, ResourceVersion := v\<rparr>\<rparr>)"

text \<open>
  The writes as they are applied.  An update needs an object of that name, a creation needs that there
  is none; a status update changes the status only.
\<close>

inductive applied :: "cluster \<Rightarrow> call \<Rightarrow> cluster \<Rightarrow> bool" where
  updated: "secrets_in K (Key ns (secret_name s)) = Some old \<Longrightarrow> secret_ns s = ns \<Longrightarrow> accepted s s'
    \<Longrightarrow> applied K (CUpdateSecret ns s res) (K\<lparr>secrets_in := (secrets_in K)(Key ns (secret_name s) \<mapsto> s')\<rparr>)"
| created: "secrets_in K (Key ns (secret_name s)) = None \<Longrightarrow> secret_ns s = ns \<Longrightarrow> accepted s s'
    \<Longrightarrow> applied K (CCreateSecret ns s res) (K\<lparr>secrets_in := (secrets_in K)(Key ns (secret_name s) \<mapsto> s')\<rparr>)"
| deleted: "applied K (CDeleteSecret ns n res) (K\<lparr>secrets_in := (secrets_in K)(Key ns n := None)\<rparr>)"
| reported: "roles_in K (Key ns (role_name r)) = Some old \<Longrightarrow> role_ns r = ns
    \<Longrightarrow> applied K (CUpdateStatus ns r res) (K\<lparr>roles_in := (roles_in K)(Key ns (role_name r) \<mapsto>
          old\<lparr>RoleMeta := (RoleMeta old)\<lparr>ResourceVersion := v\<rparr>, Status := Status r\<rparr>)\<rparr>)"

inductive_cases applied_now: "applied K (CNow t) K'"
inductive_cases applied_creds: "applied K (CGetCreds r d g) K'"
inductive_cases applied_list_secrets: "applied K (CListSecrets ns sel l) K'"
inductive_cases applied_list_roles: "applied K (CListRoles ns l) K'"
inductive_cases applied_update: "applied K (CUpdateSecret ns s res) K'"
inductive_cases applied_create: "applied K (CCreateSecret ns s res) K'"
inductive_cases applied_delete: "applied K (CDeleteSecret ns n res) K'"
inductive_cases applied_status: "applied K (CUpdateStatus ns r res) K'"
inductive_cases applied_event: "applied K (CEvent r t reason m) K'"

lemmas applied_elims = applied_now applied_creds applied_list_secrets applied_list_roles applied_update
  applied_create applied_delete applied_status applied_event

primrec answers :: "cluster \<Rightarrow> call \<Rightarrow> bool" where
  "answers K (CNow t) = True"
| "answers K (CGetCreds r d g) = True"
| "answers K (CListSecrets ns sel l) =
     (case l of Inl err \<Rightarrow> True | Inr ss \<Rightarrow> enumerates ss (satisfying (selected ns sel) (secrets_in K)))"
| "answers K (CListRoles ns l) =
     (case l of Inl err \<Rightarrow> True
      | Inr rs \<Rightarrow> enumerates rs (satisfying (\<lambda>r. in_namespace ns (RoleMeta r)) (roles_in K)))"
| "answers K (CUpdateSecret ns s res) = True"
| "answers K (CCreateSecret ns s res) = True"
| "answers K (CDeleteSecret ns n res) = True"
| "answers K (CUpdateStatus ns r res) = True"
| "answers K (CEvent r t reason m) = True"

text \<open>Calls that fail, and writes that do not.\<close>

primrec failed :: "call \<Rightarrow> bool" where
  "failed (CNow t) = False"
| "failed (CGetCreds r d g) = (\<forall>creds. g \<noteq> Ok creds)"
| "failed (CListSecrets ns sel l) = (\<exists>err. l = Inl err)"
| "failed (CListRoles ns l) = (\<exists>err. l = Inl err)"
| "failed (CUpdateSecret ns s res) = (\<exists>err. res = Inl err)"
| "failed (CCreateSecret ns s res) = (\<exists>err. res = Inl err)"
| "failed (CDeleteSecret ns n res) = (res \<noteq> None)"
| "failed (CUpdateStatus ns r res) = (\<exists>err. res = Inl err)"
| "failed (CEvent r t reason m) = False"

primrec wrote :: "call \<Rightarrow> bool" where
  "wrote (CNow t) = False"
| "wrote (CGetCreds r d g) = False"
| "wrote (CListSecrets ns sel l) = False"
| "wrote (CListRoles ns l) = False"
| "wrote (CUpdateSecret ns s res) = (\<exists>s'. res = Inr s')"
| "wrote (CCreateSecret ns s res) = (\<exists>s'. res = Inr s')"
| "wrote (CDeleteSecret ns n res) = (res = None)"
| "wrote (CUpdateStatus ns r res) = (\<exists>r'. res = Inr r')"
| "wrote (CEvent r t reason m) = False"

definition api_step :: "cluster \<Rightarrow> call \<Rightarrow> cluster \<Rightarrow> bool" where
  "api_step K c K' \<longleftrightarrow> answers K c \<and> (applied K c K' \<or> K' = K \<and> \<not> wrote c)"

text \<open>
  Others may act on the cluster between two calls; \<open>R\<close> is what one of their steps may do.  With nobody
  else, \<open>api_step\<close> is all that happens.
\<close>

type_synonym cluster_step = "cluster \<Rightarrow> call \<Rightarrow> cluster \<Rightarrow> bool"

definition shared_step :: "(cluster \<Rightarrow> cluster \<Rightarrow> bool) \<Rightarrow> cluster_step" where
  "shared_step R K c K' \<longleftrightarrow> (\<exists>L. api_step K c L \<and> R\<^sup>*\<^sup>* L K')"

primrec steps :: "cluster_step \<Rightarrow> cluster \<Rightarrow> call list \<Rightarrow> cluster \<Rightarrow> bool" where
  "steps stp K [] K' \<longleftrightarrow> K' = K"
| "steps stp K (c # cs) K' \<longleftrightarrow> (\<exists>L. stp K c L \<and> steps stp L cs K')"

abbreviation api_run :: "cluster \<Rightarrow> call list \<Rightarrow> cluster \<Rightarrow> bool" where
  "api_run \<equiv> steps api_step"

lemma steps_append: "steps stp K (cs @ ds) K' \<longleftrightarrow> (\<exists>L. steps stp K cs L \<and> steps stp L ds K')"
  by (induction cs arbitrary: K) auto

lemma steps_invariant:
  assumes "steps stp K cs K'" and "I K" and "\<And>c L L'. c \<in> set cs \<Longrightarrow> I L \<Longrightarrow> stp L c L' \<Longrightarrow> I L'"
  shows "I K'"
  using assms
proof (induction cs arbitrary: K)
  case (Cons c cs)
  then obtain L where "stp K c L" "steps stp L cs K'" by auto
  moreover from this have "I L" using Cons.prems by (meson list.set_intros(1))
  ultimately show ?case using Cons.IH [of L] Cons.prems(3) by (meson list.set_intros(2))
qed simp

text \<open>One call establishes \<open>G\<close>, and the calls after it keep it.\<close>

lemma steps_establish:
  assumes "steps stp K cs K'" and "c \<in> set cs" and "I K"
    and est: "\<And>L L'. I L \<Longrightarrow> stp L c L' \<Longrightarrow> G L'"
    and inv: "\<And>d L L'. d \<in> set cs \<Longrightarrow> I L \<Longrightarrow> stp L d L' \<Longrightarrow> I L'"
    and keep: "\<And>d L L'. d \<in> set cs \<Longrightarrow> I L \<Longrightarrow> G L \<Longrightarrow> stp L d L' \<Longrightarrow> G L'"
  shows "G K'"
proof -
  from assms(2) obtain xs ys where cs: "cs = xs @ c # ys" by (auto dest: split_list)
  with assms(1) obtain L L' where L: "steps stp K xs L" "stp L c L'" "steps stp L' ys K'"
    by (auto simp: steps_append)
  have "I L"
    using L(1) assms(3) by (rule steps_invariant [where I = I]) (auto simp: cs intro: inv)
  moreover from this have "I L'"
    using L(2) by (rule inv [rotated]) (simp add: cs)
  ultimately have "I L' \<and> G L'"
    using L(2) est by blast
  with L(3) have "I K' \<and> G K'"
    by (rule steps_invariant [where I = "\<lambda>K. I K \<and> G K"]) (auto simp: cs intro: inv keep)
  then show ?thesis ..
qed

section \<open>Environments that serve a cluster\<close>

definition serves_by :: "cluster_step \<Rightarrow> 'w env \<Rightarrow> ('w \<Rightarrow> cluster) \<Rightarrow> bool" where
  "serves_by stp e v \<longleftrightarrow>
     (\<forall>w. stp (v w) (CNow (fst (Now e w))) (v (snd (Now e w))))
     \<and> (\<forall>r d w. stp (v w) (CGetCreds r d (fst (GetCreds e r d w))) (v (snd (GetCreds e r d w))))
     \<and> (\<forall>ns sel w. stp (v w) (CListSecrets ns sel (fst (ListSecrets e ns sel w)))
          (v (snd (ListSecrets e ns sel w))))
     \<and> (\<forall>ns w. stp (v w) (CListRoles ns (fst (ListRoles e ns w))) (v (snd (ListRoles e ns w))))
     \<and> (\<forall>ns s w. stp (v w) (CUpdateSecret ns s (fst (UpdateSecret e ns s w)))
          (v (snd (UpdateSecret e ns s w))))
     \<and> (\<forall>ns s w. stp (v w) (CCreateSecret ns s (fst (CreateSecret e ns s w)))
          (v (snd (CreateSecret e ns s w))))
     \<and> (\<forall>ns n w. stp (v w) (CDeleteSecret ns n (fst (DeleteSecret e ns n w)))
          (v (snd (DeleteSecret e ns n w))))
     \<and> (\<forall>ns r w. stp (v w) (CUpdateStatus ns r (fst (UpdateStatus e ns r w)))
          (v (snd (UpdateStatus e ns r w))))
     \<and> (\<forall>r t reason m w. stp (v w) (CEvent r t reason m) (v (RecordEvent e r t reason m w)))"

abbreviation serves :: "'w env \<Rightarrow> ('w \<Rightarrow> cluster) \<Rightarrow> bool" where
  "serves \<equiv> serves_by api_step"

lemma serves_by_mono:
  assumes "serves_by stp e v" and "\<And>K d K'. stp K d K' \<Longrightarrow> stp' K d K'"
  shows "serves_by stp' e v"
  using assms unfolding serves_by_def by simp

lemma serves_shared: "serves e v \<Longrightarrow> serves_by (shared_step R) e v"
  by (erule serves_by_mono) (auto simp: shared_step_def)

text \<open>What a program does to the cluster is what its calls do.\<close>

definition follows :: "cluster_step \<Rightarrow> ('w \<Rightarrow> cluster) \<Rightarrow> ('w, 'a) ctl \<Rightarrow> bool" where
  "follows stp v m \<longleftrightarrow> (\<forall>s. \<exists>cs. trace (snd (run_state m s)) = trace s @ cs
     \<and> steps stp (v (world s)) cs (v (world (snd (run_state m s)))))"

named_theorems follows_intros

lemma follows_return [follows_intros]: "follows stp v (ret a)"
  by (simp add: follows_def)

lemma follows_perform:
  assumes "\<And>w. stp (v w) (log (fst (f w))) (v (snd (f w)))"
  shows "follows stp v (perform f log)"
  using assms by (simp add: follows_def)

lemma follows_bind [follows_intros]:
  assumes "follows stp v m" and "\<And>a. follows stp v (f a)"
  shows "follows stp v (m \<bind> f)"
  unfolding follows_def
proof
  fix s
  obtain a s' where m: "run_state m s = (a, s')" by fastforce
  from assms(1) obtain cs where cs: "trace s' = trace s @ cs" "steps stp (v (world s)) cs (v (world s'))"
    unfolding follows_def by (metis m snd_conv)
  from assms(2) obtain ds where ds: "trace (snd (run_state (f a) s')) = trace s' @ ds"
    "steps stp (v (world s')) ds (v (world (snd (run_state (f a) s'))))"
    unfolding follows_def by blast
  from cs ds show "\<exists>cs. trace (snd (run_state (m \<bind> f) s)) = trace s @ cs
      \<and> steps stp (v (world s)) cs (v (world (snd (run_state (m \<bind> f) s))))"
    by (intro exI [of _ "cs @ ds"]) (auto simp: m steps_append)
qed

lemma follows_for_range [follows_intros]:
  assumes "\<And>x a. follows stp v (body x a)"
  shows "follows stp v (for_range body xs a)"
proof (induction xs arbitrary: a)
  case (Cons x xs)
  show ?case
    unfolding for_range.simps
    by (intro follows_bind assms) (simp add: Cons.IH follows_return split: outcome.split)
qed (simp add: follows_return)

lemma follows_and_then [follows_intros]:
  assumes "follows stp v m" and "\<And>a. follows stp v (f a)"
  shows "follows stp v (and_then m f)"
  unfolding and_then_def
  by (intro follows_bind assms) (simp add: assms(2) follows_return split: outcome.split)

lemma follows_calls:
  assumes "serves_by stp e v"
  shows "follows stp v (now e)" "follows stp v (get_creds e ref d)" "follows stp v (list_secrets e ns sel)"
    "follows stp v (list_roles e ns)" "follows stp v (update_secret e ns s)" "follows stp v (create_secret e ns s)"
    "follows stp v (delete_secret e ns n)" "follows stp v (update_status e ns r)"
    "follows stp v (event e r t reason m)"
  using assms by (simp_all add: serves_by_def call_defs follows_perform)

lemma follows_refresh_listed:
  assumes "serves_by stp e v"
  shows "follows stp v (refresh_listed e c secrets roles)"
proof -
  note calls = follows_calls [OF assms]
  have sync: "follows stp v (sync_status e r s)" for r s
    unfolding sync_status_def by (auto intro!: follows_intros calls split: option.split)
  have owned: "follows stp v (refresh_owned e c rm s os)" for rm s os
    unfolding refresh_owned_def AWSIAMRole_getCreds_def refresh_due_def
    by (auto intro!: follows_intros calls split: option.split outcome.split sum.split)
  have reconciled: "follows stp v (reconcile_role e sm r u)" for sm r u
    unfolding reconcile_role_def renew_outdated_def provision_def AWSIAMRole_getCreds_def
    by (auto intro!: follows_intros calls sync split: option.split outcome.split sum.split)
  have deleted: "follows stp v (delete_orphan e s u)" for s u
    unfolding delete_orphan_def by (intro follows_intros calls)
  show ?thesis
    unfolding refresh_listed_def by (intro follows_intros owned reconciled deleted)
qed

lemma follows_refresh:
  assumes "serves_by stp e v"
  shows "follows stp v (AWSIAMRole_refresh e c)"
  unfolding AWSIAMRole_refresh_def
  by (auto intro!: follows_intros follows_calls [OF assms] follows_refresh_listed [OF assms] split: sum.split)

text \<open>A run of a refresh: its calls, what they are, and what they make of the cluster.\<close>

lemma refresh_run:
  assumes "serves_by stp e v" and "emits (after_listing c P) (AWSIAMRole_refresh e c)"
    and "run_state (AWSIAMRole_refresh e c) s = (r, s')"
  obtains cs where "trace s' = trace s @ cs" "after_listing c P r cs"
    "steps stp (v (world s)) cs (v (world s'))"
proof -
  from assms(2) obtain cs where cs: "trace s' = trace s @ cs" "after_listing c P r cs"
    by (rule emitsD [where s = s]) (simp add: assms(3))
  from follows_refresh [OF assms(1), of c] obtain ds where "trace s' = trace s @ ds"
    "steps stp (v (world s)) ds (v (world s'))"
    unfolding follows_def by (metis assms(3) snd_conv)
  with cs show thesis by (auto intro: that)
qed

end
