(* ===== verification/MemoryCluster.thy ===== *)
theory MemoryCluster
  imports Cluster "HOL-Library.AList"
begin

text \<open>
  A cluster in memory: an environment that keeps secrets and roles in association lists and answers
  every call as an API server does, so that the properties of whole clusters can be applied to it.
\<close>

record store =
  stored_secrets :: "(object_key \<times> secret) list"
  stored_roles :: "(object_key \<times> awsiamrole) list"

definition contents :: "store \<Rightarrow> cluster" where
  "contents w = \<lparr>secrets_in = map_of (stored_secrets w), roles_in = map_of (stored_roles w)\<rparr>"

definition listing :: "('a \<Rightarrow> bool) \<Rightarrow> (object_key \<times> 'a) list \<Rightarrow> 'a list" where
  "listing P kvs = map snd (filter (\<lambda>(k, x). P x) (AList.clearjunk kvs))"

definition assigned :: "secret \<Rightarrow> secret" where
  "assigned s = s\<lparr>SecretMeta := (SecretMeta s)\<lparr>UID := ''s1'', ResourceVersion := ''2''\<rparr>\<rparr>"

definition put_secret :: "bool \<Rightarrow> string \<Rightarrow> secret \<Rightarrow> store \<Rightarrow> (error + secret) \<times> store" where
  "put_secret exists ns s w =
     (if secret_ns s = ns \<and> (map_of (stored_secrets w) (Key ns (secret_name s)) \<noteq> None) = exists
      then (Inr (assigned s),
            w\<lparr>stored_secrets := AList.update (Key ns (secret_name s)) (assigned s) (stored_secrets w)\<rparr>)
      else (Inl ''the object does not exist or exists already'', w))"

definition put_status :: "string \<Rightarrow> awsiamrole \<Rightarrow> store \<Rightarrow> (error + awsiamrole) \<times> store" where
  "put_status ns r w =
     (case map_of (stored_roles w) (Key ns (role_name r)) of
        None \<Rightarrow> (Inl ''the object does not exist'', w)
      | Some old \<Rightarrow>
          if role_ns r = ns
          then (Inr r, w\<lparr>stored_roles := AList.update (Key ns (role_name r))
                  (old\<lparr>RoleMeta := (RoleMeta old)\<lparr>ResourceVersion := ''2''\<rparr>, Status := Status r\<rparr>)
                  (stored_roles w)\<rparr>)
          else (Inl ''the namespace does not match'', w))"

definition memory_env :: "store env" where
  "memory_env =
     \<lparr>Now = (\<lambda>w. (example_early, w)),
      GetCreds = (\<lambda>ref d w. (Ok example_credentials, w)),
      ListSecrets = (\<lambda>ns sel w. (Inr (listing (selected ns sel) (stored_secrets w)), w)),
      ListRoles = (\<lambda>ns w. (Inr (listing (\<lambda>r. in_namespace ns (RoleMeta r)) (stored_roles w)), w)),
      UpdateSecret = put_secret True,
      CreateSecret = put_secret False,
      DeleteSecret = (\<lambda>ns n w. (None, w\<lparr>stored_secrets := AList.delete (Key ns n) (stored_secrets w)\<rparr>)),
      UpdateStatus = put_status,
      RecordEvent = (\<lambda>r t reason m w. w)\<rparr>"

lemma enumerates_listing: "enumerates (listing P kvs) (satisfying P (map_of kvs))"
proof -
  have "map_of (filter (\<lambda>(k, x). P x) xs) = satisfying P (map_of xs)"
    if "distinct (map fst xs)" for xs :: "(object_key \<times> 'a) list"
    using that
  proof (induction xs)
    case (Cons kx xs)
    then have "map_of xs (fst kx) = None" by (simp add: map_of_eq_None_iff)
    with Cons show ?case
      by (cases kx) (auto simp: satisfying_def fun_eq_iff)
  qed (simp add: satisfying_def)
  from this [OF distinct_clearjunk] show ?thesis
    unfolding enumerates_def listing_def
    by (intro exI [of _ "filter (\<lambda>(k, x). P x) (AList.clearjunk kvs)"])
      (simp add: map_of_clearjunk distinct_map_filter distinct_clearjunk)
qed

lemma accepted_assigned: "accepted s (assigned s)"
  by (auto simp: accepted_def assigned_def)

lemma memory_env_serves: "serves memory_env contents"
proof -
  have secrets: "contents (w\<lparr>stored_secrets := xs\<rparr>) = (contents w)\<lparr>secrets_in := map_of xs\<rparr>" for w xs
    by (simp add: contents_def)
  have roles: "contents (w\<lparr>stored_roles := xs\<rparr>) = (contents w)\<lparr>roles_in := map_of xs\<rparr>" for w xs
    by (simp add: contents_def)
  have put: "secret_ns s = ns \<Longrightarrow> map_of (stored_secrets w) (Key ns (secret_name s)) \<noteq> None
      \<Longrightarrow> applied (contents w) (CUpdateSecret ns s res) ((contents w)\<lparr>secrets_in :=
        (map_of (stored_secrets w))(Key ns (secret_name s) \<mapsto> assigned s)\<rparr>)" for w ns s res
    using applied.updated [of "contents w" ns s _ "assigned s"] by (auto simp: contents_def accepted_assigned)
  have create: "secret_ns s = ns \<Longrightarrow> map_of (stored_secrets w) (Key ns (secret_name s)) = None
      \<Longrightarrow> applied (contents w) (CCreateSecret ns s res) ((contents w)\<lparr>secrets_in :=
        (map_of (stored_secrets w))(Key ns (secret_name s) \<mapsto> assigned s)\<rparr>)" for w ns s res
    using applied.created [of "contents w" ns s "assigned s"] by (auto simp: contents_def accepted_assigned)
  have delete: "applied (contents w) (CDeleteSecret ns n res) ((contents w)\<lparr>secrets_in :=
        (map_of (stored_secrets w))(Key ns n := None)\<rparr>)" for w ns n res
    using applied.deleted [of "contents w" ns n res] by (simp add: contents_def)
  have report: "map_of (stored_roles w) (Key (role_ns r) (role_name r)) = Some old
      \<Longrightarrow> applied (contents w) (CUpdateStatus (role_ns r) r res) ((contents w)\<lparr>roles_in :=
        (map_of (stored_roles w))(Key (role_ns r) (role_name r) \<mapsto>
          old\<lparr>RoleMeta := (RoleMeta old)\<lparr>ResourceVersion := ''2''\<rparr>, Status := Status r\<rparr>)\<rparr>)" for w r old res
    using applied.reported [of "contents w" "role_ns r" r old res "''2''"] by (simp add: contents_def)
  note lists = enumerates_listing [of "selected _ _"] enumerates_listing [of "\<lambda>r. in_namespace _ (RoleMeta r)"]
  show ?thesis
    unfolding serves_by_def memory_env_def api_step_def
    using put create delete report
    by (auto simp: put_secret_def put_status_def secrets roles update_conv' delete_conv' lists
      contents_def split: option.splits)
qed

end
