(* ===== verification/Orphans.thy ===== *)
theory Orphans
  imports MemoryCluster
begin

text \<open>
  What the \<open>AWSIAMRole\<close> controller sees of a cluster when it lists it, the invariants of the cluster
  while it refreshes, and that it collects the orphans.
\<close>

section \<open>What a refresh sees\<close>

lemma enumerates_set: "enumerates xs m \<Longrightarrow> x \<in> set xs \<longleftrightarrow> (\<exists>k. m k = Some x)"
  unfolding enumerates_def by (force dest: map_of_SomeD)

lemma satisfying_Some: "satisfying P m k = Some x \<longleftrightarrow> m k = Some x \<and> P x"
  by (auto simp: satisfying_def split: option.splits if_splits)

lemma keyed_satisfying: "keyed meta m \<Longrightarrow> keyed meta (satisfying P m)"
  unfolding keyed_def satisfying_Some by blast

lemma enumerated:
  assumes "enumerates xs m" and "keyed meta m"
  shows "x \<in> set xs \<longleftrightarrow> m (object_key (meta x)) = Some x"
    and "x \<in> set xs \<Longrightarrow> CHR ''/'' \<notin> set (Namespace (meta x))"
proof -
  show iff: "x \<in> set xs \<longleftrightarrow> m (object_key (meta x)) = Some x"
    using enumerates_set [OF assms(1)] keyedD(1) [OF assms(2)] by blast
  assume "x \<in> set xs"
  with iff have "m (object_key (meta x)) = Some x" by blast
  from keyedD(2) [OF assms(2) this] show "CHR ''/'' \<notin> set (Namespace (meta x))"
    by (simp add: object_key_def)
qed

text \<open>The maps of the code are the cluster as listed.\<close>

lemma enumerated_map:
  assumes "enumerates xs m" and "keyed meta m" and "CHR ''/'' \<notin> set (Namespace om)"
  shows "map_of (rev (map (\<lambda>x. (map_key (meta x), x)) xs)) (map_key om) = m (object_key om)"
proof -
  let ?M = "map_of (rev (map (\<lambda>x. (map_key (meta x), x)) xs))"
  note listed = enumerated [OF assms(1,2)]
  have key: "map_key (meta x) = map_key om \<longleftrightarrow> object_key (meta x) = object_key om" if "x \<in> set xs" for x
    using listed(2) [OF that] assms(3) by (rule map_key_eq_iff)
  show ?thesis
  proof (cases "?M (map_key om)")
    case None
    then have "object_key (meta x) \<noteq> object_key om" if "x \<in> set xs" for x
      using that key [OF that] by (simp add: map_of_eq_None_iff image_image) (metis image_eqI)
    then have "m (object_key om) = None"
      using enumerates_set [OF assms(1)] keyedD(1) [OF assms(2)] by (metis not_None_eq)
    with None show ?thesis by simp
  next
    case (Some x)
    then have "x \<in> set xs" "map_key (meta x) = map_key om" by (auto dest!: map_of_SomeD)
    with key listed(1) have "m (object_key om) = Some x" by metis
    with Some show ?thesis by simp
  qed
qed

definition sees :: "aws_controller \<Rightarrow> secret list \<Rightarrow> awsiamrole list \<Rightarrow> cluster \<Rightarrow> bool" where
  "sees c secrets roles K \<longleftrightarrow>
     enumerates secrets (satisfying (selected (namespace c) awsIAMRoleOwnerLabels) (secrets_in K))
     \<and> enumerates roles (satisfying (\<lambda>r. in_namespace (namespace c) (RoleMeta r)) (roles_in K))"

lemma sees_secret:
  assumes "sees c secrets roles K" and "well_formed K"
  shows "s \<in> set secrets \<longleftrightarrow> secrets_in K (object_key (SecretMeta s)) = Some s
      \<and> selected (namespace c) awsIAMRoleOwnerLabels s"
    and "s \<in> set secrets \<Longrightarrow> CHR ''/'' \<notin> set (secret_ns s)"
    and "CHR ''/'' \<notin> set (Namespace om) \<Longrightarrow> secrets_map secrets (map_key om) =
      satisfying (selected (namespace c) awsIAMRoleOwnerLabels) (secrets_in K) (object_key om)"
proof -
  let ?m = "satisfying (selected (namespace c) awsIAMRoleOwnerLabels) (secrets_in K)"
  have "enumerates secrets ?m" and "keyed SecretMeta ?m"
    using assms by (simp_all add: sees_def well_formed_def keyed_satisfying)
  note listed = enumerated [OF this] enumerated_map [OF this]
  show "s \<in> set secrets \<longleftrightarrow> secrets_in K (object_key (SecretMeta s)) = Some s \<and> selected (namespace c) awsIAMRoleOwnerLabels s"
    using listed(1) by (simp add: satisfying_Some)
  show "s \<in> set secrets \<Longrightarrow> CHR ''/'' \<notin> set (secret_ns s)" by (rule listed(2))
  show "CHR ''/'' \<notin> set (Namespace om) \<Longrightarrow> secrets_map secrets (map_key om) = ?m (object_key om)"
    using listed(3) by (simp add: secrets_map_eq)
qed

lemma sees_role:
  assumes "sees c secrets roles K" and "well_formed K"
  shows "r \<in> set roles \<longleftrightarrow> roles_in K (object_key (RoleMeta r)) = Some r
      \<and> in_namespace (namespace c) (RoleMeta r)"
    and "r \<in> set roles \<Longrightarrow> CHR ''/'' \<notin> set (role_ns r)"
    and "CHR ''/'' \<notin> set (Namespace om) \<Longrightarrow> roles_map roles (map_key om) =
      satisfying (\<lambda>r. in_namespace (namespace c) (RoleMeta r)) (roles_in K) (object_key om)"
proof -
  let ?m = "satisfying (\<lambda>r. in_namespace (namespace c) (RoleMeta r)) (roles_in K)"
  have "enumerates roles ?m" and "keyed RoleMeta ?m"
    using assms by (simp_all add: sees_def well_formed_def keyed_satisfying)
  note listed = enumerated [OF this] enumerated_map [OF this]
  show "r \<in> set roles \<longleftrightarrow> roles_in K (object_key (RoleMeta r)) = Some r \<and> in_namespace (namespace c) (RoleMeta r)"
    using listed(1) by (simp add: satisfying_Some)
  show "r \<in> set roles \<Longrightarrow> CHR ''/'' \<notin> set (role_ns r)" by (rule listed(2))
  show "CHR ''/'' \<notin> set (Namespace om) \<Longrightarrow> roles_map roles (map_key om) = ?m (object_key om)"
    using listed(3) by (simp add: roles_map_eq)
qed

lemma after_listing_run:
  assumes "after_listing c P r cs" and "api_run K cs K'"
  obtains (unlisted) err where "r = Err err" "\<exists>d \<in> set cs. failed d"
  | (listed) secrets roles ds where "sees c secrets roles K" "P secrets roles r ds" "api_run K ds K'"
      "cs = CListSecrets (namespace c) awsIAMRoleOwnerLabels (Inr secrets)
        # CListRoles (namespace c) (Inr roles) # ds"
  using assms
proof (cases rule: after_listing.cases)
  case (listed secrets roles ds)
  with assms(2) have "sees c secrets roles K" "api_run K ds K'"
    by (auto simp: sees_def api_step_def elim!: applied_elims)
  with listed that(2) show thesis by blast
qed (use that(1) in auto)

section \<open>Invariants of a refresh\<close>

text \<open>The role of the cluster is the listed one, up to its resource version and its status.\<close>

definition same_role :: "awsiamrole \<Rightarrow> awsiamrole \<Rightarrow> bool" where
  "same_role r r' \<longleftrightarrow> RoleTypeMeta r' = RoleTypeMeta r \<and> Spec r' = Spec r
     \<and> (\<exists>v. RoleMeta r' = (RoleMeta r)\<lparr>ResourceVersion := v\<rparr>)"

lemma same_role_refl: "same_role r r"
  unfolding same_role_def by (metis object_meta.surjective object_meta.update_convs(4))

lemma same_role_update:
  "same_role r old \<Longrightarrow> same_role r (old\<lparr>RoleMeta := (RoleMeta old)\<lparr>ResourceVersion := v\<rparr>, Status := st\<rparr>)"
  by (auto simp: same_role_def)

lemma same_role_sel:
  assumes "same_role r r'"
  shows "object_key (RoleMeta r') = object_key (RoleMeta r)" "owner_ref_of r' = owner_ref_of r"
    "Generation (RoleMeta r') = Generation (RoleMeta r)" "role_ns r' = role_ns r"
  using assms by (auto simp: same_role_def object_key_def owner_ref_of_def)

definition owned_by :: "awsiamrole \<Rightarrow> secret \<Rightarrow> bool" where
  "owned_by r s \<longleftrightarrow> isOwnedReference (RoleTypeMeta r) (RoleMeta r) (OwnerReferences (SecretMeta s))"

lemma owned_by_iff: "owned_by r s \<longleftrightarrow> owner_ref_of r \<in> set (OwnerReferences (SecretMeta s))"
  by (simp add: owned_by_def isOwnedReference_iff)

text \<open>
  While a refresh runs, the cluster stays well-formed, the listed roles stay what they are, and every
  watched secret has the owners of the listed secret of its name, or is owned by the listed role of
  its name.
\<close>

definition kept :: "aws_controller \<Rightarrow> secret list \<Rightarrow> awsiamrole list \<Rightarrow> cluster \<Rightarrow> bool" where
  "kept c secrets roles K \<longleftrightarrow> well_formed K
     \<and> (\<forall>r \<in> set roles. \<exists>r'. roles_in K (object_key (RoleMeta r)) = Some r' \<and> same_role r r')
     \<and> (\<forall>r k. roles_in K k = Some r \<and> in_namespace (namespace c) (RoleMeta r)
          \<longrightarrow> (\<exists>r0 \<in> set roles. same_role r0 r))
     \<and> (\<forall>k s. secrets_in K k = Some s \<and> selected (namespace c) awsIAMRoleOwnerLabels s \<longrightarrow>
          (\<exists>s0 \<in> set secrets. object_key (SecretMeta s0) = k
             \<and> OwnerReferences (SecretMeta s) = OwnerReferences (SecretMeta s0))
          \<or> (\<exists>r \<in> set roles. object_key (RoleMeta r) = k \<and> owned_by r s))"

lemma kept_init:
  assumes "sees c secrets roles K" and "well_formed K"
  shows "kept c secrets roles K"
proof -
  have "\<exists>r0 \<in> set roles. same_role r0 r"
    if "roles_in K k = Some r" "in_namespace (namespace c) (RoleMeta r)" for r k
    using that assms(2) sees_role(1) [OF assms] keyedD(1) same_role_refl
    unfolding well_formed_def by metis
  moreover have "s \<in> set secrets \<and> object_key (SecretMeta s) = k"
    if "secrets_in K k = Some s" "selected (namespace c) awsIAMRoleOwnerLabels s" for s k
    using that assms(2) sees_secret(1) [OF assms] keyedD(1)
    unfolding well_formed_def by metis
  ultimately show ?thesis
    unfolding kept_def using assms(2) sees_role(1) [OF assms] same_role_refl by blast
qed

lemma accepted_sel:
  assumes "accepted s s'"
  shows "object_key (SecretMeta s') = object_key (SecretMeta s)" "secret_ns s' = secret_ns s"
    "Labels (SecretMeta s') = Labels (SecretMeta s)" "Data s' = Data s"
    "OwnerReferences (SecretMeta s') = OwnerReferences (SecretMeta s)"
  using assms by (auto simp: accepted_def object_key_def)

lemma renewed_sel:
  "object_key (SecretMeta (renewed r data s)) = object_key (SecretMeta s)"
  "Name (SecretMeta (renewed r data s)) = secret_name s"
  "Namespace (SecretMeta (renewed r data s)) = secret_ns s"
  by (simp_all add: renewed_def object_key_def)

lemma new_secret_sel:
  "object_key (SecretMeta (new_secret r data)) = object_key (RoleMeta r)"
  "Name (SecretMeta (new_secret r data)) = role_name r"
  "Namespace (SecretMeta (new_secret r data)) = role_ns r"
  by (simp_all add: new_secret_def object_key_def)

text \<open>The calls of a refresh, as changes of the cluster that keeps the invariant.\<close>

inductive change :: "secret list \<Rightarrow> awsiamrole list \<Rightarrow> cluster \<Rightarrow> call \<Rightarrow> cluster \<Rightarrow> bool"
  for secrets roles K where
  nothing: "\<not> wrote d \<Longrightarrow> change secrets roles K d K"
| renewal: "s \<in> set secrets \<Longrightarrow> r \<in> set roles \<Longrightarrow> map_key (SecretMeta s) = map_key (RoleMeta r)
    \<Longrightarrow> secrets_in K (object_key (SecretMeta s)) = Some old \<Longrightarrow> accepted (renewed r data s) s'
    \<Longrightarrow> change secrets roles K (CUpdateSecret ns (renewed r data s) res)
      (K\<lparr>secrets_in := (secrets_in K)(object_key (SecretMeta s) \<mapsto> s')\<rparr>)"
| creation: "r \<in> set roles \<Longrightarrow> map_key (RoleMeta r) \<notin> (\<lambda>s. map_key (SecretMeta s)) ` set secrets
    \<Longrightarrow> accepted (new_secret r data) s' \<Longrightarrow> secrets_in K (object_key (RoleMeta r)) = None
    \<Longrightarrow> change secrets roles K (CCreateSecret ns (new_secret r data) res)
      (K\<lparr>secrets_in := (secrets_in K)(object_key (RoleMeta r) \<mapsto> s')\<rparr>)"
| deletion: "s \<in> set secrets \<Longrightarrow> orphan (roles_map roles) s
    \<Longrightarrow> change secrets roles K (CDeleteSecret ns n res)
      (K\<lparr>secrets_in := (secrets_in K)(object_key (SecretMeta s) := None)\<rparr>)"
| report: "r \<in> set roles \<Longrightarrow> roles_in K (object_key (RoleMeta r)) = Some old
    \<Longrightarrow> change secrets roles K (CUpdateStatus ns (with_status r arn t) res)
      (K\<lparr>roles_in := (roles_in K)(object_key (RoleMeta r) \<mapsto>
         old\<lparr>RoleMeta := (RoleMeta old)\<lparr>ResourceVersion := v\<rparr>, Status := Status (with_status r arn t)\<rparr>)\<rparr>)"

lemma api_step_change:
  assumes "api_step K d K'" and "role_call secrets roles d"
  shows "change secrets roles K d K'"
proof (cases "applied K d K'")
  case False
  with assms(1) show ?thesis by (auto simp: api_step_def intro: change.nothing)
next
  case True
  then show ?thesis
  proof (cases rule: applied.cases)
    case (updated ns s' old s'' res)
    with assms(2) show ?thesis
      by (auto simp: renewed_sel simp flip: object_key_def
        intro!: change.renewal [where secrets = secrets and roles = roles])
  next
    case (created ns s' s'' res)
    with assms(2) show ?thesis
      by (auto simp: new_secret_sel simp flip: object_key_def intro!: change.creation)
  next
    case (deleted ns n res)
    with assms(2) show ?thesis
      by (auto simp flip: object_key_def intro!: change.deletion)
  next
    case (reported ns r old res v)
    with assms(2) show ?thesis
      by (auto simp flip: object_key_def intro!: change.report)
  qed
qed

lemma listed_trace_change:
  assumes "listed_trace c secrets roles r cs" and "d \<in> set cs" and "api_step K d K'"
  shows "change secrets roles K d K'"
  using assms listed_trace_role_call [OF assms(1)] by (intro api_step_change) (simp_all add: list_all_iff)

lemma well_formed_change:
  assumes "change secrets roles K d K'" and "well_formed K"
    and "\<And>r. r \<in> set roles \<Longrightarrow> CHR ''/'' \<notin> set (role_ns r)"
  shows "well_formed K'"
  using assms(1)
proof (cases rule: change.cases)
  case (renewal s r old data s' ns res)
  with assms(2) show ?thesis
    by (simp add: well_formed_def keyed_update accepted_sel renewed_sel)
next
  case (creation r data s' ns res)
  then have "keyed SecretMeta (secrets_in K')"
    using assms(2,3) by (auto simp: well_formed_def keyed_def accepted_sel new_secret_sel)
        (simp add: object_key_def)
  with creation assms(2) show ?thesis by (simp add: well_formed_def)
next
  case (deletion s ns n res)
  with assms(2) show ?thesis by (simp add: well_formed_def keyed_delete)
next
  case (report r old ns arn t res v)
  have "object_key (RoleMeta old) = object_key (RoleMeta r)"
    using assms(2) report(4) unfolding well_formed_def by (blast dest: keyedD(1))
  then have "object_key ((RoleMeta old)\<lparr>ResourceVersion := v\<rparr>) = object_key (RoleMeta r)"
    by (simp add: object_key_def)
  with report assms(2) show ?thesis by (simp add: well_formed_def keyed_update)
qed (use assms(2) in simp)

lemma kept_change:
  assumes "change secrets roles K d K'" and "kept c secrets roles K"
    and "\<And>r. r \<in> set roles \<Longrightarrow> CHR ''/'' \<notin> set (role_ns r)"
  shows "kept c secrets roles K'"
proof -
  have wf: "well_formed K'"
    using assms well_formed_change by (auto simp: kept_def)
  note k = assms(2) [unfolded kept_def]
  show ?thesis
    using assms(1)
  proof (cases rule: change.cases)
    case nothing
    with assms(2) show ?thesis by simp
  next
    case (renewal s r old data s' ns res)
    have "OwnerReferences (SecretMeta s') = OwnerReferences (SecretMeta s)"
      using renewal(7) by (simp add: accepted_sel)
    with wf k renewal(2,3) show ?thesis unfolding kept_def by auto
  next
    case (creation r data s' ns res)
    have "owned_by r s'"
      using creation(5) by (simp add: owned_by_iff accepted_sel)
    with wf k creation(2,3) show ?thesis unfolding kept_def by auto
  next
    case (deletion s ns n res)
    with wf k show ?thesis unfolding kept_def by auto
  next
    case (report r old ns arn t res v)
    let ?new = "old\<lparr>RoleMeta := (RoleMeta old)\<lparr>ResourceVersion := v\<rparr>, Status := Status (with_status r arn t)\<rparr>"
    have "\<exists>r'. roles_in K' (object_key (RoleMeta q)) = Some r' \<and> same_role q r'" if q: "q \<in> set roles" for q
    proof -
      obtain q' where q': "roles_in K (object_key (RoleMeta q)) = Some q'" "same_role q q'"
        using q k by blast
      show ?thesis
      proof (cases "object_key (RoleMeta q) = object_key (RoleMeta r)")
        case True
        with q' report(4) have "same_role q old" by simp
        with True report(2) show ?thesis by (simp add: same_role_update)
      qed (use q' report(2) in simp)
    qed
    moreover have "\<exists>r0 \<in> set roles. same_role r0 q"
      if "roles_in K' l = Some q" "in_namespace (namespace c) (RoleMeta q)" for q l
    proof (cases "l = object_key (RoleMeta r)")
      case True
      with that report(2) have "q = ?new" by simp
      moreover from this have "in_namespace (namespace c) (RoleMeta old)"
        using that(2) by (simp add: in_namespace_def)
      ultimately show ?thesis using k report(4) by (blast intro: same_role_update)
    qed (use that k report(2) in auto)
    moreover have "secrets_in K' = secrets_in K" using report(2) by simp
    ultimately show ?thesis
      using wf k unfolding kept_def by auto
  qed
qed

text \<open>A listed secret that is gone stays gone.\<close>

lemma gone_change:
  assumes "change secrets roles K d K'" and "s \<in> set secrets" and "secrets_in K (object_key (SecretMeta s)) = None"
  shows "secrets_in K' (object_key (SecretMeta s)) = None"
  using assms by (cases rule: change.cases) (auto simp: map_key_def object_key_def image_iff)

section \<open>Orphans are collected\<close>

definition collected :: "aws_controller \<Rightarrow> cluster \<Rightarrow> bool" where
  "collected c K \<longleftrightarrow> (\<forall>k s. secrets_in K k = Some s \<and> selected (namespace c) awsIAMRoleOwnerLabels s
     \<longrightarrow> (\<exists>r. roles_in K k = Some r \<and> owned_by r s))"

definition deletes_ok :: "call list \<Rightarrow> bool" where
  "deletes_ok cs \<longleftrightarrow> list_all (\<lambda>d. deletion d \<noteq> None \<longrightarrow> \<not> failed d) cs"

lemma owned_by_same:
  assumes "same_role r r'" and "OwnerReferences (SecretMeta s) = OwnerReferences (SecretMeta s')"
  shows "owned_by r' s \<longleftrightarrow> owned_by r s'"
  using assms by (simp add: owned_by_iff same_role_sel)

lemma orphan_key:
  assumes "sees c secrets roles K" and "well_formed K" and "s \<in> set secrets"
  shows "\<not> orphan (roles_map roles) s \<longleftrightarrow>
    (\<exists>r \<in> set roles. object_key (RoleMeta r) = object_key (SecretMeta s) \<and> owned_by r s)"
proof -
  have "r \<in> set roles \<and> object_key (RoleMeta r) = object_key (SecretMeta s)
      \<longleftrightarrow> roles_map roles (map_key (SecretMeta s)) = Some r" for r
  proof -
    have "keyed RoleMeta (roles_in K)" using assms(2) by (simp add: well_formed_def)
    note key = keyedD(1) [OF this]
    show ?thesis
      unfolding sees_role(3) [OF assms(1,2) sees_secret(2) [OF assms]] satisfying_Some
        sees_role(1) [OF assms(1,2)]
      using key by metis
  qed
  then show ?thesis
    unfolding orphan_def owned_by_def
    by (cases "roles_map roles (map_key (SecretMeta s))") (auto, metis)
qed

text \<open>Then no list shows an orphan.\<close>

lemma collected_no_orphan:
  assumes "sees c secrets roles K" and "well_formed K" and "collected c K" and s: "s \<in> set secrets"
  shows "\<not> orphan (roles_map roles) s"
proof -
  from s assms(3) obtain r where r: "roles_in K (object_key (SecretMeta s)) = Some r" "owned_by r s"
    using sees_secret(1) [OF assms(1,2)] unfolding collected_def by blast
  have key: "object_key (RoleMeta r) = object_key (SecretMeta s)"
    using assms(2) r(1) unfolding well_formed_def by (blast dest: keyedD(1))
  moreover have "in_namespace (namespace c) (RoleMeta r)"
    using s sees_secret(1) [OF assms(1,2)] key by (simp add: selected_def in_namespace_def object_key_def)
  ultimately have "r \<in> set roles" using sees_role(1) [OF assms(1,2)] r by simp
  with orphan_key [OF assms(1,2) s] r(2) key show ?thesis by blast
qed

lemma kept_collected:
  assumes "sees c secrets roles K" and "well_formed K" and kept: "kept c secrets roles K'"
    and gone: "\<And>s. s \<in> set secrets \<Longrightarrow> orphan (roles_map roles) s \<Longrightarrow> secrets_in K' (object_key (SecretMeta s)) = None"
  shows "collected c K'"
  unfolding collected_def
proof (intro allI impI)
  fix k s
  assume s: "secrets_in K' k = Some s \<and> selected (namespace c) awsIAMRoleOwnerLabels s"
  then have "(\<exists>s0 \<in> set secrets. object_key (SecretMeta s0) = k
       \<and> OwnerReferences (SecretMeta s) = OwnerReferences (SecretMeta s0))
    \<or> (\<exists>r \<in> set roles. object_key (RoleMeta r) = k \<and> owned_by r s)"
    using kept unfolding kept_def by blast
  then have "\<exists>r \<in> set roles. object_key (RoleMeta r) = k \<and> owned_by r s"
  proof
    assume "\<exists>s0 \<in> set secrets. object_key (SecretMeta s0) = k
       \<and> OwnerReferences (SecretMeta s) = OwnerReferences (SecretMeta s0)"
    then obtain s0 where s0: "s0 \<in> set secrets" "object_key (SecretMeta s0) = k"
      "OwnerReferences (SecretMeta s) = OwnerReferences (SecretMeta s0)" by blast
    with gone s have "\<not> orphan (roles_map roles) s0" by fastforce
    with orphan_key [OF assms(1,2) s0(1)] obtain r where
      "r \<in> set roles" "object_key (RoleMeta r) = object_key (SecretMeta s0)" "owned_by r s0" by blast
    with s0 show ?thesis by (auto simp: owned_by_iff)
  qed
  then obtain r where r: "r \<in> set roles" "object_key (RoleMeta r) = k" "owned_by r s" by blast
  with kept obtain r' where "roles_in K' k = Some r'" "same_role r r'"
    unfolding kept_def by blast
  with r(3) show "\<exists>r. roles_in K' k = Some r \<and> owned_by r s"
    using owned_by_same by blast
qed

lemma deletions_memb: "kn \<in> set (deletions cs) \<longleftrightarrow> (\<exists>d \<in> set cs. deletion d = Some kn)"
  by (induction cs) (auto split: option.splits)

lemma listed_trace_gone:
  assumes "listed_trace c secrets roles (Ok ()) cs" and "api_run K cs K'" and "deletes_ok cs"
    and "s \<in> set secrets" and "orphan (roles_map roles) s"
  shows "secrets_in K' (object_key (SecretMeta s)) = None"
proof -
  note change = listed_trace_change [OF assms(1)]
  from assms(4,5) have "(secret_ns s, secret_name s) \<in> set (deletions cs)"
    using listed_trace_deletions [OF assms(1)] by auto
  then obtain d where d: "d \<in> set cs" "deletion d = Some (secret_ns s, secret_name s)"
    by (auto simp: deletions_memb)
  moreover from this assms(3) have "\<not> failed d" by (auto simp: deletes_ok_def list_all_iff)
  ultimately have d': "d = CDeleteSecret (secret_ns s) (secret_name s) None"
    by (cases d rule: call.exhaust) auto
  show ?thesis
    using assms(2) d(1) TrueI
  proof (rule steps_establish [where I = "\<lambda>_. True"])
    fix L L'
    assume "api_step L d L'"
    then show "secrets_in L' (object_key (SecretMeta s)) = None"
      by (auto simp: api_step_def d' object_key_def elim!: applied_elims)
  qed (auto intro: gone_change change assms(4))
qed

lemma listed_trace_collects:
  assumes "listed_trace c secrets roles (Ok ()) cs" and "sees c secrets roles K" and "well_formed K"
    and "api_run K cs K'" and "deletes_ok cs"
  shows "collected c K'" and "kept c secrets roles K'"
proof -
  note slash = sees_role(2) [OF assms(2,3)]
  note change = listed_trace_change [OF assms(1)]
  show kept: "kept c secrets roles K'"
    using assms(4) kept_init [OF assms(2,3)]
    by (rule steps_invariant) (rule kept_change [OF change _ slash])
  note gone = listed_trace_gone [OF assms(1,4,5)]
  show "collected c K'"
    using assms(2,3) kept gone by (rule kept_collected)
qed

lemma refresh_collects:
  assumes "serves e v" and "well_formed (v (world s))" and "run_state (AWSIAMRole_refresh e c) s = (Ok (), s')"
  obtains cs where "trace s' = trace s @ cs"
    "deletes_ok cs \<longrightarrow> well_formed (v (world s')) \<and> collected c (v (world s'))"
proof -
  from assms(1) emits_refresh assms(3) obtain cs where cs: "trace s' = trace s @ cs"
    "after_listing c (listed_trace c) (Ok ()) cs" "api_run (v (world s)) cs (v (world s'))"
    by (rule refresh_run)
  from cs(2,3) have "deletes_ok cs \<longrightarrow> well_formed (v (world s')) \<and> collected c (v (world s'))"
  proof (cases rule: after_listing_run)
    case (listed secrets roles ds)
    then show ?thesis
      using listed_trace_collects [OF listed(2,1) assms(2) listed(3)]
      by (simp add: deletes_ok_def kept_def)
  qed simp
  with cs(1) show thesis by (rule that)
qed

text \<open>
  C8: A refresh whose deletions succeed leaves no orphan behind, whatever else fails: afterwards every
  secret of the namespace with the owner labels is owned by the role of its name.
\<close>

theorem orphans_collected:
  assumes "serves e v" and "well_formed (v (world s))" and "trace s = []"
    and "run_state (AWSIAMRole_refresh e c) s = (Ok (), s')" and "deletes_ok (trace s')"
  shows "collected c (v (world s'))"
proof -
  from assms(1,2,4) obtain cs where "trace s' = trace s @ cs"
    "deletes_ok cs \<longrightarrow> well_formed (v (world s')) \<and> collected c (v (world s'))"
    by (rule refresh_collects)
  with assms(3,5) show ?thesis by simp
qed

text \<open>A secret whose owner was deleted and made anew, with another UID.\<close>

definition example_orphan :: secret where
  "example_orphan = new_secret (example_role\<lparr>RoleMeta := example_meta\<lparr>UID := ''u0''\<rparr>\<rparr>) example_data"

definition example_store :: store where
  "example_store = \<lparr>stored_secrets = [(Key ''default'' ''app'', example_orphan)],
     stored_roles = [(Key ''default'' ''app'', example_role)]\<rparr>"

lemma example_orphan_sel [simp]:
  "object_key (SecretMeta example_orphan) = Key ''default'' ''app''"
  "map_key (SecretMeta example_orphan) = map_key (RoleMeta example_role)"
  "secret_ns example_orphan = ''default''" "secret_name example_orphan = ''app''"
  "getGeneration (Data example_orphan) = Inr 1" "\<not> owned_by example_role example_orphan"
  "selected [] awsIAMRoleOwnerLabels example_orphan"
proof -
  show "object_key (SecretMeta example_orphan) = Key ''default'' ''app''"
    by (simp add: example_orphan_def new_secret_sel object_key_def example_role_def example_meta_def)
  show "map_key (SecretMeta example_orphan) = map_key (RoleMeta example_role)"
    by (simp add: example_orphan_def) (simp add: map_key_def example_role_def example_meta_def)
  show "secret_ns example_orphan = ''default''" "secret_name example_orphan = ''app''"
    by (simp_all add: example_orphan_def new_secret_sel example_role_def example_meta_def)
  show "getGeneration (Data example_orphan) = Inr 1"
    using getGeneration_stored [of example_data 1] by (simp add: example_orphan_def example_meta_def)
  show "\<not> owned_by example_role example_orphan"
    by (simp add: owned_by_def example_orphan_def new_secret_def example_role_def example_meta_def)
  show "selected [] awsIAMRoleOwnerLabels example_orphan"
    by (simp add: selected_def in_namespace_def example_orphan_def new_secret_def mergeLabels_def)
qed

lemma example_role_sel [simp]:
  "object_key (RoleMeta example_role) = Key ''default'' ''app''" "in_namespace [] (RoleMeta example_role)"
  "Generation (RoleMeta example_role) = 1" "ObservedGeneration (Status example_role) = Some 1"
  by (simp_all add: object_key_def example_role_def example_meta_def in_namespace_def)

lemma example_store_well_formed: "well_formed (contents example_store)"
  by (simp add: well_formed_def keyed_def contents_def example_store_def)

abbreviation example_controller :: aws_controller where
  "example_controller \<equiv> NewAWSIAMRoleController 0 900000000000 []"

lemmas evaluation = AWSIAMRole_refresh_def refresh_listed_def and_then_def refresh_owned_def delete_orphan_def
  reconcile_role_def sync_status_def provision_def AWSIAMRole_getCreds_def roles_map_def secrets_map_def
  call_defs NewAWSIAMRoleController_def memory_env_def listing_def owned_by_def [symmetric]

lemma example_first_refresh:
  "run_state (AWSIAMRole_refresh memory_env example_controller) \<lparr>world = example_store, trace = []\<rparr> =
    (Ok (), \<lparr>world = example_store\<lparr>stored_secrets := []\<rparr>, trace =
      [CListSecrets [] awsIAMRoleOwnerLabels (Inr [example_orphan]), CListRoles [] (Inr [example_role]),
       CDeleteSecret ''default'' ''app'' None]\<rparr>)"
  by (simp add: evaluation example_store_def)

theorem orphans_collected_witness:
  "collected example_controller (contents (example_store\<lparr>stored_secrets := []\<rparr>))"
  using orphans_collected [OF memory_env_serves _ _ example_first_refresh] example_store_well_formed
  by (simp add: deletes_ok_def)

end
