(* ===== verification/SecretsRefresh.thy ===== *)
theory SecretsRefresh
  imports SecretsController
begin

text \<open>
  What a refresh of the secrets controller does to the cluster, proved from its traces, and what is
  left of it with the empty role store that the program gives it.
\<close>

section \<open>The temporary store and the cache\<close>

text \<open>Whether a listed secret that nobody owns stands for a role in a namespace.\<close>

definition provided :: "secret list \<Rightarrow> string \<Rightarrow> string \<Rightarrow> bool" where
  "provided secrets role ns \<longleftrightarrow> list_ex (\<lambda>s. unowned s \<and> role_of s = role \<and> secret_ns s = ns) secrets"

definition wanted :: "secrets_controller \<Rightarrow> string \<Rightarrow> string \<Rightarrow> bool" where
  "wanted c role ns \<longleftrightarrow>
     list_ex (\<lambda>(r, nss). r = role \<and> list_ex (\<lambda>(n, pods). n = ns) nss) (Store (roleStore c))"

lemma Exists_wanted: "Exists (roleStore c) role ns \<Longrightarrow> wanted c role ns"
  unfolding Exists_def wanted_def list_ex_iff
  by (force split: option.splits dest!: map_of_SomeD)

lemma wanted_Exists: "store_ok (roleStore c) \<Longrightarrow> wanted c role ns \<longleftrightarrow> Exists (roleStore c) role ns"
proof
  assume ok: "store_ok (roleStore c)" and "wanted c role ns"
  then obtain nss pods where m: "(role, nss) \<in> set (Store (roleStore c))" "(ns, pods) \<in> set nss"
    unfolding wanted_def list_ex_iff by auto
  with ok have "distinct (map fst nss)" "distinct (map fst (Store (roleStore c)))"
    by (auto simp: store_ok_def namespaces_ok_def)
  with m show "Exists (roleStore c) role ns" by (simp add: Exists_def)
qed (rule Exists_wanted)

lemma unowned_trace_no_Err [simp]: "\<not> unowned_trace c s st (Err x) ds"
  by (auto elim: unowned_trace.cases)

lemma unowned_trace_seen:
  assumes "unowned_trace c s st (Ok st') cs"
  shows "snd st' = (if unowned s then seen s st else snd st)"
  using assms by (cases rule: unowned_trace.cases) auto

lemma unowned_loop_seen:
  assumes "loop_trace (unowned_trace c) secrets st r cs" and "r = Ok st'" and "store_ok (snd st)"
  shows "store_ok (snd st') \<and> (\<forall>role ns.
    Exists (snd st') role ns \<longleftrightarrow> provided secrets role ns \<or> Exists (snd st) role ns)"
  using assms
proof (induction)
  case (again s st st1 cs secrets r ds)
  have st1: "store_ok (snd st1)" "Exists (snd st1) role ns \<longleftrightarrow>
      unowned s \<and> role_of s = role \<and> secret_ns s = ns \<or> Exists (snd st) role ns" for role ns
    using unowned_trace_seen [OF again.hyps(1)] again.prems(2)
    by (auto simp: rs.invar_add rs.exists_add)
  show ?case
    using again.IH [OF again.prems(1) st1(1)] by (auto simp: st1(2) provided_def)
qed (auto simp: provided_def)

lemma unowned_loop_provided:
  assumes "loop_trace (unowned_trace c) secrets (cache, NewRoleStore) (Ok st) cs"
  shows "Exists (snd st) role ns \<longleftrightarrow> provided secrets role ns"
  using unowned_loop_seen [OF assms refl] by (simp add: rs.invar_empty rs.exists_empty)

section \<open>The calls it may make\<close>

primrec secrets_call :: "secrets_controller \<Rightarrow> secret list \<Rightarrow> call \<Rightarrow> bool" where
  "secrets_call c secrets (CNow t) = True"
| "secrets_call c secrets (CGetCreds role d g) = (d = oneHour \<and> role \<in> fst ` set (Store (roleStore c)))"
| "secrets_call c secrets (CListSecrets ns sel l) = False"
| "secrets_call c secrets (CListRoles ns l) = False"
| "secrets_call c secrets (CUpdateSecret ns s' res) =
     (\<exists>s \<in> set secrets. \<exists>data. unowned s \<and> used c s \<and> ns = secret_ns s \<and> s' = s\<lparr>Data := Some data\<rparr>)"
| "secrets_call c secrets (CCreateSecret ns s' res) =
     (\<exists>role data. wanted c role ns \<and> \<not> provided secrets role ns \<and> s' = role_secret role ns data)"
| "secrets_call c secrets (CDeleteSecret ns n res) =
     (\<exists>s \<in> set secrets. unowned s \<and> \<not> used c s \<and> ns = secret_ns s \<and> n = secret_name s)"
| "secrets_call c secrets (CUpdateStatus ns r' res) = False"
| "secrets_call c secrets (CEvent r t reason m) = False"

lemma used_in_store: "used c s \<Longrightarrow> role_of s \<in> fst ` set (Store (roleStore c))"
  by (force simp: Exists_def split: option.splits dest!: map_of_SomeD)

lemma unowned_trace_call:
  assumes "unowned_trace c s st r cs" and "s \<in> set secrets"
  shows "list_all (secrets_call c secrets) cs"
proof -
  have "list_all (secrets_call c secrets) ds" if "due_trace lim d b ds" for lim d b ds
    using due_trace_cases [OF that] by auto
  with assms show ?thesis
    by (cases rule: unowned_trace.cases) (auto simp: used_in_store)
qed

lemma wanted_entry:
  "(role, nss) \<in> set (Store (roleStore c)) \<Longrightarrow> (ns, pods) \<in> set nss \<Longrightarrow> wanted c role ns"
  unfolding wanted_def list_ex_iff by (intro bexI [of _ "(role, nss)"]) auto

lemma secrets_call_create:
  "wanted c role ns \<Longrightarrow> \<not> provided secrets role ns
    \<Longrightarrow> secrets_call c secrets (CCreateSecret ns (role_secret role ns data) res)"
  by auto

lemma create_loop_call:
  assumes "loop_trace (create_trace tmp role creds) nss u r cs"
    and "\<And>ns. Exists tmp role ns \<longleftrightarrow> provided secrets role ns"
    and "(role, nss) \<in> set (Store (roleStore c))"
  shows "list_all (secrets_call c secrets) cs"
  using assms(1)
proof (rule loop_trace_all)
  fix entry and u :: unit and r :: "unit outcome" and cs
  assume "entry \<in> set nss" and *: "create_trace tmp role creds entry u r cs"
  then have "wanted c role (fst entry)"
    using wanted_entry [OF assms(3), of "fst entry" "snd entry"] by simp
  with * show "list_all (secrets_call c secrets) cs"
    unfolding create_trace_def assms(2)
    by (auto simp: secrets_call_create simp del: secrets_call.simps split: if_splits)
qed

lemma used_trace_call:
  assumes "used_trace cache tmp entry r cs"
    and "\<And>role ns. Exists tmp role ns \<longleftrightarrow> provided secrets role ns"
    and "entry \<in> set (Store (roleStore c))"
  shows "list_all (secrets_call c secrets) cs"
proof -
  have "list_all (secrets_call c secrets) ds"
    if "loop_trace (create_trace tmp (fst entry) creds) (snd entry) () r ds" for creds ds
    using that assms(2,3) by (intro create_loop_call) auto
  with assms(1,3) show ?thesis
    by (cases rule: used_trace.cases) auto
qed

lemma Secrets_listed_trace_cases [consumes 1, case_names crashed finished]:
  assumes "Secrets_listed_trace c secrets r cs"
  obtains (crashed) m where "r = Panic m"
      "loop_trace (unowned_trace c) secrets (Map.empty, NewRoleStore) (Panic m) cs"
  | (finished) cache tmp cs1 cs2 where "cs = cs1 @ cs2"
      "loop_trace (unowned_trace c) secrets (Map.empty, NewRoleStore) (Ok (cache, tmp)) cs1"
      "\<And>role ns. Exists tmp role ns \<longleftrightarrow> provided secrets role ns"
      "loop_trace (\<lambda>entry _. used_trace cache tmp entry) (Store (roleStore c)) () r cs2"
  using assms unfolding Secrets_listed_trace_def
proof (cases rule: seq_trace.cases)
  case (both st cs1 cs2)
  then show thesis
    using finished [of cs1 cs2 "fst st" "snd st"] unowned_loop_provided by simp
next
  case (returned e)
  with loop_trace_not_Err [OF returned(2) unowned_trace_no_Err, of e] show thesis by simp
qed (rule crashed)

lemma Secrets_listed_trace_call:
  assumes "Secrets_listed_trace c secrets r cs"
  shows "list_all (secrets_call c secrets) cs"
  using assms
proof (cases rule: Secrets_listed_trace_cases)
  case (crashed m)
  then show ?thesis by (auto elim: loop_trace_all unowned_trace_call)
next
  case (finished cache tmp cs1 cs2)
  have "list_all (secrets_call c secrets) cs1"
    using finished(2) by (rule loop_trace_all) (rule unowned_trace_call)
  moreover have "list_all (secrets_call c secrets) cs2"
    using finished(4) by (rule loop_trace_all) (rule used_trace_call [OF _ finished(3)])
  ultimately show ?thesis by (simp add: finished(1))
qed

text \<open>
  C13: A refresh of the secrets controller never touches a secret that has an owner.  It deletes only
  secrets whose role nobody uses in their namespace, changes nothing but the data of those whose role
  is used, creates a secret only for a used role without one in that namespace, and asks only for
  credentials of roles in the store, for one hour.  When the list fails it makes no other call.
\<close>

theorem Secrets_refresh_calls:
  "emits (after_secrets c (\<lambda>secrets r cs. list_all (secrets_call c secrets) cs)) (Secrets_refresh e c)"
  by (rule emits_Secrets_refresh) (rule Secrets_listed_trace_call)

section \<open>Deletions and failures\<close>

abbreviation location :: "secret \<Rightarrow> string \<times> string" where
  "location s \<equiv> (secret_ns s, secret_name s)"

lemma unowned_loop_deletions:
  assumes "loop_trace (unowned_trace c) secrets st r cs"
  shows "deletions cs = map location (filter (\<lambda>s. unowned s \<and> \<not> used c s) secrets) \<or> (\<exists>m. r = Panic m)"
proof -
  have due: "deletions cs = []" if "due_trace lim d b cs" for lim d b cs
    using due_trace_cases [OF that] by auto
  have turn: "deletions cs = (if unowned s \<and> \<not> used c s then [location s] else [])"
    if "unowned_trace c s st r cs" for s st r cs
    using that by (cases rule: unowned_trace.cases) (auto dest: due)
  from assms show ?thesis
    by induction (auto dest: turn)
qed

lemma used_loop_deletions:
  assumes "loop_trace (\<lambda>entry _. used_trace cache tmp entry) st u r cs"
  shows "deletions cs = []"
proof -
  have create: "deletions cs = []" if "loop_trace (create_trace tmp role creds) nss u r cs"
    for role creds nss u r cs
    using that by (rule loop_trace_closed) (auto simp: create_trace_def split: if_splits)
  from assms show ?thesis
    by (rule loop_trace_closed) (auto elim!: used_trace.cases dest: create)
qed

lemma secret_data_no_Panic: "secret_data creds \<noteq> Panic m"
  by (auto simp: secret_data_def marshal_process_credentials_def format_strict_nano_def
    obind_eq_Panic split: prod.split)

lemma asks_role_Panic: "obind g secret_data = Panic m \<Longrightarrow> g = Panic m"
  by (auto simp: obind_eq_Panic secret_data_no_Panic)

lemma used_trace_result:
  assumes "used_trace cache tmp entry r cs"
  shows "r = Ok () \<or> (\<exists>m. r = Panic m \<and> asks_role (fst entry) (Panic m) = last cs \<and> cs \<noteq> [])"
proof -
  have "r = Ok ()" if "loop_trace (create_trace tmp role creds) nss u r cs" for role creds nss u r cs
    using that by induction (auto simp: create_trace_def)
  with assms show ?thesis
    by (cases rule: used_trace.cases) (auto dest: asks_role_Panic)
qed

lemma Secrets_listed_trace_result:
  assumes "Secrets_listed_trace c secrets r cs"
  shows "r = Ok () \<or> (\<exists>m role. r = Panic m \<and> cs \<noteq> [] \<and> last cs = asks_role role (Panic m))"
  using assms
proof (cases rule: Secrets_listed_trace_cases)
  case (crashed m)
  from crashed(2) refl obtain s pre cs' st where "cs = pre @ cs'" "unowned_trace c s st (Panic m) cs'"
    by (rule loop_trace_Panic)
  moreover from this(2) have "cs' \<noteq> [] \<and> last cs' = asks_role (role_of s) (Panic m)"
    by (cases rule: unowned_trace.cases) (auto dest: asks_role_Panic)
  ultimately show ?thesis using crashed(1) by auto
next
  case (finished cache tmp cs1 cs2)
  have "r \<noteq> Err err" for err
    using finished(4) by (rule loop_trace_not_Err) (auto dest: used_trace_result)
  moreover have "\<exists>role. cs \<noteq> [] \<and> last cs = asks_role role (Panic m)" if m: "r = Panic m" for m
  proof -
    from finished(4) m obtain entry pre cs' where "cs2 = pre @ cs'" "used_trace cache tmp entry (Panic m) cs'"
      by (rule loop_trace_Panic)
    with used_trace_result [OF this(2)] finished(1) show ?thesis by (auto intro: sym)
  qed
  ultimately show ?thesis by (cases r) auto
qed

text \<open>
  C16: The secrets controller deletes exactly the listed secrets without an owner whose role is not in
  the store for their namespace, each once and in the order of the list; once the list succeeds it
  returns no error, and only a panic of the credentials getter ends a refresh early.
\<close>

theorem Secrets_refresh_outcome:
  "emits (after_secrets c (\<lambda>secrets r cs.
      r = Ok () \<and> deletions cs = map location (filter (\<lambda>s. unowned s \<and> \<not> used c s) secrets)
      \<or> (\<exists>m role. r = Panic m \<and> cs \<noteq> [] \<and> last cs = asks_role role (Panic m))))
    (Secrets_refresh e c)"
proof (rule emits_Secrets_refresh)
  fix secrets r cs
  assume t: "Secrets_listed_trace c secrets r cs"
  then have "deletions cs = map location (filter (\<lambda>s. unowned s \<and> \<not> used c s) secrets)" if "r = Ok ()"
    using that
    by (cases rule: Secrets_listed_trace_cases)
      (auto simp: used_loop_deletions dest: unowned_loop_deletions)
  with Secrets_listed_trace_result [OF t]
  show "r = Ok () \<and> deletions cs = map location (filter (\<lambda>s. unowned s \<and> \<not> used c s) secrets)
      \<or> (\<exists>m role. r = Panic m \<and> cs \<noteq> [] \<and> last cs = asks_role role (Panic m))"
    by blast
qed

section \<open>Every used role is served\<close>

text \<open>
  What a refresh owes to a secret without an owner, and to a used role without a secret: credentials
  are at hand or asked for, and then the secret is written; only when there are none it is not.
\<close>

definition secret_attended :: "secrets_controller \<Rightarrow> call list \<Rightarrow> secret \<Rightarrow> bool" where
  "secret_attended c cs s \<longleftrightarrow>
     (if \<not> unowned s then True
      else if \<not> used c s then \<exists>res. CDeleteSecret (secret_ns s) (secret_name s) res \<in> set cs
      else \<exists>b ds. due_trace (secRefreshLimit c) (Data s) b ds \<and> set ds \<subseteq> set cs
        \<and> (if b then \<exists>g. asks_role (role_of s) g \<in> set cs
              \<and> ((\<exists>err. obind g secret_data = Err err)
                \<or> (\<exists>data res. obind g secret_data = Ok data
                     \<and> CUpdateSecret (secret_ns s) (s\<lparr>Data := Some data\<rparr>) res \<in> set cs))
            else True))"

definition use_attended :: "call list \<Rightarrow> string \<Rightarrow> string \<Rightarrow> bool" where
  "use_attended cs role ns \<longleftrightarrow>
     (\<exists>creds res. CCreateSecret ns (role_secret role ns creds) res \<in> set cs)
     \<or> (\<exists>g err. asks_role role g \<in> set cs \<and> obind g secret_data = Err err)"

definition every_use_attended :: "secrets_controller \<Rightarrow> secret list \<Rightarrow> call list \<Rightarrow> bool" where
  "every_use_attended c secrets cs \<longleftrightarrow>
     (\<forall>role ns. wanted c role ns \<longrightarrow> provided secrets role ns \<or> use_attended cs role ns)"

lemma unowned_trace_attended:
  assumes "unowned_trace c s st (Ok st') cs" and "set cs \<subseteq> set ds"
  shows "secret_attended c ds s"
  using assms(1)
proof (cases rule: unowned_trace.cases)
  case owned
  then show ?thesis by (simp add: secret_attended_def)
next
  case (unused res)
  with assms(2) show ?thesis by (auto simp: secret_attended_def)
next
  case fresh
  then show ?thesis
    using assms(2) unfolding secret_attended_def by (auto intro!: exI [of _ False])
next
  case (refused ts g)
  then show ?thesis
    using assms(2) unfolding secret_attended_def by (auto intro!: exI [of _ True] exI [of _ ts])
next
  case (unwritten ts g data err)
  then show ?thesis
    using assms(2) unfolding secret_attended_def
    by (auto intro!: exI [of _ True] exI [of _ ts] exI [of _ g] simp del: obind_eq_Ok)
next
  case (written ts g data s')
  then show ?thesis
    using assms(2) unfolding secret_attended_def
    by (auto intro!: exI [of _ True] exI [of _ ts] exI [of _ g] simp del: obind_eq_Ok)
qed

lemma create_loop_attended:
  assumes "loop_trace (create_trace tmp role creds) nss u r cs" and "(ns, pods) \<in> set nss"
    and "\<not> Exists tmp role ns"
  shows "use_attended cs role ns"
proof -
  have "r = Ok ()" using assms(1) by induction (auto simp: create_trace_def)
  from assms(1) this assms(2) obtain pre cs' post where "cs = pre @ cs' @ post"
    "create_trace tmp role creds (ns, pods) () (Ok ()) cs'"
    by (rule loop_trace_turn) simp
  moreover from assms(3) this(2) obtain res
    where "cs' = [CCreateSecret ns (role_secret role ns creds) res]"
    by (auto simp: create_trace_def)
  ultimately have "CCreateSecret ns (role_secret role ns creds) res \<in> set cs" by simp
  then show ?thesis unfolding use_attended_def by blast
qed

lemma use_attended_mono: "use_attended cs role ns \<Longrightarrow> set cs \<subseteq> set ds \<Longrightarrow> use_attended ds role ns"
  unfolding use_attended_def by blast

lemma used_trace_attended:
  assumes "used_trace cache tmp (role, nss) (Ok u) cs" and "(ns, pods) \<in> set nss"
    and "\<not> Exists tmp role ns"
  shows "use_attended cs role ns"
  using assms(1)
proof (cases rule: used_trace.cases)
  case (cached creds)
  then show ?thesis using create_loop_attended assms(2,3) by simp
next
  case (asked g creds ds)
  then have "use_attended ds role ns" using create_loop_attended assms(2,3) by simp
  then show ?thesis by (rule use_attended_mono) (auto simp: asked)
next
  case (refused g)
  then show ?thesis by (auto simp: use_attended_def)
qed

lemma Secrets_listed_trace_attended:
  assumes "Secrets_listed_trace c secrets (Ok u) cs"
  shows "list_all (secret_attended c cs) secrets
    \<and> every_use_attended c secrets cs"
  using assms
proof (cases rule: Secrets_listed_trace_cases)
  case (finished cache tmp cs1 cs2)
  have "secret_attended c cs s" if "s \<in> set secrets" for s
  proof -
    from finished(2) refl that obtain pre cs' post st st' where "cs1 = pre @ cs' @ post"
      "unowned_trace c s st (Ok st') cs'"
      by (rule loop_trace_turn)
    with finished(1) show ?thesis by (auto intro: unowned_trace_attended)
  qed
  moreover have "use_attended cs role ns"
    if "\<not> provided secrets role ns" and "wanted c role ns" for role ns
  proof -
    obtain nss pods where *: "(role, nss) \<in> set (Store (roleStore c))" "(ns, pods) \<in> set nss"
      using \<open>wanted c role ns\<close> unfolding wanted_def list_ex_iff by auto
    from finished(4) refl *(1) obtain pre cs' post u' where "cs2 = pre @ cs' @ post"
      "used_trace cache tmp (role, nss) (Ok u') cs'"
      by (rule loop_trace_turn)
    with used_trace_attended [OF this(2) *(2)] that(1) finished(1,3) show ?thesis
      by (auto intro: use_attended_mono)
  qed
  ultimately show ?thesis by (auto simp: list_all_iff every_use_attended_def)
qed simp

text \<open>
  C14: No failure keeps a refresh from the other secrets and roles.  Unless it panics, every secret
  without an owner is deleted when its role is unused and otherwise renewed when it is due, and every
  use of a role in a namespace has a secret there, gets one, or could not get credentials.
\<close>

theorem Secrets_refresh_serves_all:
  "emits (after_secrets c (\<lambda>secrets r cs.
      (\<exists>m. r = Panic m) \<or> list_all (secret_attended c cs) secrets
        \<and> every_use_attended c secrets cs))
    (Secrets_refresh e c)"
proof (rule emits_Secrets_refresh)
  fix secrets r cs
  assume t: "Secrets_listed_trace c secrets r cs"
  from Secrets_listed_trace_result [OF t] Secrets_listed_trace_attended [of c secrets "()" cs] t
  show "(\<exists>m. r = Panic m) \<or> list_all (secret_attended c cs) secrets
      \<and> every_use_attended c secrets cs"
    by auto
qed

section \<open>Where the data of a secret comes from\<close>

definition sourced :: "secret list \<Rightarrow> call list \<Rightarrow> string \<Rightarrow> string_map \<Rightarrow> bool" where
  "sourced secrets cs role data \<longleftrightarrow>
     (\<exists>creds. asks_role role (Ok creds) \<in> set cs \<and> secret_data creds = Ok data)
     \<or> (\<exists>s \<in> set secrets. unowned s \<and> role_of s = role \<and> Data s = Some data)"

definition stores_role_data :: "secret list \<Rightarrow> call list \<Rightarrow> call \<Rightarrow> bool" where
  "stores_role_data secrets cs c =
     (case stored c of
        None \<Rightarrow> True
      | Some s \<Rightarrow> \<exists>data. Data s = Some data \<and> sourced secrets cs (role_of s) data)"

lemma sourced_mono: "sourced secrets cs role data \<Longrightarrow> set cs \<subseteq> set ds \<Longrightarrow> sourced secrets ds role data"
  unfolding sourced_def by blast

lemma stores_role_data_mono:
  "stores_role_data secrets cs c \<Longrightarrow> set cs \<subseteq> set ds \<Longrightarrow> stores_role_data secrets ds c"
  unfolding stores_role_data_def by (auto split: option.splits intro: sourced_mono)

lemma role_of_role_secret [simp]: "role_of (role_secret role ns data) = role"
  by (simp add: role_of_def role_secret_def)

lemma role_of_Data [simp]: "role_of (s\<lparr>Data := d\<rparr>) = role_of s"
  by (simp add: role_of_def)

lemma stores_role_data_other: "stored c = None \<Longrightarrow> stores_role_data secrets cs c"
  by (simp add: stores_role_data_def)

lemma stores_role_data_update:
  "obind g secret_data = Ok data \<Longrightarrow> asks_role (role_of s) g \<in> set cs
    \<Longrightarrow> stores_role_data secrets cs (CUpdateSecret ns (s\<lparr>Data := Some data\<rparr>) res)"
  by (auto simp: stores_role_data_def sourced_def)

lemma due_trace_stores: "due_trace lim d b cs \<Longrightarrow> c \<in> set cs \<Longrightarrow> stores_role_data secrets ds c"
  by (auto dest!: due_trace_cases simp: stores_role_data_other)

lemma unowned_trace_stores:
  assumes "unowned_trace c s st r cs" and "s \<in> set secrets"
    and "\<And>role data. fst st role = Some data \<Longrightarrow> sourced secrets pre role data"
  shows "list_all (stores_role_data secrets (pre @ cs)) cs
    \<and> (\<forall>st' role data. r = Ok st' \<and> fst st' role = Some data \<longrightarrow> sourced secrets (pre @ cs) role data)"
proof -
  have old: "sourced secrets (pre @ cs) role data" if "fst st role = Some data" for role data
    using assms(3) [OF that] by (rule sourced_mono) simp
  show ?thesis
    using assms(1)
  proof (cases rule: unowned_trace.cases)
    case fresh
    with old assms(2) show ?thesis
      by (auto simp: list_all_iff sourced_def due_trace_stores split: option.splits if_splits)
  next
    case (written ts g data s')
    have "sourced secrets (pre @ cs) (role_of s) data"
      using written unfolding sourced_def by auto
    with written old show ?thesis
      by (auto simp: list_all_iff due_trace_stores stores_role_data_other stores_role_data_update
        split: if_splits)
  qed (use old in \<open>auto simp: list_all_iff due_trace_stores stores_role_data_other stores_role_data_update\<close>)
qed

lemma unowned_loop_stores:
  assumes "loop_trace (unowned_trace c) xs st r cs" and "set xs \<subseteq> set secrets"
    and "\<And>role data. fst st role = Some data \<Longrightarrow> sourced secrets pre role data"
  shows "list_all (stores_role_data secrets (pre @ cs)) cs
    \<and> (\<forall>st' role data. r = Ok st' \<and> fst st' role = Some data \<longrightarrow> sourced secrets (pre @ cs) role data)"
  using assms
proof (induction arbitrary: pre)
  case (again s st st1 cs xs r ds)
  note turn = unowned_trace_stores [OF again.hyps(1), of secrets pre]
  have "list_all (stores_role_data secrets (pre @ cs)) cs"
    and st1: "\<And>role data. fst st1 role = Some data \<Longrightarrow> sourced secrets (pre @ cs) role data"
    using turn again.prems by (cases st1; auto)+
  moreover have "list_all (stores_role_data secrets ((pre @ cs) @ ds)) ds
    \<and> (\<forall>st' role data. r = Ok st' \<and> fst st' role = Some data \<longrightarrow> sourced secrets ((pre @ cs) @ ds) role data)"
    using again.prems(1) by (intro again.IH st1) auto
  ultimately show ?case
    by (auto simp: list_all_iff intro: stores_role_data_mono)
next
  case (crashed s st m cs xs)
  with unowned_trace_stores [OF crashed.hyps(1), of secrets pre] show ?case by auto
qed auto

lemma used_trace_stores:
  assumes "used_trace cache tmp entry r cs" and "set cs \<subseteq> set ds" and "set pre \<subseteq> set ds"
    and "\<And>role data. cache role = Some data \<Longrightarrow> sourced secrets pre role data"
  shows "list_all (stores_role_data secrets ds) cs"
proof -
  have create: "list_all (stores_role_data secrets ds) es"
    if "loop_trace (create_trace tmp role creds) nss u r es" and "sourced secrets ds role creds"
    for role creds nss u r es
    using that(1)
    by (rule loop_trace_all)
      (use that(2) in \<open>auto simp: create_trace_def stores_role_data_def role_secret_def role_of_def split: if_splits\<close>)
  show ?thesis
    using assms(1)
  proof (cases rule: used_trace.cases)
    case (cached creds)
    have "sourced secrets ds (fst entry) creds"
      using assms(4) [OF cached(1)] assms(3) by (rule sourced_mono)
    with cached(2) show ?thesis by (rule create)
  next
    case (asked g creds es)
    then have "sourced secrets ds (fst entry) creds"
      using assms(2) unfolding sourced_def by auto
    with asked(4) have "list_all (stores_role_data secrets ds) es" by (rule create)
    with asked(1) show ?thesis by (simp add: stores_role_data_other)
  qed (simp_all add: stores_role_data_other)
qed

lemma Secrets_listed_trace_stores:
  assumes "Secrets_listed_trace c secrets r cs"
  shows "list_all (stores_role_data secrets cs) cs"
  using assms
proof (cases rule: Secrets_listed_trace_cases)
  case (crashed m)
  from unowned_loop_stores [OF crashed(2), of secrets "[]"] show ?thesis by simp
next
  case (finished cache tmp cs1 cs2)
  from unowned_loop_stores [OF finished(2), of secrets "[]"]
  have one: "list_all (stores_role_data secrets cs1) cs1"
    and cache: "\<And>role data. cache role = Some data \<Longrightarrow> sourced secrets cs1 role data"
    by auto
  from one have "list_all (stores_role_data secrets cs) cs1"
    unfolding list_all_iff finished(1) by (auto intro: stores_role_data_mono)
  moreover have "list_all (stores_role_data secrets cs) cs2"
    using finished(4)
  proof (rule loop_trace_closed [where P = "\<lambda>ds. set ds \<subseteq> set cs \<longrightarrow> list_all (stores_role_data secrets cs) ds",
      THEN mp])
    show "set ds \<subseteq> set cs \<longrightarrow> list_all (stores_role_data secrets cs) ds"
      if "used_trace cache tmp entry r ds" for entry r ds
      using used_trace_stores [OF that, of cs cs1] cache finished(1) by simp
  qed (auto simp: finished(1))
  ultimately show ?thesis by (simp add: finished(1))
qed

text \<open>
  C15: Every secret that a refresh updates or creates holds data of its own role: the data of
  credentials that this refresh got for that role, or the data of a listed secret of the same role.
\<close>

theorem Secrets_refresh_data:
  "emits (after_secrets c (\<lambda>secrets r cs. list_all (stores_role_data secrets cs) cs)) (Secrets_refresh e c)"
  by (rule emits_Secrets_refresh) (rule Secrets_listed_trace_stores)

section \<open>The controller as the program starts it\<close>

lemma new_controller_unused [simp]: "\<not> used (NewSecretsController ns ivl lim) s"
  by (simp add: NewSecretsController_def rs.exists_empty)

lemma new_controller_loop:
  assumes "loop_trace (unowned_trace (NewSecretsController ns ivl lim)) secrets st r cs"
  shows "(\<exists>st'. r = Ok st') \<and> list_all (\<lambda>c. deletion c \<noteq> None) cs
    \<and> deletions cs = map location (filter unowned secrets)"
  using assms
proof induction
  case (again s st st' cs secrets r ds)
  from again.hyps(1) have "list_all (\<lambda>c. deletion c \<noteq> None) cs \<and>
      deletions cs = (if unowned s then [location s] else [])"
    by (cases rule: unowned_trace.cases) auto
  with again.IH show ?case by auto
next
  case (crashed s st m cs secrets)
  then show ?case by (auto elim: unowned_trace.cases)
qed auto

text \<open>
  C27: With the role store the program starts with, which nothing ever fills, the secrets controller
  never gets credentials and never updates or creates a secret: a refresh deletes every listed secret
  without an owner, and that is all it does.
\<close>

theorem new_controller_only_deletes:
  "emits (after_secrets (NewSecretsController ns ivl lim) (\<lambda>secrets r cs. r = Ok ()
      \<and> list_all (\<lambda>c. deletion c \<noteq> None) cs \<and> deletions cs = map location (filter unowned secrets)))
    (Secrets_refresh e (NewSecretsController ns ivl lim))"
proof (rule emits_Secrets_refresh)
  fix secrets r cs
  have store: "Store (roleStore (NewSecretsController ns ivl lim)) = []"
    by (simp add: NewSecretsController_def NewRoleStore_def)
  assume "Secrets_listed_trace (NewSecretsController ns ivl lim) secrets r cs"
  then show "r = Ok () \<and> list_all (\<lambda>c. deletion c \<noteq> None) cs \<and> deletions cs = map location (filter unowned secrets)"
  proof (cases rule: Secrets_listed_trace_cases)
    case (crashed m)
    then show ?thesis using new_controller_loop by blast
  next
    case (finished cache tmp cs1 cs2)
    from finished(4) have "r = Ok () \<and> cs2 = []"
      unfolding store by (auto elim: loop_trace.cases)
    with new_controller_loop [OF finished(2)] show ?thesis by (simp add: finished(1))
  qed
qed

end
