(* ===== verification/Interference.thy ===== *)
theory Interference
  imports Orphans SecretsRefresh
begin

text \<open>
  A refresh of the \<open>AWSIAMRole\<close> controller on a cluster that others write to at the same time: other
  clients, who are only assumed to be \<open>harmless\<close>, and the secrets controller of the same process, which is
  shown to be.  The steps of the others come after each call of the refresh
  (\<open>shared_step\<close>), so that what it has listed may be outdated when it acts on it.
\<close>

section \<open>What a refresh relies on\<close>

text \<open>
  A secret is live when the role of its name exists and owns it.  Others may change and delete what
  they like, but they bring no secret to life: only this controller makes secrets that a role owns, and
  a role that is made anew has another UID.
\<close>

definition live :: "cluster \<Rightarrow> object_key \<Rightarrow> owner_reference list \<Rightarrow> bool" where
  "live K k refs \<longleftrightarrow> (\<exists>r s. roles_in K k = Some r \<and> secrets_in K k = Some s
     \<and> OwnerReferences (SecretMeta s) = refs \<and> owned_by r s)"

definition harmless :: "cluster \<Rightarrow> cluster \<Rightarrow> bool" where
  "harmless K K' \<longleftrightarrow> (well_formed K \<longrightarrow> well_formed K' \<and> (\<forall>k refs. live K' k refs \<longrightarrow> live K k refs))"

lemma harmless_refl: "harmless K K"
  by (simp add: harmless_def)

lemma harmless_trans: "harmless K L \<Longrightarrow> harmless L M \<Longrightarrow> harmless K M"
  by (simp add: harmless_def)

lemma harmless_many:
  assumes "R\<^sup>*\<^sup>* K K'" and "\<And>K K'. R K K' \<Longrightarrow> harmless K K'"
  shows "harmless K K'"
  using assms(1) by (induction) (auto intro: harmless_refl harmless_trans assms(2))

lemma liveI:
  "roles_in K k = Some r \<Longrightarrow> secrets_in K k = Some s \<Longrightarrow> OwnerReferences (SecretMeta s) = refs
    \<Longrightarrow> owned_by r s \<Longrightarrow> live K k refs"
  unfolding live_def by blast

text \<open>What is not owned by anything is not live, and an unchanged key stays what it is.\<close>

lemma live_unowned: "live K k refs \<Longrightarrow> secrets_in K k = Some s \<Longrightarrow> OwnerReferences (SecretMeta s) \<noteq> []"
  by (auto simp: live_def owned_by_iff)

lemma live_same:
  "roles_in K' k = roles_in K k \<Longrightarrow> secrets_in K' k = secrets_in K k \<Longrightarrow> live K' k refs \<longleftrightarrow> live K k refs"
  by (simp add: live_def)

section \<open>The secrets controller is harmless\<close>

text \<open>A call that a refresh of the secrets controller makes, for some list of secrets it has got.\<close>

definition secrets_controller_acts :: "secrets_controller \<Rightarrow> cluster \<Rightarrow> cluster \<Rightarrow> bool" where
  "secrets_controller_acts c K K' \<longleftrightarrow> (\<exists>secrets d. secrets_call c secrets d \<and> api_step K d K')"

definition store_namespaces_ok :: "secrets_controller \<Rightarrow> bool" where
  "store_namespaces_ok c \<longleftrightarrow> (\<forall>role ns. wanted c role ns \<longrightarrow> CHR ''/'' \<notin> set ns)"

lemma unowned_update:
  assumes "well_formed K" and "OwnerReferences (SecretMeta s) = []" and "object_key (SecretMeta s) = k"
    and "CHR ''/'' \<notin> set (key_namespace k)"
  shows "harmless K (K\<lparr>secrets_in := (secrets_in K)(k \<mapsto> s)\<rparr>)"
proof -
  have "live K l refs" if "live (K\<lparr>secrets_in := (secrets_in K)(k \<mapsto> s)\<rparr>) l refs" for l refs
    using that assms(2) live_unowned [OF that] by (cases "l = k") (simp_all add: live_def)
  moreover have "keyed SecretMeta ((secrets_in K)(k \<mapsto> s))"
    using assms by (auto simp: well_formed_def keyed_def)
  ultimately show ?thesis using assms(1) by (simp add: harmless_def well_formed_def)
qed

lemma accepted_key:
  "secret_ns s = ns \<Longrightarrow> accepted s s' \<Longrightarrow> object_key (SecretMeta s') = Key ns (secret_name s)"
  by (simp add: accepted_sel(1)) (simp add: object_key_def)

lemma secrets_controller_harmless:
  assumes "secrets_controller_acts c K K'" and "store_namespaces_ok c"
  shows "harmless K K'"
proof (cases "well_formed K")
  case wf: True
  from assms(1) obtain secrets d where d: "secrets_call c secrets d" "api_step K d K'"
    unfolding secrets_controller_acts_def by blast
  show ?thesis
  proof (cases "applied K d K'")
    case False
    with d(2) show ?thesis by (simp add: api_step_def harmless_refl)
  next
    case True
    then show ?thesis
    proof (cases rule: applied.cases)
      case (updated ns s old s' res)
      have "CHR ''/'' \<notin> set ns"
        using wf updated(3) unfolding well_formed_def keyed_def by fastforce
      moreover from d(1) updated(1) have "OwnerReferences (SecretMeta s) = []" by auto
      ultimately show ?thesis
        using unowned_update [OF wf, of s'] accepted_sel(5) [OF updated(5)] accepted_key [OF updated(4,5)]
        by (simp add: updated(2))
    next
      case (created ns s s' res)
      with d(1) obtain role data where s: "wanted c role ns" "s = role_secret role ns data" by auto
      then have "CHR ''/'' \<notin> set ns" using assms(2) by (simp add: store_namespaces_ok_def)
      moreover have "OwnerReferences (SecretMeta s) = []" by (simp add: s(2) role_secret_def)
      ultimately show ?thesis
        using unowned_update [OF wf, of s'] accepted_sel(5) [OF created(5)] accepted_key [OF created(4,5)]
        by (simp add: created(2))
    next
      case (deleted ns n res)
      have "live K k refs" if "live K' k refs" for k refs
        using that unfolding deleted(2) by (cases "k = Key ns n") (simp_all add: live_def)
      with wf deleted(2) show ?thesis by (simp add: harmless_def well_formed_def keyed_delete)
    next
      case (reported ns r old res v)
      with d(1) show ?thesis by simp
    qed
  qed
qed (simp add: harmless_def)

section \<open>Deletions hit no live secret\<close>

text \<open>The calls before the last deletion: the first two loops write to owned secrets only, and create none.\<close>

definition early :: "secret list \<Rightarrow> (string \<rightharpoonup> awsiamrole) \<Rightarrow> call \<Rightarrow> bool" where
  "early secrets rm d \<longleftrightarrow> (\<forall>s'. stored d = Some s' \<longrightarrow>
     (\<exists>ns res. d = CUpdateSecret ns s' res \<and>
       (\<exists>s \<in> set secrets. \<not> orphan rm s \<and> object_key (SecretMeta s') = object_key (SecretMeta s))))"

lemma early_other: "stored d = None \<Longrightarrow> early secrets rm d"
  by (simp add: early_def)

lemma early_update:
  "s \<in> set secrets \<Longrightarrow> \<not> orphan rm s \<Longrightarrow> early secrets rm (CUpdateSecret ns (renewed r data s) res)"
  by (auto simp: early_def renewed_sel)

lemma owned_trace_early:
  assumes "owned_trace lim rm s os r cs" and "s \<in> set secrets"
  shows "list_all (early secrets rm) cs"
proof -
  have "list_all (early secrets rm) ds" if "due_trace lim d b ds" for d b ds
    using due_trace_cases [OF that] by (auto simp: early_other)
  with assms show ?thesis
    by (auto elim!: owned_traceE simp: early_other early_update)
qed

lemma append_in_prefix:
  assumes "xs @ d # ys = as @ bs" and "d \<notin> set bs"
  shows "\<exists>zs. as = xs @ d # zs"
proof -
  from assms(1) obtain us where "us @ d # ys = bs \<or> xs @ us = as \<and> d # ys = us @ bs"
    unfolding append_eq_append_conv2 by blast
  moreover have "us @ d # ys \<noteq> bs" using assms(2) by auto
  ultimately have us: "as = xs @ us" "d # ys = us @ bs" by simp_all
  with assms(2) obtain zs where "us = d # zs" by (cases us) auto
  with us(1) show ?thesis by blast
qed

lemma listed_trace_early:
  assumes "listed_trace c secrets roles r (xs @ CDeleteSecret ns n res # ys)"
  shows "list_all (early secrets (roles_map roles)) xs"
    and "\<exists>s \<in> set secrets. orphan (roles_map roles) s \<and> ns = secret_ns s \<and> n = secret_name s"
proof -
  from listed_trace_role_call [OF assms]
  show "\<exists>s \<in> set secrets. orphan (roles_map roles) s \<and> ns = secret_ns s \<and> n = secret_name s" by simp
  have one: "list_all (early secrets (roles_map roles)) ds"
    if "loop_trace (owned_trace lim (roles_map roles)) secrets os q ds" for lim os q ds
    using that by (rule loop_trace_all) (rule owned_trace_early)
  from assms show "list_all (early secrets (roles_map roles)) xs"
  proof (cases rule: listed_trace_cases)
    case (crashed m)
    from one [OF crashed(2)] show ?thesis by simp
  next
    case (finished cs1 cs2 cs3)
    have two: "list_all (early secrets (roles_map roles)) cs2"
      using finished(3) by (rule loop_trace_all) (auto simp: deleted_trace_def early_other)
    have "(ns, n) \<notin> set (deletions cs3)" using reconcile_loop_deletions [OF finished(4)] by simp
    then have "CDeleteSecret ns n res \<notin> set cs3" by (auto simp: deletions_memb)
    with finished(1) obtain zs where "cs1 @ cs2 = xs @ CDeleteSecret ns n res # zs"
      using append_in_prefix [of xs _ ys "cs1 @ cs2" cs3] by auto
    with one [OF finished(2)] two show ?thesis by (metis list_all_append)
  qed
qed

text \<open>Nothing of this brings a listed orphan to life.\<close>

lemma early_step_not_live:
  assumes "api_step K d K'" and "early secrets rm d" and "s \<in> set secrets" and "orphan rm s"
    and unique: "\<And>t. t \<in> set secrets \<Longrightarrow> object_key (SecretMeta t) = object_key (SecretMeta s) \<Longrightarrow> t = s"
    and "live K' (object_key (SecretMeta s)) refs"
  shows "live K (object_key (SecretMeta s)) refs"
proof (cases "applied K d K'")
  case False
  with assms(1,6) show ?thesis by (simp add: api_step_def)
next
  case True
  let ?k = "object_key (SecretMeta s)"
  from True show ?thesis
  proof (cases rule: applied.cases)
    case (updated ns t old t' res)
    with assms(2) obtain u where u: "u \<in> set secrets" "\<not> orphan rm u"
      "object_key (SecretMeta t) = object_key (SecretMeta u)" by (auto simp: early_def)
    then have "Key ns (secret_name t) \<noteq> ?k"
      using unique [of u] assms(4) updated(4) by (auto simp: object_key_def)
    with updated(2) have "live K' ?k refs \<longleftrightarrow> live K ?k refs" by (intro live_same) simp_all
    with assms(6) show ?thesis by simp
  next
    case (created ns t t' res)
    with assms(2) show ?thesis by (simp add: early_def)
  next
    case (deleted ns n res)
    with assms(6) show ?thesis by (auto simp: live_def split: if_splits)
  next
    case (reported ns r old res v)
    with assms(6) show ?thesis
      by (cases "?k = Key ns (role_name r)") (auto simp: live_def owned_by_iff owner_ref_of_def)
  qed
qed

text \<open>An orphan is not live when the roles are listed, whatever has happened since the secrets were.\<close>

lemma orphan_not_live:
  assumes "well_formed K" and "well_formed L" and "\<And>k refs. live L k refs \<Longrightarrow> live K k refs"
    and secrets: "enumerates secrets (satisfying (selected ns sel) (secrets_in K))"
    and roles: "enumerates roles (satisfying (\<lambda>r. in_namespace ns (RoleMeta r)) (roles_in L))"
    and s: "s \<in> set secrets" "orphan (roles_map roles) s"
  shows "\<not> live L (object_key (SecretMeta s)) refs"
proof
  let ?k = "object_key (SecretMeta s)"
  assume live: "live L ?k refs"
  have keyed: "keyed SecretMeta (satisfying (selected ns sel) (secrets_in K))"
    "keyed RoleMeta (satisfying (\<lambda>r. in_namespace ns (RoleMeta r)) (roles_in L))"
    using assms(1,2) by (simp_all add: well_formed_def keyed_satisfying)
  from enumerated(1) [OF secrets keyed(1)] s(1) have K: "secrets_in K ?k = Some s" "selected ns sel s"
    by (simp_all add: satisfying_Some)
  from live obtain r t where r: "roles_in L ?k = Some r" "OwnerReferences (SecretMeta t) = refs" "owned_by r t"
    by (auto simp: live_def)
  from assms(3) [OF live] K(1) have "OwnerReferences (SecretMeta s) = refs" by (auto simp: live_def)
  with r have owned: "owned_by r s" by (simp add: owned_by_iff)
  have "object_key (RoleMeta r) = ?k"
    using assms(2) r(1) unfolding well_formed_def by (blast dest: keyedD(1))
  then have "in_namespace ns (RoleMeta r)"
    using K(2) by (simp add: selected_def in_namespace_def object_key_def)
  with r(1) have "roles_map roles (map_key (SecretMeta s)) = Some r"
    using enumerated_map [OF roles keyed(2) enumerated(2) [OF secrets keyed(1) s(1)]]
    by (simp add: roles_map_eq satisfying_Some)
  with s(2) owned show False by (simp add: orphan_def owned_by_def)
qed

lemma shared_step_harmless:
  assumes "shared_step R K d K'" and "\<And>K K'. R K K' \<Longrightarrow> harmless K K'"
  obtains L where "api_step K d L" "harmless L K'"
  using assms by (auto simp: shared_step_def intro: harmless_many)

text \<open>So it stays while the first two loops run, whatever others do.\<close>

lemma orphan_stays:
  assumes "steps (shared_step R) M ds K" and R: "\<And>K K'. R K K' \<Longrightarrow> harmless K K'"
    and calls: "list_all (\<lambda>d. early secrets (roles_map roles) d \<and> role_call secrets roles d) ds"
    and slash: "\<And>r. r \<in> set roles \<Longrightarrow> CHR ''/'' \<notin> set (role_ns r)"
    and s: "s \<in> set secrets" "orphan (roles_map roles) s"
    and unique: "\<And>t. t \<in> set secrets \<Longrightarrow> object_key (SecretMeta t) = object_key (SecretMeta s) \<Longrightarrow> t = s"
    and "well_formed M" and "\<And>refs. \<not> live M (object_key (SecretMeta s)) refs"
  shows "\<not> live K (object_key (SecretMeta s)) refs"
proof -
  let ?I = "\<lambda>N. well_formed N \<and> (\<forall>refs. \<not> live N (object_key (SecretMeta s)) refs)"
  have "?I M" using assms(8,9) by simp
  with assms(1) have "?I K"
  proof (rule steps_invariant)
    fix d N N'
    assume "d \<in> set ds" and N: "?I N" and "shared_step R N d N'"
    then obtain N0 where N0: "api_step N d N0" "harmless N0 N'"
      using R by (blast elim: shared_step_harmless)
    from calls \<open>d \<in> set ds\<close> have d: "early secrets (roles_map roles) d" "role_call secrets roles d"
      by (simp_all add: list_all_iff)
    have "well_formed N0"
      using well_formed_change [OF api_step_change [OF N0(1) d(2)]] N slash by blast
    moreover have "\<not> live N0 (object_key (SecretMeta s)) refs" for refs
      using early_step_not_live [OF N0(1) d(1) s unique] N by blast
    ultimately show "?I N'" using N0(2) by (auto simp: harmless_def)
  qed
  then show ?thesis by simp
qed

text \<open>The two lists with which a refresh starts.\<close>

lemma shared_lists:
  assumes "steps (shared_step R) K (CListSecrets ns sel (Inr secrets) # CListRoles ns (Inr roles) # ds) N"
    and R: "\<And>K K'. R K K' \<Longrightarrow> harmless K K'" and wf: "well_formed K"
  obtains L M where "enumerates secrets (satisfying (selected ns sel) (secrets_in K))"
    "enumerates roles (satisfying (\<lambda>r. in_namespace ns (RoleMeta r)) (roles_in L))"
    "harmless K L" "harmless L M" "well_formed L" "well_formed M" "steps (shared_step R) M ds N"
proof -
  from assms(1) obtain L M where L: "shared_step R K (CListSecrets ns sel (Inr secrets)) L"
    and M: "shared_step R L (CListRoles ns (Inr roles)) M" and ds: "steps (shared_step R) M ds N" by auto
  from L R obtain L0 where "api_step K (CListSecrets ns sel (Inr secrets)) L0" "harmless L0 L"
    by (rule shared_step_harmless)
  then have "enumerates secrets (satisfying (selected ns sel) (secrets_in K))" and KL: "harmless K L"
    by (auto simp: api_step_def elim!: applied_elims)
  moreover from M R obtain M0 where "api_step L (CListRoles ns (Inr roles)) M0" "harmless M0 M"
    by (rule shared_step_harmless)
  then have "enumerates roles (satisfying (\<lambda>r. in_namespace ns (RoleMeta r)) (roles_in L))"
    and LM: "harmless L M"
    by (auto simp: api_step_def elim!: applied_elims)
  moreover have "well_formed L" "well_formed M" using KL LM wf by (simp_all add: harmless_def)
  ultimately show thesis using ds that by blast
qed

lemma listed_deletion_not_live:
  assumes "listed_trace c secrets roles r (ds @ CDeleteSecret ns n res # es)"
    and "steps (shared_step R) K (CListSecrets (namespace c) sel (Inr secrets)
      # CListRoles (namespace c) (Inr roles) # ds) N"
    and R: "\<And>K K'. R K K' \<Longrightarrow> harmless K K'" and wf: "well_formed K"
  shows "\<not> live N (Key ns n) refs"
proof -
  from assms(2) R wf obtain L M where
    seen: "enumerates secrets (satisfying (selected (namespace c) sel) (secrets_in K))"
      "enumerates roles (satisfying (\<lambda>r. in_namespace (namespace c) (RoleMeta r)) (roles_in L))"
    and LM: "harmless K L" "harmless L M" "well_formed L" "well_formed M" "steps (shared_step R) M ds N"
    by (rule shared_lists)
  note early = listed_trace_early [OF assms(1)]
  from early(2) obtain s where s: "s \<in> set secrets" "orphan (roles_map roles) s"
    "object_key (SecretMeta s) = Key ns n" by (auto simp: object_key_def)
  have keyed: "keyed SecretMeta (satisfying (selected (namespace c) sel) (secrets_in K))"
    "keyed RoleMeta (satisfying (\<lambda>r. in_namespace (namespace c) (RoleMeta r)) (roles_in L))"
    using wf LM(3) by (simp_all add: well_formed_def keyed_satisfying)
  have unique: "t = s" if "t \<in> set secrets" "object_key (SecretMeta t) = object_key (SecretMeta s)" for t
    using that s(1) enumerated(1) [OF seen(1) keyed(1)] by (metis option.inject)
  have "live K k refs" if "live L k refs" for k refs
    using that LM(1) wf by (simp add: harmless_def)
  with orphan_not_live [OF wf LM(3) _ seen s(1,2)]
  have "\<not> live L (object_key (SecretMeta s)) refs" for refs by blast
  with LM(2,3) have "\<not> live M (object_key (SecretMeta s)) refs" for refs
    by (auto simp: harmless_def)
  moreover have "list_all (\<lambda>d. early secrets (roles_map roles) d \<and> role_call secrets roles d) ds"
    using early(1) listed_trace_role_call [OF assms(1)] by (simp add: list_all_iff)
  ultimately show ?thesis
    using orphan_stays [OF LM(5) R _ enumerated(2) [OF seen(2) keyed(2)] s(1,2) unique LM(4)] s(3) by simp
qed

text \<open>
  C10: No secret is deleted whose role exists and owns it, under the guarantee that only this controller
  brings such secrets to life.  Let other clients, and the secrets controller, act on the cluster after
  each call of a refresh, so that its lists go stale: they may delete anything, and change and create
  anything but a secret that the role of its name owns, or a role that owns the secret of its
  name, where that was not so before.  Then in whatever state of the cluster a deletion of the refresh
  arrives, the secret of that name is not live.  The guarantee leaves out \<^verbatim>\<open>scripts/set_secret.sh\<close>, which
  applies a secret that a role owns, and which the README has one run before the controller is deployed:
  run while a refresh has an older, orphaned secret of that name in its list, its secret is deleted.
\<close>

theorem no_live_secret_deleted:
  assumes "serves_by (shared_step R) e v"
    and "\<forall>K K'. R K K' \<longrightarrow> harmless K K' \<or> secrets_controller_acts sc K K'" and "store_namespaces_ok sc"
    and "well_formed (v (world s))" and "trace s = []"
    and "run_state (AWSIAMRole_refresh e c) s = (r, s')" and "trace s' = cs @ CDeleteSecret ns n res # ds"
  shows "(\<exists>K. steps (shared_step R) (v (world s)) cs K
      \<and> steps (shared_step R) K (CDeleteSecret ns n res # ds) (v (world s')))
    \<and> (\<forall>K refs. steps (shared_step R) (v (world s)) cs K \<longrightarrow> \<not> live K (Key ns n) refs)"
proof -
  have R: "harmless K K'" if "R K K'" for K K'
    using that assms(2) secrets_controller_harmless [OF _ assms(3)] by blast
  from assms(1) emits_refresh assms(6) obtain es where es: "trace s' = trace s @ es"
    "after_listing c (listed_trace c) r es" "steps (shared_step R) (v (world s)) es (v (world s'))"
    by (rule refresh_run)
  have run: "es = cs @ CDeleteSecret ns n res # ds" using es(1) assms(5,7) by simp
  from es(2) have "\<not> live K (Key ns n) refs" if "steps (shared_step R) (v (world s)) cs K" for K refs
  proof (cases rule: after_listing.cases)
    case (listed secrets roles xs)
    from listed(1) run obtain ys where cs: "cs = CListSecrets (namespace c) awsIAMRoleOwnerLabels (Inr secrets)
        # CListRoles (namespace c) (Inr roles) # ys" "xs = ys @ CDeleteSecret ns n res # ds"
      by (auto simp: append_eq_Cons_conv)
    from listed_deletion_not_live [OF listed(2) [unfolded cs(2)] that [unfolded cs(1)] R assms(4)]
    show ?thesis .
  qed (use run in \<open>auto simp: append_eq_Cons_conv\<close>)
  with es(3) show ?thesis by (auto simp: run steps_append)
qed

text \<open>Another client deletes all roles as soon as they are listed.\<close>

definition racing_env :: "store env" where
  "racing_env = memory_env\<lparr>ListRoles := (\<lambda>ns w.
     (Inr (listing (\<lambda>r. in_namespace ns (RoleMeta r)) (stored_roles w)), w\<lparr>stored_roles := []\<rparr>))\<rparr>"

lemma racing_env_serves: "serves_by (shared_step harmless) racing_env contents"
proof -
  have alone: "api_step K d K' \<Longrightarrow> shared_step harmless K d K'" for K d K'
    by (auto simp: shared_step_def)
  have "harmless (contents w) (contents (w\<lparr>stored_roles := []\<rparr>))" for w
    by (auto simp: harmless_def live_def contents_def well_formed_def keyed_def)
  moreover have "api_step (contents w) (CListRoles ns
      (Inr (listing (\<lambda>r. in_namespace ns (RoleMeta r)) (stored_roles w)))) (contents w)" for ns w
    by (simp add: api_step_def contents_def enumerates_listing)
  ultimately have "shared_step harmless (contents w) (CListRoles ns
      (Inr (listing (\<lambda>r. in_namespace ns (RoleMeta r)) (stored_roles w)))) (contents (w\<lparr>stored_roles := []\<rparr>))"
    for ns w
    unfolding shared_step_def by blast
  then show ?thesis
    using memory_env_serves unfolding serves_by_def racing_env_def by (auto intro: alone)
qed

lemma racing_refresh:
  "run_state (AWSIAMRole_refresh racing_env example_controller) \<lparr>world = example_store, trace = []\<rparr> =
    (Ok (), \<lparr>world = \<lparr>stored_secrets = [], stored_roles = []\<rparr>, trace =
      [CListSecrets [] awsIAMRoleOwnerLabels (Inr [example_orphan]), CListRoles [] (Inr [example_role])]
        @ CDeleteSecret ''default'' ''app'' None # []\<rparr>)"
  by (simp add: evaluation example_store_def racing_env_def)

theorem no_live_secret_deleted_witness:
  "\<exists>K. steps (shared_step harmless) (contents example_store)
      [CListSecrets [] awsIAMRoleOwnerLabels (Inr [example_orphan]), CListRoles [] (Inr [example_role])] K
    \<and> (\<forall>refs. \<not> live K (Key ''default'' ''app'') refs)"
proof -
  have "store_namespaces_ok (NewSecretsController [] 0 0)"
    by (simp add: store_namespaces_ok_def wanted_def NewSecretsController_def NewRoleStore_def)
  from no_live_secret_deleted [OF racing_env_serves _ this _ _ racing_refresh st.select_convs(2)] show ?thesis
    using example_store_well_formed unfolding st.select_convs by blast
qed

end
