(* ===== verification/Convergence.thy ===== *)
theory Convergence
  imports Orphans Interference
begin

text \<open>
  What the calls of a refresh of the \<open>AWSIAMRole\<close> controller make of each role, if the failures among
  them are only those that do not matter (\<open>tolerable\<close>), and that two refreshes in which nothing fails settle
  the cluster.
\<close>

section \<open>Refreshes in which nothing fails\<close>

text \<open>Nothing fails, and the credentials have an expiry that fits the text formats.\<close>

definition smooth :: "call \<Rightarrow> bool" where
  "smooth d \<longleftrightarrow> \<not> failed d
     \<and> (\<forall>ref dur creds. d = CGetCreds ref dur (Ok creds) \<longrightarrow> expressible (Expiration creds))"

lemma smooth_deletes: "list_all smooth cs \<Longrightarrow> deletes_ok cs"
  by (simp add: deletes_ok_def smooth_def list_all_iff)

lemma smooth_asks:
  assumes "smooth (asks r g)"
  obtains creds data where "g = Ok creds" "credentials_data creds = Ok (creds, data)"
    "obind g credentials_data = Ok (creds, data)" "expressible (Expiration creds)"
proof -
  from assms obtain creds where g: "g = Ok creds" "expressible (Expiration creds)"
    by (auto simp: smooth_def)
  from g(2) obtain data where "credentials_data creds = Ok (creds, data)"
    by (rule credentials_data_Ok)
  with g show thesis by (intro that) simp_all
qed

text \<open>
  A secret is up to date when it is of the generation of its role and has an expiry; with a bound
  \<open>Some x\<close> it expires at \<open>x\<close> or later.
\<close>

definition lasts :: "int option \<Rightarrow> gotime \<Rightarrow> bool" where
  "lasts T u \<longleftrightarrow> (case T of None \<Rightarrow> True | Some x \<Rightarrow> x \<le> nanos (at u))"

definition up_to_date :: "int option \<Rightarrow> awsiamrole \<Rightarrow> secret \<Rightarrow> bool" where
  "up_to_date T r s \<longleftrightarrow> getGeneration (Data s) = Inr (Generation (RoleMeta r))
     \<and> (\<exists>u. expiry_of (Data s) = Some u \<and> lasts T u)"

text \<open>For the bound the clock readings must not be too early, and new credentials must last.\<close>

definition timely :: "int option \<Rightarrow> int64 \<Rightarrow> call \<Rightarrow> bool" where
  "timely T limit d \<longleftrightarrow> (case T of None \<Rightarrow> True | Some x \<Rightarrow>
     (\<forall>t. d = CNow t \<longrightarrow> x \<le> nanos (at t) + sint limit)
     \<and> (\<forall>ref dur creds. d = CGetCreds ref dur (Ok creds) \<longrightarrow> x + second \<le> nanos (at (Expiration creds))))"

lemma timely_None [simp]: "timely None limit d" "list_all (timely None limit) cs"
  by (simp_all add: timely_def list_all_iff)

lemma up_to_date_stored:
  assumes "credentials_data creds = Ok (creds', data)" and "expressible (Expiration creds)"
    and "timely T limit (asks r (Ok creds))"
    and "Data s = Some (data(awsIAMRoleGenerationKey \<mapsto> show_int (sint (Generation (RoleMeta r)))))"
  shows "up_to_date T r s"
proof -
  have "lasts T (truncate_second (Expiration creds))"
    using assms(3) truncate_second_bounds(2) [of "Expiration creds"]
    by (auto simp: lasts_def timely_def split: option.splits)
  then show ?thesis
    using expiry_of_stored [OF assms(1,2)] by (simp add: up_to_date_def assms(4) getGeneration_stored)
qed

lemma due_or_lasts:
  assumes "due_trace limit data b cs" and "list_all (timely T limit) cs"
  shows "b \<or> (\<exists>u. expiry_of data = Some u \<and> lasts T u)"
proof (cases "expiry_of data")
  case None
  with assms(1) show ?thesis by (simp add: due_trace_def)
next
  case (Some u)
  with assms(1) obtain t where t: "cs = [CNow t]" "b = due_at limit data t" by (auto simp: due_trace_def)
  have "at u < at (add_duration (UTC t) limit)" if "\<not> lasts T u"
    using that assms(2) t(1)
    by (auto simp: lasts_def timely_def add_duration_def UTC_def less_instant_def split: option.splits)
  with Some t(2) show ?thesis by (auto simp: due_at_def After_def)
qed

lemma up_to_date_same:
  "same_role r r' \<Longrightarrow> Data s' = Data s \<Longrightarrow> up_to_date T r' s' \<longleftrightarrow> up_to_date T r s"
  by (simp add: up_to_date_def same_role_sel)

definition readable :: "aws_controller \<Rightarrow> cluster \<Rightarrow> bool" where
  "readable c K \<longleftrightarrow> (\<forall>k s. secrets_in K k = Some s \<and> selected (namespace c) awsIAMRoleOwnerLabels s
     \<longrightarrow> (\<exists>n. getGeneration (Data s) = Inr n))"

text \<open>Whatever a refresh stores, the generation in it can be read.\<close>

lemma readable_change:
  assumes "change secrets roles K d K'" and "readable c K"
  shows "readable c K'"
  using assms
  by (cases rule: change.cases)
    (auto simp: readable_def accepted_sel getGeneration_stored split: if_splits)

section \<open>Failures that do not matter\<close>

text \<open>
  A role may have an orphan of its name.  When the orphan is gone, the update that its generation or
  expiry calls for must fail.  A secret that is both due and outdated is written twice, the second time
  with the resource version that was listed, so that the server may refuse it; so may it the second
  report of the status of a role.  These failures are excused.
\<close>

definition superseded :: "call list \<Rightarrow> object_key \<Rightarrow> bool" where
  "superseded cs k \<longleftrightarrow> (\<exists>d \<in> set cs. wrote d \<and> (\<exists>s. stored d = Some s \<and> object_key (SecretMeta s) = k))"

definition excused :: "secret list \<Rightarrow> (string \<rightharpoonup> awsiamrole) \<Rightarrow> call list \<Rightarrow> call \<Rightarrow> bool" where
  "excused secrets rm cs d \<longleftrightarrow>
     (\<exists>s'. stored d = Some s' \<and> (superseded cs (object_key (SecretMeta s'))
        \<or> (\<exists>s \<in> set secrets. orphan rm s \<and> object_key (SecretMeta s') = object_key (SecretMeta s))))
     \<or> (\<exists>ns q res ns' q' q''. d = CUpdateStatus ns q res \<and> CUpdateStatus ns' q' (Inr q'') \<in> set cs
          \<and> object_key (RoleMeta q') = object_key (RoleMeta q))"

definition tolerable :: "secret list \<Rightarrow> (string \<rightharpoonup> awsiamrole) \<Rightarrow> call list \<Rightarrow> call \<Rightarrow> bool" where
  "tolerable secrets rm cs d \<longleftrightarrow> smooth d \<or> excused secrets rm cs d"

lemma tolerable_simps [simp]:
  "tolerable secrets rm cs (asks r g) \<longleftrightarrow> smooth (asks r g)"
  "tolerable secrets rm cs (CDeleteSecret ns n res) \<longleftrightarrow> smooth (CDeleteSecret ns n res)"
  by (simp_all add: tolerable_def excused_def)

lemma tolerable_deletes:
  assumes "list_all (tolerable secrets rm ds) cs"
  shows "deletes_ok cs"
proof -
  have "\<not> failed d" if "deletion d \<noteq> None" "tolerable secrets rm ds d" for d
    using that by (cases d) (auto simp: smooth_def)
  with assms show ?thesis by (auto simp: deletes_ok_def list_all_iff)
qed

lemma tolerable_smooth: "list_all smooth cs \<Longrightarrow> list_all (tolerable secrets rm ds) cs"
  by (simp add: list_all_iff tolerable_def)

lemma not_Inl_iff: "(\<forall>a. x \<noteq> Inl a) \<longleftrightarrow> (\<exists>b. x = Inr b)"
  by (cases x) auto

lemma smooth_wrote: "smooth d \<Longrightarrow> stored d = Some s \<Longrightarrow> wrote d"
  by (cases d rule: call.exhaust) (auto simp: smooth_def not_Inl_iff)

text \<open>Where no orphan was listed, somebody wrote what had to be written.\<close>

lemma tolerable_superseded:
  assumes "tolerable secrets rm cs d" and "d \<in> set cs" and "stored d = Some s'"
    and "\<And>s. s \<in> set secrets \<Longrightarrow> object_key (SecretMeta s) = object_key (SecretMeta s') \<Longrightarrow> \<not> orphan rm s"
  shows "superseded cs (object_key (SecretMeta s'))"
proof (cases "smooth d")
  case True
  with assms(2,3) show ?thesis unfolding superseded_def using smooth_wrote by blast
next
  case False
  with assms(1,3) have "superseded cs (object_key (SecretMeta s'))
      \<or> (\<exists>s \<in> set secrets. orphan rm s \<and> object_key (SecretMeta s') = object_key (SecretMeta s))"
    by (auto simp: tolerable_def excused_def)
  with assms(4) show ?thesis by (metis (no_types))
qed

text \<open>What is stored is up to date.\<close>

definition carries :: "int option \<Rightarrow> awsiamrole list \<Rightarrow> call \<Rightarrow> bool" where
  "carries T roles d \<longleftrightarrow> (\<forall>s. stored d = Some s \<longrightarrow>
     (\<exists>r \<in> set roles. map_key (SecretMeta s) = map_key (RoleMeta r) \<and> up_to_date T r s))"

lemma fed_carries:
  assumes "fed_trace roles p cs" and "list_all (tolerable secrets rm ds) cs" and "list_all (timely T limit) cs"
    and "case p of None \<Rightarrow> True | Some d \<Rightarrow> tolerable secrets rm ds d \<and> timely T limit d"
  shows "list_all (carries T roles) cs"
  using assms
proof (induction cs arbitrary: p)
  case (Cons d cs)
  have "carries T roles d"
    unfolding carries_def
  proof (intro allI impI)
    fix s
    assume "stored d = Some s"
    with Cons.prems(1) obtain r creds data where r: "r \<in> set roles" "map_key (SecretMeta s) = map_key (RoleMeta r)"
      "p = Some (asks r (Ok creds))" "credentials_data creds = Ok (creds, data)"
      "Data s = Some (data(awsIAMRoleGenerationKey \<mapsto> show_int (sint (Generation (RoleMeta r)))))"
      by (auto simp: fed_def)
    then have "expressible (Expiration creds)" "timely T limit (asks r (Ok creds))"
      using Cons.prems(4) by (simp_all add: smooth_def)
    with r show "\<exists>r \<in> set roles. map_key (SecretMeta s) = map_key (RoleMeta r) \<and> up_to_date T r s"
      by (blast intro: up_to_date_stored)
  qed
  moreover have "list_all (carries T roles) cs"
    using Cons.prems by (intro Cons.IH [of "Some d"]) simp_all
  ultimately show ?case by simp
qed simp

text \<open>The secret that a role has, if any, is its own.\<close>

definition ready :: "aws_controller \<Rightarrow> cluster \<Rightarrow> awsiamrole \<Rightarrow> bool" where
  "ready c K r \<longleftrightarrow> (\<forall>s. secrets_in K (object_key (RoleMeta r)) = Some s
     \<and> selected (namespace c) awsIAMRoleOwnerLabels s \<longrightarrow> owned_by r s)"

lemma listed_key:
  assumes "sees c secrets roles K" and "well_formed K" and "s \<in> set secrets" and "t \<in> set secrets"
  shows "object_key (SecretMeta s) = object_key (SecretMeta t) \<longleftrightarrow> s = t"
  using assms(3,4) sees_secret(1) [OF assms(1,2)] by (metis option.inject)

lemma listed_secret:
  assumes "sees c secrets roles K" and "well_formed K" and "r \<in> set roles"
  shows "secrets_map secrets (map_key (RoleMeta r)) = Some s \<longleftrightarrow> s \<in> set secrets
    \<and> object_key (SecretMeta s) = object_key (RoleMeta r)"
  using sees_secret(3) [OF assms(1,2) sees_role(2) [OF assms]] sees_secret(1) [OF assms(1,2), of s] assms(2)
  by (auto simp: satisfying_Some well_formed_def dest: keyedD(1))

lemma ready_no_orphan:
  assumes "sees c secrets roles K" and "well_formed K" and "r \<in> set roles" and "ready c K r"
    and "s \<in> set secrets" and "object_key (SecretMeta s) = object_key (RoleMeta r)"
  shows "\<not> orphan (roles_map roles) s"
  using assms(3-6) sees_secret(1) [OF assms(1,2)] orphan_key [OF assms(1,2,5)]
  unfolding ready_def by (metis (no_types, lifting))

lemma same_key_roles:
  assumes "sees c secrets roles K" and "well_formed K" and "r \<in> set roles" and "r' \<in> set roles"
  shows "map_key (RoleMeta r) = map_key (RoleMeta r') \<longleftrightarrow> r = r'"
    and "object_key (RoleMeta r) = object_key (RoleMeta r') \<longleftrightarrow> r = r'"
proof -
  show key: "object_key (RoleMeta r) = object_key (RoleMeta r') \<longleftrightarrow> r = r'"
    using assms(3,4) sees_role(1) [OF assms(1,2)] by (metis option.inject)
  then show "map_key (RoleMeta r) = map_key (RoleMeta r') \<longleftrightarrow> r = r'"
    using map_key_eq_iff [OF sees_role(2) [OF assms(1-3)] sees_role(2) [OF assms(1,2,4)]] by simp
qed

text \<open>The calls of the turns of a role and of a secret store under their own key only.\<close>

lemma reconcile_trace_own:
  assumes "sees c secrets roles K" and "well_formed K" and "r \<in> set roles"
    and "reconcile_trace (secrets_map secrets) r q cs" and "d \<in> set cs" and "stored d = Some s"
  shows "object_key (SecretMeta s) = object_key (RoleMeta r)"
proof -
  have "role_call secrets [r] d"
    using reconcile_trace_role_call [OF assms(4), of "[r]"] assms(5) by (simp add: list_all_iff)
  with assms(6) consider t data where "t \<in> set secrets" "map_key (SecretMeta t) = map_key (RoleMeta r)"
      "s = renewed r data t" | data where "s = new_secret r data"
    by (cases d) auto
  then show ?thesis
  proof cases
    case (1 t data)
    with map_key_eq_iff [OF sees_secret(2) [OF assms(1,2) 1(1)] sees_role(2) [OF assms(1-3)]] show ?thesis
      by (simp add: renewed_sel)
  qed (simp add: new_secret_sel)
qed

lemma owned_trace_own:
  assumes "owned_trace lim (roles_map roles) t os q cs" and "d \<in> set cs" and "stored d = Some s"
  shows "object_key (SecretMeta s) = object_key (SecretMeta t)"
proof -
  have "early [t] (roles_map roles) d"
    using owned_trace_early [OF assms(1), of "[t]"] assms(2) by (simp add: list_all_iff)
  with assms(3) show ?thesis unfolding early_def by auto
qed

section \<open>Each role gets its secret and its status\<close>

lemma expiry_of_unreadable:
  "parse_RFC3339 (data_value d expireKey) = None \<Longrightarrow> expiry_of d = None"
  by (auto simp: expiry_of_def data_value_def split: option.splits)

abbreviation reports :: "awsiamrole \<Rightarrow> call list \<Rightarrow> bool" where
  "reports r cs \<equiv> \<exists>arn t res. CUpdateStatus (role_ns r) (with_status r arn t) res \<in> set cs"

definition observes :: "awsiamrole \<Rightarrow> bool" where
  "observes r \<longleftrightarrow> ObservedGeneration (Status r) = Some (Generation (RoleMeta r))"

lemma sync_trace_reports:
  assumes "sync_trace r s cs" and "expiry_of (Data s) \<noteq> None"
  shows "observes r \<or> reports r cs"
  using assms by (cases rule: sync_trace.cases) (auto simp: observes_def expiry_of_unreadable)

lemma smooth_not_Err: "credentials_data creds = Err err \<Longrightarrow> \<not> expressible (Expiration creds)"
  by (auto elim: credentials_data_Ok)

abbreviation unwritten :: "call list \<Rightarrow> bool" where
  "unwritten cs \<equiv> \<exists>d s. d \<in> set cs \<and> stored d = Some s \<and> \<not> wrote d"

lemma asks_up_to_date:
  assumes "smooth (asks r g)" and "obind g credentials_data = Ok (creds, data)"
  shows "up_to_date None r (renewed r data s)"
  using assms by (auto elim!: smooth_asks intro: up_to_date_stored [where limit = 0])

lemma reconcile_trace_reports:
  assumes "reconcile_trace sm r (Ok ()) cs" and "\<And>g. asks r g \<in> set cs \<Longrightarrow> smooth (asks r g)"
    and "\<And>s. sm (map_key (RoleMeta r)) = Some s \<Longrightarrow> \<exists>n. getGeneration (Data s) = Inr n"
  shows "observes r \<or> reports r cs \<or> unwritten cs
    \<or> (\<exists>s. sm (map_key (RoleMeta r)) = Some s \<and> expiry_of (Data s) = None)"
  using assms(1)
proof (cases rule: reconcile_trace.cases)
  case (garbled s err)
  with assms(3) show ?thesis by fastforce
next
  case (current s)
  then show ?thesis using sync_trace_reports by blast
next
  case (written s n g creds data cs' s')
  have "smooth (asks r g)" by (rule assms(2)) (simp add: written(1))
  from asks_up_to_date [OF this written(5)] have "observes r \<or> reports r cs'"
    using written(6) sync_trace_reports by (fastforce simp: up_to_date_def)
  with written(1) show ?thesis by auto
qed (use assms(2) in \<open>auto simp: smooth_def dest: smooth_not_Err\<close>)

lemma owned_trace_reports:
  assumes "owned_trace lim rm s os (Ok os') cs" and "\<not> orphan rm s"
    and "\<And>g. asks r g \<in> set cs \<Longrightarrow> smooth (asks r g)"
    and "expiry_of (Data s) = None" and "rm (map_key (SecretMeta s)) = Some r"
  shows "reports r cs \<or> unwritten cs"
  using assms(1)
proof (cases rule: owned_trace.cases)
  case (fresh r')
  with assms(4) show ?thesis by (simp add: due_trace_def)
next
  case (refused r' ds g err)
  with assms(3,5) have "smooth (asks r g)" by simp
  with refused(6) show ?thesis by (auto simp: smooth_def dest: smooth_not_Err)
qed (use assms(2,5) in auto)

text \<open>Who writes the secret of a role reports its status.\<close>

lemma listed_trace_written:
  assumes "listed_trace c secrets roles (Ok ()) cs" and "\<And>q g. asks q g \<in> set cs \<Longrightarrow> smooth (asks q g)"
    and "sees c secrets roles K" and "well_formed K" and r: "r \<in> set roles"
    and "superseded cs (object_key (RoleMeta r))"
  shows "observes r \<or> reports r cs"
  using assms(1)
proof (cases rule: listed_trace_cases)
  case (finished cs1 cs2 cs3)
  note same = same_key_roles [OF assms(3,4) _ r]
  from assms(6) obtain d s where d: "d \<in> set cs" "wrote d" "stored d = Some s"
    "object_key (SecretMeta s) = object_key (RoleMeta r)" unfolding superseded_def by blast
  from d(1) finished(1) consider "d \<in> set cs1" | "d \<in> set cs2" | "d \<in> set cs3" by auto
  then show ?thesis
  proof cases
    case 1
    with finished(2) obtain t os q cs' where t: "owned_trace (refreshLimit c) (roles_map roles) t os q cs'"
      "set cs' \<subseteq> set cs1" "d \<in> set cs'" by (rule loop_trace_call)
    from owned_trace_own [OF t(1,3) d(3)] d(4) have key: "map_key (SecretMeta t) = map_key (RoleMeta r)"
      by (simp add: object_key_def map_key_def)
    have "q = r" if "roles_map roles (map_key (SecretMeta t)) = Some q" for q
      using roles_map_SomeD [OF that] same(1) [of q] key by simp
    with t d(2,3) have "reports r cs'"
      by (cases rule: owned_trace.cases) (auto simp: due_trace_def split: option.splits if_splits)
    with t(2) finished(1) show ?thesis by auto
  next
    case 2
    with finished(3) obtain t u q cs' where "deleted_trace t u q cs'" "d \<in> set cs'"
      by (rule loop_trace_call)
    with d(3) show ?thesis by (auto simp: deleted_trace_def)
  next
    case 3
    with finished(4) obtain q u res cs' where q: "q \<in> set roles" "reconcile_trace (secrets_map secrets) q res cs'"
      "set cs' \<subseteq> set cs3" "d \<in> set cs'" by (rule loop_trace_call)
    from reconcile_trace_own [OF assms(3,4) q(1,2,4) d(3)] d(4) same(2) [OF q(1)] have "q = r" by simp
    note turn = q(2) [unfolded this]
    have asked: "smooth (asks r g)" if "asks r g \<in> set cs'" for g
      by (rule assms(2)) (use that q(3) finished(1) in auto)
    from turn have "observes r \<or> reports r cs'"
    proof (cases rule: reconcile_trace.cases)
      case (written t n g creds data ds s')
      have "smooth (asks r g)" by (rule asked) (simp add: written)
      from asks_up_to_date [OF this, of creds data t] written have "observes r \<or> reports r ds"
        using sync_trace_reports by (fastforce simp: up_to_date_def)
      with written show ?thesis by auto
    next
      case (current t)
      with q(4) d(3) show ?thesis by (auto elim!: sync_traceE)
    qed (use q(4) d(2,3) in auto)
    with q(3) finished(1) show ?thesis by auto
  qed
qed simp

text \<open>So does everybody who tries, as the failures of the refresh are tolerable.\<close>

lemma listed_trace_tries:
  assumes "listed_trace c secrets roles (Ok ()) cs" and fair: "list_all (tolerable secrets (roles_map roles) cs) cs"
    and "sees c secrets roles K" and "well_formed K" and "ready c K r" and r: "r \<in> set roles"
    and "d \<in> set cs" and "stored d = Some s" and "object_key (SecretMeta s) = object_key (RoleMeta r)"
  shows "observes r \<or> reports r cs"
proof -
  have "tolerable secrets (roles_map roles) cs d" using fair assms(7) by (simp add: list_all_iff)
  then have "superseded cs (object_key (RoleMeta r))"
    using tolerable_superseded [OF _ assms(7,8)] ready_no_orphan [OF assms(3,4) r assms(5)] assms(9) by simp
  moreover have "smooth (asks q g)" if "asks q g \<in> set cs" for q g
    using fair that unfolding list_all_iff by (blast dest: tolerable_simps(1) [THEN iffD1])
  ultimately show ?thesis using listed_trace_written [OF assms(1) _ assms(3,4) r] by blast
qed

lemma due_secret_reports:
  assumes "loop_trace (owned_trace lim (roles_map roles)) secrets os (Ok os') cs"
    and "sees c secrets roles K" and "well_formed K" and "ready c K r" and r: "r \<in> set roles"
    and s: "s \<in> set secrets" "object_key (SecretMeta s) = object_key (RoleMeta r)" and "expiry_of (Data s) = None"
    and "\<And>g. asks r g \<in> set cs \<Longrightarrow> smooth (asks r g)"
  shows "reports r cs \<or> (\<exists>d t. d \<in> set cs \<and> stored d = Some t \<and> object_key (SecretMeta t) = object_key (RoleMeta r))"
proof -
  from assms(1) refl s(1) obtain pre cs' post a b where cs: "cs = pre @ cs' @ post"
    "owned_trace lim (roles_map roles) s a (Ok b) cs'"
    by (rule loop_trace_turn)
  have rm: "roles_map roles (map_key (SecretMeta s)) = Some r"
    unfolding sees_role(3) [OF assms(2,3) sees_secret(2) [OF assms(2,3) s(1)]] s(2)
    using r sees_role(1) [OF assms(2,3)] by (simp add: satisfying_Some)
  have "reports r cs' \<or> unwritten cs'"
    by (rule owned_trace_reports [OF cs(2) ready_no_orphan [OF assms(2,3) r assms(4) s] _ assms(8) rm])
      (use assms(9) cs(1) in simp)
  with cs(1) owned_trace_own [OF cs(2)] s(2) show ?thesis by (metis Un_iff set_append)
qed

lemma listed_trace_reports:
  assumes "listed_trace c secrets roles (Ok ()) cs" and fair: "list_all (tolerable secrets (roles_map roles) cs) cs"
    and "sees c secrets roles K" and "well_formed K" and "ready c K r" and "readable c K"
    and r: "r \<in> set roles"
  shows "observes r \<or> reports r cs"
  using assms(1)
proof (cases rule: listed_trace_cases)
  case (finished cs1 cs2 cs3)
  have asked: "smooth (asks q g)" if "asks q g \<in> set cs" for q g
    using fair that unfolding list_all_iff by (blast dest: tolerable_simps(1) [THEN iffD1])
  note tries = listed_trace_tries [OF assms(1-5) r]
  note listed = listed_secret [OF assms(3,4) r]
  from finished(4) refl r obtain pre cs' post where cs3: "cs3 = pre @ cs' @ post"
    "reconcile_trace (secrets_map secrets) r (Ok ()) cs'"
    by (rule loop_trace_turn) simp
  have sub: "set cs' \<subseteq> set cs" "set cs1 \<subseteq> set cs" using finished(1) cs3(1) by auto
  have "\<exists>n. getGeneration (Data s) = Inr n" if "secrets_map secrets (map_key (RoleMeta r)) = Some s" for s
    using that sees_secret(1) [OF assms(3,4)] assms(6) unfolding listed readable_def by blast
  then have "observes r \<or> reports r cs' \<or> unwritten cs'
      \<or> (\<exists>s. secrets_map secrets (map_key (RoleMeta r)) = Some s \<and> expiry_of (Data s) = None)"
    using reconcile_trace_reports [OF cs3(2)] asked sub(1) by blast
  moreover have "observes r \<or> reports r cs" if "unwritten cs'"
    using that sub(1) tries reconcile_trace_own [OF assms(3,4) r cs3(2)] by blast
  moreover have "observes r \<or> reports r cs"
    if "secrets_map secrets (map_key (RoleMeta r)) = Some s" "expiry_of (Data s) = None" for s
    using due_secret_reports [OF finished(2) assms(3-5) r _ _ that(2)] that(1) asked sub(2) tries
    unfolding listed by blast
  ultimately show ?thesis using sub(1) by blast
qed simp

lemma owes_write_smooth:
  assumes "owes_write r store cs" and "list_all (tolerable secrets rm ds) cs"
  shows "\<exists>data res. store data res \<in> set cs"
proof -
  from assms(1) obtain g where g: "asks r g \<in> set cs" and *: "case obind g credentials_data of
        Ok (creds, data) \<Rightarrow> \<exists>res. store data res \<in> set cs
      | Err err \<Rightarrow> CEvent r EventTypeWarning ''GetCredentialsFailed''
          (FailedToGetCredentials (RoleReference (Spec r)) err) \<in> set cs
      | Panic m \<Rightarrow> False"
    unfolding owes_write_def by blast
  from g assms(2) have "tolerable secrets rm ds (asks r g)" unfolding list_all_iff by blast
  then have "smooth (asks r g)" unfolding tolerable_simps .
  then obtain creds data where "obind g credentials_data = Ok (creds, data)" by (rule smooth_asks)
  with * show ?thesis by (auto simp del: obind_eq_Ok)
qed

abbreviation writes_for :: "awsiamrole \<Rightarrow> call list \<Rightarrow> bool" where
  "writes_for r cs \<equiv> \<exists>d s. d \<in> set cs \<and> stored d = Some s \<and> object_key (SecretMeta s) = object_key (RoleMeta r)"

lemma listed_trace_writes:
  assumes "listed_trace c secrets roles (Ok ()) cs" and "list_all (tolerable secrets (roles_map roles) cs) cs"
    and "sees c secrets roles K" and "well_formed K" and "ready c K r" and "readable c K"
    and "list_all (timely T (refreshLimit c)) cs" and r: "r \<in> set roles"
  shows "writes_for r cs \<or> (\<exists>s. secrets_in K (object_key (RoleMeta r)) = Some s
    \<and> selected (namespace c) awsIAMRoleOwnerLabels s \<and> up_to_date T r s)"
proof -
  have served: "list_all (secret_served (refreshLimit c) (roles_map roles) cs) secrets"
    "role_served (secrets_map secrets) cs r"
    using listed_trace_served [OF assms(1)] r by (auto simp: list_all_iff)
  show ?thesis
  proof (cases "secrets_map secrets (map_key (RoleMeta r))")
    case None
    with served(2) obtain data res where "CCreateSecret (role_ns r) (new_secret r data) res \<in> set cs"
      using owes_write_smooth [OF _ assms(2)] by (fastforce simp: role_served_def)
    then show ?thesis by (intro disjI1 exI conjI) (auto simp: new_secret_sel)
  next
    case (Some s)
    then have listed: "s \<in> set secrets" and key: "object_key (SecretMeta s) = object_key (RoleMeta r)"
      unfolding listed_secret [OF assms(3,4) r] by blast+
    then have s: "secrets_in K (object_key (RoleMeta r)) = Some s" "selected (namespace c) awsIAMRoleOwnerLabels s"
      using sees_secret(1) [OF assms(3,4)] by simp_all
    have stores: "writes_for r cs"
      if "owes_write q (\<lambda>data. CUpdateSecret (secret_ns s) (renewed q data s)) cs" for q
    proof -
      from owes_write_smooth [OF that assms(2)] obtain data res
        where "CUpdateSecret (secret_ns s) (renewed q data s) res \<in> set cs" by blast
      with key show ?thesis
        by (intro exI [of _ "CUpdateSecret (secret_ns s) (renewed q data s) res"]
            exI [of _ "renewed q data s"]) (simp add: renewed_sel)
    qed
    from s assms(6) obtain n where n: "getGeneration (Data s) = Inr n"
      unfolding readable_def by blast
    consider "Generation (RoleMeta r) \<noteq> n" | "\<not> (\<exists>u. expiry_of (Data s) = Some u \<and> lasts T u)" | "up_to_date T r s"
      using n by (auto simp: up_to_date_def)
    then show ?thesis
    proof cases
      case 1
      with served(2) Some n stores show ?thesis by (simp add: role_served_def)
    next
      case 2
      note ready_no_orphan [OF assms(3,4) r assms(5) listed key]
      moreover have "secret_served (refreshLimit c) (roles_map roles) cs s"
        using served(1) listed by (simp add: list_all_iff)
      ultimately obtain q b ds where due: "due_trace (refreshLimit c) (Data s) b ds" "set ds \<subseteq> set cs"
        "b \<Longrightarrow> owes_write q (\<lambda>data. CUpdateSecret (secret_ns s) (renewed q data s)) cs"
        by (auto simp: secret_served_def split: if_splits)
      have "list_all (timely T (refreshLimit c)) ds"
        using assms(7) due(2) by (auto simp: list_all_iff)
      with due_or_lasts [OF due(1)] 2 due(3)
      have "owes_write q (\<lambda>data. CUpdateSecret (secret_ns s) (renewed q data s)) cs" by blast
      then show ?thesis using stores by blast
    next
      case 3
      with s show ?thesis by blast
    qed
  qed
qed

text \<open>Every write leaves an up-to-date secret, and every report a role that has observed its generation.\<close>

definition has_secret :: "int option \<Rightarrow> aws_controller \<Rightarrow> awsiamrole \<Rightarrow> cluster \<Rightarrow> bool" where
  "has_secret T c r K \<longleftrightarrow> (\<exists>s. secrets_in K (object_key (RoleMeta r)) = Some s
     \<and> selected (namespace c) awsIAMRoleOwnerLabels s \<and> up_to_date T r s)"

definition has_status :: "awsiamrole \<Rightarrow> cluster \<Rightarrow> bool" where
  "has_status r K \<longleftrightarrow> (\<exists>r'. roles_in K (object_key (RoleMeta r)) = Some r' \<and> observes r')"

lemma mergeLabels_owner: "awsIAMRoleOwnerLabels \<subseteq>\<^sub>m mergeLabels m awsIAMRoleOwnerLabels"
  by (simp add: mergeLabels_def)

lemma change_secret:
  assumes "change secrets roles L d L'" and "carries T roles d"
    and "sees c secrets roles K" and "well_formed K" and r: "r \<in> set roles"
    and none: "\<And>s. s \<in> set secrets \<Longrightarrow> object_key (SecretMeta s) = object_key (RoleMeta r)
      \<Longrightarrow> \<not> orphan (roles_map roles) s"
  shows "has_secret T c r L \<Longrightarrow> has_secret T c r L'"
    and "wrote d \<Longrightarrow> stored d = Some s1 \<Longrightarrow> object_key (SecretMeta s1) = object_key (RoleMeta r)
      \<Longrightarrow> has_secret T c r L'"
proof -
  have ns: "in_namespace (namespace c) (RoleMeta r)" using r sees_role(1) [OF assms(3,4)] by simp
  have new: "selected (namespace c) awsIAMRoleOwnerLabels s' \<and> up_to_date T r s'"
    if "stored d = Some s" "accepted s s'" "object_key (SecretMeta s) = object_key (RoleMeta r)"
      "awsIAMRoleOwnerLabels \<subseteq>\<^sub>m Labels (SecretMeta s)" for s s'
  proof -
    from that(1) assms(2) obtain q where q: "q \<in> set roles"
      "map_key (SecretMeta s) = map_key (RoleMeta q)" "up_to_date T q s" unfolding carries_def by blast
    from that(3) have "map_key (SecretMeta s) = map_key (RoleMeta r)"
      by (simp add: object_key_def map_key_def)
    with q r have "q = r" using same_key_roles(1) [OF assms(3,4)] by metis
    with q that ns show ?thesis
      by (simp add: selected_def accepted_sel up_to_date_def in_namespace_def object_key_def)
  qed
  have labels: "awsIAMRoleOwnerLabels \<subseteq>\<^sub>m Labels (SecretMeta (renewed q data s))"
    "awsIAMRoleOwnerLabels \<subseteq>\<^sub>m Labels (SecretMeta (new_secret q data))" for q data s
    by (simp_all add: renewed_def new_secret_def mergeLabels_owner)
  have either: "secrets_in L' k = secrets_in L k \<and> \<not> (wrote d \<and> (\<exists>s. stored d = Some s \<and> object_key (SecretMeta s) = k))
      \<or> has_secret T c r L'" if k: "k = object_key (RoleMeta r)" for k
    using assms(1)
  proof (cases rule: change.cases)
    case (renewal s q old data s' ns res)
    show ?thesis
    proof (cases "object_key (SecretMeta s) = k")
      case True
      with renewal k new [of "renewed q data s" s'] labels(1) show ?thesis
        by (auto simp: has_secret_def renewed_sel)
    qed (use renewal in \<open>simp add: renewed_sel\<close>)
  next
    case (creation q data s' ns res)
    show ?thesis
    proof (cases "object_key (RoleMeta q) = k")
      case True
      with creation k new [of "new_secret q data" s'] labels(2) show ?thesis
        by (auto simp: has_secret_def new_secret_sel)
    qed (use creation in \<open>simp add: new_secret_sel\<close>)
  next
    case (deletion s ns n res)
    then have "object_key (SecretMeta s) \<noteq> k" using none k by blast
    with deletion show ?thesis by simp
  qed simp_all
  from either [OF refl] show "has_secret T c r L \<Longrightarrow> has_secret T c r L'"
    by (auto simp: has_secret_def)
  from either [OF refl] show "wrote d \<Longrightarrow> stored d = Some s1
      \<Longrightarrow> object_key (SecretMeta s1) = object_key (RoleMeta r) \<Longrightarrow> has_secret T c r L'"
    by blast
qed

lemma change_status:
  assumes "change secrets roles L d L'" and "kept c secrets roles L"
    and "sees c secrets roles K" and "well_formed K" and r: "r \<in> set roles"
  shows "has_status r L \<Longrightarrow> has_status r L'"
    and "d = CUpdateStatus (role_ns r) (with_status r arn t) res \<Longrightarrow> wrote d \<Longrightarrow> has_status r L'"
proof -
  have either: "roles_in L' (object_key (RoleMeta r)) = roles_in L (object_key (RoleMeta r))
        \<and> \<not> (wrote d \<and> d = CUpdateStatus (role_ns r) (with_status r arn t) res)
      \<or> has_status r L'"
    using assms(1)
  proof (cases rule: change.cases)
    case (report q old ns arn' t' res' v)
    show ?thesis
    proof (cases "object_key (RoleMeta q) = object_key (RoleMeta r)")
      case True
      then have "q = r" using same_key_roles(2) [OF assms(3,4) report(3) r] by simp
      moreover from this have "same_role r old"
        using assms(2) r report(4) unfolding kept_def by (metis option.inject)
      ultimately show ?thesis
        using report(2) by (simp add: has_status_def observes_def same_role_sel)
    next
      case False
      then have "with_status q arn' t' \<noteq> with_status r arn t"
        by (metis with_status_sel(1))
      with False report(1,2) show ?thesis by simp
    qed
  qed auto
  from either show "has_status r L \<Longrightarrow> has_status r L'"
    by (auto simp: has_status_def)
  from either show "d = CUpdateStatus (role_ns r) (with_status r arn t) res \<Longrightarrow> wrote d \<Longrightarrow> has_status r L'"
    by blast
qed

section \<open>Two refreshes settle a cluster\<close>

text \<open>What is settled for every list that shows the cluster.\<close>

definition settles :: "aws_controller \<Rightarrow> cluster \<Rightarrow> bool" where
  "settles c K \<longleftrightarrow> well_formed K \<and> (\<forall>secrets roles. sees c secrets roles K \<longrightarrow> settled secrets roles)"

lemma settlesI:
  assumes "kept c secrets roles K" and "collected c K"
    and "\<And>r. r \<in> set roles \<Longrightarrow> has_secret None c r K \<and> has_status r K"
  shows "settles c K"
proof -
  have wf: "well_formed K" using assms(1) by (simp add: kept_def)
  have role: "\<exists>s. secrets_in K k = Some s \<and> selected (namespace c) awsIAMRoleOwnerLabels s \<and> up_to_date None r s
      \<and> observes r" if "roles_in K k = Some r" "in_namespace (namespace c) (RoleMeta r)" for k r
  proof -
    from that assms(1) obtain q where q: "q \<in> set roles" "same_role q r" unfolding kept_def by blast
    have k: "object_key (RoleMeta q) = k"
      using wf that(1) q(2) unfolding well_formed_def by (metis keyedD(1) same_role_sel(1))
    from assms(3) [OF q(1)] that(1) k show ?thesis
      unfolding has_secret_def has_status_def using up_to_date_same [OF q(2) refl] by auto
  qed
  have "settled secrets' roles'" if sees: "sees c secrets' roles' K" for secrets' roles'
    unfolding settled_def list_all_iff
  proof (intro conjI ballI)
    fix s
    assume s: "s \<in> set secrets'"
    note K = sees_secret(1) [OF sees wf, of s]
    from s K assms(2) obtain r where r: "roles_in K (object_key (SecretMeta s)) = Some r" "owned_by r s"
      unfolding collected_def by blast
    have key: "object_key (RoleMeta r) = object_key (SecretMeta s)"
      using wf r(1) unfolding well_formed_def by (blast dest: keyedD(1))
    have ns: "in_namespace (namespace c) (RoleMeta r)"
      using s K key by (simp add: selected_def in_namespace_def object_key_def)
    then have "r \<in> set roles'" using sees_role(1) [OF sees wf] r key by simp
    then have "\<not> orphan (roles_map roles') s"
      using orphan_key [OF sees wf s] r(2) key by blast
    moreover have "up_to_date None r s" using role [OF r(1) ns] s K by auto
    ultimately show "settled_secret (roles_map roles') s"
      by (auto simp: settled_secret_def up_to_date_def)
  next
    fix r
    assume r: "r \<in> set roles'"
    then have "roles_in K (object_key (RoleMeta r)) = Some r" "in_namespace (namespace c) (RoleMeta r)"
      using sees_role(1) [OF sees wf] by auto
    from role [OF this] obtain s where "secrets_in K (object_key (RoleMeta r)) = Some s"
      "selected (namespace c) awsIAMRoleOwnerLabels s" "up_to_date None r s" "observes r" by blast
    moreover from this have "secrets_map secrets' (map_key (RoleMeta r)) = Some s"
      using sees_secret(3) [OF sees wf sees_role(2) [OF sees wf r]] by (simp add: satisfying_Some)
    ultimately show "settled_role (secrets_map secrets') r"
      by (simp add: settled_role_def up_to_date_def observes_def)
  qed
  with wf show ?thesis by (simp add: settles_def)
qed

lemma listed_trace_reported:
  assumes "listed_trace c secrets roles (Ok ()) cs"
    and "tolerable secrets (roles_map roles) cs (CUpdateStatus ns (with_status r arn t) res)"
    and "sees c secrets roles K" and "well_formed K" and r: "r \<in> set roles"
    and d: "CUpdateStatus ns (with_status r arn t) res \<in> set cs"
  shows "\<exists>arn t res. CUpdateStatus (role_ns r) (with_status r arn t) (Inr res) \<in> set cs"
proof -
  have calls: "role_call secrets roles d" if "d \<in> set cs" for d
    using listed_trace_role_call [OF assms(1)] that by (simp add: list_all_iff)
  have "\<exists>ns' q' q''. CUpdateStatus ns' q' (Inr q'') \<in> set cs \<and> object_key (RoleMeta q') = object_key (RoleMeta r)"
  proof (cases "smooth (CUpdateStatus ns (with_status r arn t) res)")
    case True
    then obtain q'' where "res = Inr q''" by (auto simp: smooth_def not_Inl_iff)
    with d show ?thesis by (metis with_status_sel(1))
  next
    case False
    with assms(2) show ?thesis by (auto simp: tolerable_def excused_def)
  qed
  then obtain ns' q' q'' where q': "CUpdateStatus ns' q' (Inr q'') \<in> set cs"
    "object_key (RoleMeta q') = object_key (RoleMeta r)" by blast
  from calls [OF q'(1)] obtain q arn' t' where q: "q \<in> set roles" "ns' = role_ns q" "q' = with_status q arn' t'"
    by auto
  with q'(2) same_key_roles(2) [OF assms(3,4) q(1) r] have "q = r" by simp
  with q'(1) q show ?thesis by blast
qed

text \<open>After the refresh a role has its secret and its status, if the secret of its name was its own.\<close>

lemma listed_trace_secret:
  assumes "listed_trace c secrets roles (Ok ()) cs" and "list_all (tolerable secrets (roles_map roles) cs) cs"
    and "sees c secrets roles K" and "well_formed K" and "api_run K cs K'"
    and "ready c K r" and "readable c K" and "list_all (timely T (refreshLimit c)) cs" and r: "r \<in> set roles"
  shows "has_secret T c r K'"
proof -
  have "list_all (carries T roles) cs"
    using listed_trace_fed [OF assms(1)] assms(2,8) by (rule fed_carries) simp
  then have carries: "carries T roles d" if "d \<in> set cs" for d using that by (simp add: list_all_iff)
  have fair: "tolerable secrets (roles_map roles) cs d" if "d \<in> set cs" for d
    using that assms(2) by (simp add: list_all_iff)
  note owned = ready_no_orphan [OF assms(3,4) r assms(6)]
  note secret = change_secret [OF listed_trace_change [OF assms(1)] carries assms(3,4) r owned]
  show ?thesis
  proof (cases "has_secret T c r K")
    case True
    from assms(5) this show ?thesis by (rule steps_invariant) (rule secret(1))
  next
    case False
    then have "writes_for r cs"
      using listed_trace_writes [OF assms(1-4,6-8) r] unfolding has_secret_def by blast
    then have "superseded cs (object_key (RoleMeta r))"
      using tolerable_superseded [OF fair] owned by metis
    then obtain d s where d: "d \<in> set cs" "stored d = Some s"
      "object_key (SecretMeta s) = object_key (RoleMeta r)" and wrote: "wrote d"
      unfolding superseded_def by blast
    from assms(5) d(1) TrueI show ?thesis
      by (rule steps_establish [where I = "\<lambda>_. True"])
        (auto intro: secret(1) secret(2) [OF d(1) _ d(1)] simp: d wrote)
  qed
qed

lemma listed_trace_status:
  assumes "listed_trace c secrets roles (Ok ()) cs" and "list_all (tolerable secrets (roles_map roles) cs) cs"
    and "sees c secrets roles K" and "well_formed K" and "api_run K cs K'"
    and "ready c K r" and "readable c K" and r: "r \<in> set roles"
  shows "has_status r K'"
proof -
  note slash = sees_role(2) [OF assms(3,4)]
  note change = listed_trace_change [OF assms(1)] and status = change_status [OF _ _ assms(3,4) r]
  have fair: "tolerable secrets (roles_map roles) cs d" if "d \<in> set cs" for d
    using that assms(2) by (simp add: list_all_iff)
  show ?thesis
  proof (cases "observes r")
    case True
    then have "kept c secrets roles K \<and> has_status r K"
      using r sees_role(1) [OF assms(3,4)] kept_init [OF assms(3,4)] by (simp add: has_status_def)
    with assms(5) have "kept c secrets roles K' \<and> has_status r K'"
      by (rule steps_invariant [where I = "\<lambda>K. kept c secrets roles K \<and> has_status r K"])
        (meson change status(1) kept_change slash)
    then show ?thesis ..
  next
    case False
    then obtain arn t res where "CUpdateStatus (role_ns r) (with_status r arn t) res \<in> set cs"
      using listed_trace_reports [OF assms(1-4,6,7) r] by blast
    from listed_trace_reported [OF assms(1) fair [OF this] assms(3,4) r this] obtain arn t res
      where d: "CUpdateStatus (role_ns r) (with_status r arn t) (Inr res) \<in> set cs" by blast
    from assms(5) d kept_init [OF assms(3,4)] show ?thesis
    proof (rule steps_establish)
      fix L L'
      assume "kept c secrets roles L" "api_step L (CUpdateStatus (role_ns r) (with_status r arn t) (Inr res)) L'"
      then show "has_status r L'"
        using status(2) [OF change [OF d]] by (metis wrote.simps(8))
    qed (meson change status(1) kept_change slash)+
  qed
qed

lemma collected_ready:
  assumes "sees c secrets roles K" and "well_formed K" and "collected c K" and "r \<in> set roles"
  shows "ready c K r"
  using assms(3,4) sees_role(1) [OF assms(1,2)] unfolding ready_def collected_def by (metis option.inject)

lemma listed_trace_settles:
  assumes "listed_trace c secrets roles (Ok ()) cs" and "list_all (tolerable secrets (roles_map roles) cs) cs"
    and "sees c secrets roles K" and "well_formed K" and "api_run K cs K'"
    and "collected c K" and "readable c K"
  shows "settles c K'"
proof (rule settlesI)
  show "kept c secrets roles K'" "collected c K'"
    using listed_trace_collects [OF assms(1,3-5) tolerable_deletes [OF assms(2)]] by blast+
  fix r
  assume "r \<in> set roles"
  then show "has_secret None c r K' \<and> has_status r K'"
    using listed_trace_secret [OF assms(1-5) _ assms(7) timely_None(2)] listed_trace_status [OF assms(1-5) _ assms(7)]
      collected_ready [OF assms(3,4,6)] by blast
qed

lemma listed_trace_readable:
  assumes "listed_trace c secrets roles r cs" and "api_run K cs K'" and "readable c K"
  shows "readable c K'"
proof -
  have "readable c L'" if "d \<in> set cs" "readable c L" "api_step L d L'" for d L L'
    using readable_change [OF listed_trace_change [OF assms(1) that(1,3)] that(2)] .
  with assms(2,3) show ?thesis by (rule steps_invariant)
qed

lemma smooth_refresh:
  assumes "serves e v" and "well_formed (v (world s))" and "readable c (v (world s))"
    and "run_state (AWSIAMRole_refresh e c) s = (r, s')"
  obtains cs where "trace s' = trace s @ cs"
    "list_all smooth cs \<longrightarrow> r = Ok () \<and> well_formed (v (world s')) \<and> readable c (v (world s'))
      \<and> collected c (v (world s')) \<and> (collected c (v (world s)) \<longrightarrow> settles c (v (world s')))"
proof -
  from assms(1) emits_refresh assms(4) obtain cs where cs: "trace s' = trace s @ cs"
    "after_listing c (listed_trace c) r cs" "api_run (v (world s)) cs (v (world s'))"
    by (rule refresh_run)
  from cs(2,3) have "r = Ok () \<and> well_formed (v (world s')) \<and> readable c (v (world s'))
      \<and> collected c (v (world s')) \<and> (collected c (v (world s)) \<longrightarrow> settles c (v (world s')))"
    if smooth: "list_all smooth cs"
  proof (cases rule: after_listing_run)
    case (unlisted err)
    with smooth show ?thesis by (auto simp: list_all_iff smooth_def)
  next
    case (listed secrets roles ds)
    have ds: "list_all smooth ds" using smooth listed(4) by simp
    then have "\<not> panicked r ds" by (auto simp: panicked_def smooth_def)
    then have r: "r = Ok ()" using listed_trace_failures [OF listed(2)] by blast
    note ok = listed(2) [unfolded r]
    show ?thesis
      using r listed_trace_collects [OF ok listed(1) assms(2) listed(3) smooth_deletes [OF ds]]
        listed_trace_readable [OF ok listed(3) assms(3)]
        listed_trace_settles [OF ok tolerable_smooth [OF ds] listed(1) assms(2) listed(3) _ assms(3)]
      by (simp add: kept_def)
  qed
  with cs(1) show thesis by (intro that) blast+
qed

text \<open>
  Refreshing converges.  Whatever secrets and roles a cluster holds, orphans, outdated and expired
  secrets included, if only the generations that its secrets record can be read, then after two
  refreshes in which no call fails both have returned no error and the cluster is settled: every
  role has a secret of its generation and has observed it, every secret with the owner labels has
  its owner, and by the property of settled clusters the next refresh only reads the clock until a
  secret is due.  One refresh is not enough, as the secret of a role that replaced the owner of an
  orphan is created only once the orphan is gone.
\<close>

theorem two_refreshes_settle:
  assumes "serves e v" and "well_formed (v (world s))" and "readable c (v (world s))" and "trace s = []"
    and "run_state (AWSIAMRole_refresh e c) s = (r, s')"
    and "run_state (AWSIAMRole_refresh e c) s' = (r', s'')" and "list_all smooth (trace s'')"
  shows "r = Ok () \<and> r' = Ok () \<and> settles c (v (world s''))"
proof -
  from assms(1-3,5) obtain cs where cs: "trace s' = trace s @ cs"
    "list_all smooth cs \<longrightarrow> r = Ok () \<and> well_formed (v (world s')) \<and> readable c (v (world s'))
      \<and> collected c (v (world s')) \<and> (collected c (v (world s)) \<longrightarrow> settles c (v (world s')))"
    by (rule smooth_refresh)
  from emits_refresh [where P = "listed_trace c"] obtain xs where "trace s'' = trace s' @ xs"
    by (rule emitsD [where s = s' and m = "AWSIAMRole_refresh e c"]) (simp_all add: assms(6))
  with assms(4,7) cs(1) have "list_all smooth cs" by simp
  with cs(2) have first: "r = Ok ()" "well_formed (v (world s'))" "readable c (v (world s'))"
    "collected c (v (world s'))" by auto
  from assms(1) first(2,3) assms(6) obtain ds where ds: "trace s'' = trace s' @ ds"
    "list_all smooth ds \<longrightarrow> r' = Ok () \<and> well_formed (v (world s'')) \<and> readable c (v (world s''))
      \<and> collected c (v (world s'')) \<and> (collected c (v (world s')) \<longrightarrow> settles c (v (world s'')))"
    by (rule smooth_refresh)
  with assms(7) first show ?thesis by simp
qed

text \<open>A cluster with an orphan of the name of a role: the first refresh deletes it, the second makes its secret.\<close>

lemma example_second_refresh:
  assumes "credentials_data example_credentials = Ok (example_credentials, data)"
  defines "new \<equiv> new_secret example_role data"
    and "reported \<equiv> with_status example_role (RoleARN example_credentials) (Expiration example_credentials)"
  shows "\<exists>w. run_state (AWSIAMRole_refresh memory_env example_controller)
      \<lparr>world = example_store\<lparr>stored_secrets := []\<rparr>, trace = cs\<rparr> =
    (Ok (), \<lparr>world = w, trace = cs @
      [CListSecrets [] awsIAMRoleOwnerLabels (Inr []), CListRoles [] (Inr [example_role]),
       asks example_role (Ok example_credentials),
       CCreateSecret (role_ns example_role) new (Inr (assigned new)),
       CEvent example_role EventTypeNormal ''CreateCredentials''
         (CreatedCredentials (RoleARN example_credentials) (Expiration example_credentials)),
       CUpdateStatus (role_ns example_role) reported (Inr reported)]\<rparr>)"
proof -
  have name: "role_name example_role = ''app''" "role_ns example_role = ''default''"
    by (simp_all add: example_role_def example_meta_def)
  then show ?thesis
    by (simp add: evaluation example_store_def assms(1) put_secret_def put_status_def new_secret_sel
      new_def reported_def)
qed

theorem two_refreshes_settle_witness:
  "\<exists>s'. run_state (AWSIAMRole_refresh memory_env example_controller \<bind> (\<lambda>_.
      AWSIAMRole_refresh memory_env example_controller)) \<lparr>world = example_store, trace = []\<rparr> = (Ok (), s')
    \<and> settles example_controller (contents (world s'))"
proof -
  obtain data where data: "credentials_data example_credentials = Ok (example_credentials, data)"
    using example_credentials_data by blast
  note first = example_first_refresh
  from example_second_refresh [OF data] obtain s'' where
    second: "run_state (AWSIAMRole_refresh memory_env example_controller)
      (snd (run_state (AWSIAMRole_refresh memory_env example_controller) \<lparr>world = example_store, trace = []\<rparr>))
      = (Ok (), s'')" and smooth: "list_all smooth (trace s'')"
    using example_credentials_ok(4) unfolding first by (fastforce simp: smooth_def)
  have readable: "readable example_controller (contents example_store)"
    by (simp add: readable_def contents_def example_store_def)
  have "settles example_controller (contents (world s''))"
    using two_refreshes_settle [OF memory_env_serves _ _ _ first _ smooth] second
      example_store_well_formed readable by (simp add: first)
  with second show ?thesis by (auto simp: first)
qed

end
