(* ===== verification/SecretsCluster.thy ===== *)
theory SecretsCluster
  imports Convergence Interference
begin

text \<open>
  The secrets controller on a cluster: what one refresh in which nothing fails makes of it, and what
  the refreshes of both controllers, in any order and whatever fails, keep.
\<close>

section \<open>Runs of a refresh\<close>

lemma follows_Secrets_refresh:
  assumes "serves_by stp e v"
  shows "follows stp v (Secrets_refresh e c)"
proof -
  note calls = follows_calls [OF assms]
  have unowned: "follows stp v (refresh_unowned e c s st)" for s st
    unfolding refresh_unowned_def Secrets_getCreds_def refresh_due_def Let_def
    by (auto intro!: follows_intros calls split: option.split outcome.split sum.split)
  have missing: "follows stp v (create_missing e tmp role creds entry u)" for tmp role creds entry u
    unfolding create_missing_def by (auto intro!: follows_intros calls)
  have used: "follows stp v (provision_used e cache tmp entry u)" for cache tmp entry u
    unfolding provision_used_def Secrets_getCreds_def
    by (auto intro!: follows_intros calls missing split: option.split outcome.split)
  show ?thesis
    unfolding Secrets_refresh_def Secrets_refresh_listed_def
    by (auto intro!: follows_intros calls unowned used split: sum.split)
qed

definition lists :: "secrets_controller \<Rightarrow> secret list \<Rightarrow> cluster \<Rightarrow> bool" where
  "lists c secrets K \<longleftrightarrow> enumerates secrets (satisfying (selected (secNamespace c) ownerLabels) (secrets_in K))"

lemma Secrets_refresh_run:
  assumes "serves e v" and "run_state (Secrets_refresh e c) s = (r, s')"
  obtains (unlisted) cs where "trace s' = trace s @ cs" "\<exists>d \<in> set cs. failed d" "v (world s') = v (world s)"
  | (listed) secrets cs ds where "trace s' = trace s @ cs" "set ds \<subseteq> set cs"
      "lists c secrets (v (world s))" "Secrets_listed_trace c secrets r ds"
      "api_run (v (world s)) ds (v (world s'))"
proof -
  have "emits (after_secrets c (Secrets_listed_trace c)) (Secrets_refresh e c)"
    by (rule emits_Secrets_refresh)
  then obtain cs where cs: "trace s' = trace s @ cs" "after_secrets c (Secrets_listed_trace c) r cs"
    by (rule emitsD [where s = s]) (simp add: assms(2))
  from follows_Secrets_refresh [OF assms(1), of c] have run: "api_run (v (world s)) cs (v (world s'))"
    unfolding follows_def by (metis assms(2) cs(1) same_append_eq snd_conv)
  from cs(2) show thesis
  proof (cases rule: after_secrets.cases)
    case (no_secrets err)
    with run have "v (world s') = v (world s)" by (auto simp: api_step_def elim!: applied_elims)
    with no_secrets cs(1) show thesis by (intro unlisted) auto
  next
    case (listed secrets ds)
    with run have "lists c secrets (v (world s))" "api_run (v (world s)) ds (v (world s'))"
      by (auto simp: lists_def api_step_def elim!: applied_elims)
    with listed cs(1) show thesis by (intro that(2)) auto
  qed
qed

lemma lists_secret:
  assumes "lists c secrets K" and "well_formed K"
  shows "s \<in> set secrets \<longleftrightarrow> secrets_in K (object_key (SecretMeta s)) = Some s
    \<and> selected (secNamespace c) ownerLabels s"
proof -
  have "keyed SecretMeta (satisfying (selected (secNamespace c) ownerLabels) (secrets_in K))"
    using assms(2) by (simp add: well_formed_def keyed_satisfying)
  from enumerated(1) [OF assms(1) [unfolded lists_def] this] show ?thesis by (simp add: satisfying_Some)
qed

section \<open>The calls as changes of the cluster\<close>

text \<open>Every write puts a secret in place that nobody owns and whose role is used, or removes an unused one.\<close>

inductive secrets_change :: "secrets_controller \<Rightarrow> secret list \<Rightarrow> cluster \<Rightarrow> cluster \<Rightarrow> bool"
  for c secrets K where
  nothing: "secrets_change c secrets K K"
| renewal: "s \<in> set secrets \<Longrightarrow> unowned s \<Longrightarrow> used c s
    \<Longrightarrow> secrets_in K (object_key (SecretMeta s)) = Some old \<Longrightarrow> accepted (s\<lparr>Data := Some data\<rparr>) s'
    \<Longrightarrow> secrets_change c secrets K
      (K\<lparr>secrets_in := (secrets_in K)(object_key (SecretMeta s) \<mapsto> s')\<rparr>)"
| creation: "wanted c role ns \<Longrightarrow> secrets_in K (Key ns (secretPrefix @ role)) = None
    \<Longrightarrow> accepted (role_secret role ns data) s'
    \<Longrightarrow> secrets_change c secrets K (K\<lparr>secrets_in := (secrets_in K)(Key ns (secretPrefix @ role) \<mapsto> s')\<rparr>)"
| deletion: "s \<in> set secrets \<Longrightarrow> unowned s \<Longrightarrow> \<not> used c s
    \<Longrightarrow> secrets_change c secrets K
      (K\<lparr>secrets_in := (secrets_in K)(object_key (SecretMeta s) := None)\<rparr>)"

lemma role_secret_sel [simp]:
  "Name (SecretMeta (role_secret role ns data)) = secretPrefix @ role"
  "Namespace (SecretMeta (role_secret role ns data)) = ns"
  "OwnerReferences (SecretMeta (role_secret role ns data)) = []"
  "Labels (SecretMeta (role_secret role ns data)) = ownerLabels"
  by (simp_all add: role_secret_def)

lemma api_step_secrets_change:
  assumes "api_step K d K'" and "secrets_call c secrets d"
  shows "secrets_change c secrets K K'"
proof (cases "applied K d K'")
  case False
  with assms(1) show ?thesis by (simp add: api_step_def secrets_change.nothing)
next
  case True
  then show ?thesis
  proof (cases rule: applied.cases)
    case (updated ns s old s' res)
    with assms(2) show ?thesis
      by (auto simp flip: object_key_def intro!: secrets_change.renewal)
  next
    case (created ns s s' res)
    with assms(2) obtain role data where s: "wanted c role ns" "s = role_secret role ns data" by auto
    with created(3,5) show ?thesis
      unfolding created(2) s(2) role_secret_sel by (intro secrets_change.creation) simp_all
  next
    case (deleted ns n res)
    with assms(2) show ?thesis by (auto simp flip: object_key_def intro!: secrets_change.deletion)
  next
    case (reported ns r old res v)
    with assms(2) show ?thesis by simp
  qed
qed

lemma accepted_role:
  "accepted s s' \<Longrightarrow> role_of s' = role_of s \<and> secret_ns s' = secret_ns s"
  by (auto simp: accepted_def role_of_def)

lemma same_key_role:
  "object_key (SecretMeta s) = object_key (SecretMeta t) \<Longrightarrow> role_of s = role_of t \<and> secret_ns s = secret_ns t"
  by (simp add: object_key_def role_of_def)

text \<open>What is in place afterwards was there before, or is an unowned secret of a used role.\<close>

lemma secrets_change_new:
  assumes "secrets_change c secrets K K'" and "store_ok (roleStore c)" and "secrets_in K' k = Some t"
  shows "secrets_in K k = Some t \<or> unowned t \<and> used c t"
  using assms(1)
proof (cases rule: secrets_change.cases)
  case (renewal s old data s')
  have "used c s'" using accepted_role [OF renewal(6)] renewal(4) by simp
  with assms(3) renewal accepted_sel(5) [OF renewal(6)] show ?thesis
    by (simp split: if_splits)
next
  case (creation role ns data s')
  have "used c s'"
    using accepted_role [OF creation(4)] creation(2) wanted_Exists [OF assms(2)] by simp
  with assms(3) creation accepted_sel(5) [OF creation(4)] show ?thesis
    by (simp split: if_splits)
qed (use assms(3) in \<open>auto split: if_splits\<close>)

lemma secrets_change_well_formed:
  assumes "secrets_change c secrets K K'" and "well_formed K" and "store_namespaces_ok c"
  shows "well_formed K'"
  using assms(1)
proof (cases rule: secrets_change.cases)
  case (renewal s old data s')
  with assms(2) show ?thesis by (simp add: well_formed_def keyed_update accepted_sel)
next
  case (creation role ns data s')
  have "object_key (SecretMeta s') = Key ns (secretPrefix @ role)"
    using accepted_key [OF _ creation(4), of ns] by simp
  moreover have "CHR ''/'' \<notin> set ns" using creation(2) assms(3) by (simp add: store_namespaces_ok_def)
  ultimately show ?thesis
    using creation(1) assms(2) by (auto simp: well_formed_def keyed_def)
next
  case (deletion s)
  with assms(2) show ?thesis by (simp add: well_formed_def keyed_delete)
qed (use assms(2) in simp)

section \<open>What a refresh keeps\<close>

text \<open>Roles and secrets with an owner are none of its business.\<close>

definition spares :: "cluster \<Rightarrow> cluster \<Rightarrow> bool" where
  "spares K K' \<longleftrightarrow> roles_in K' = roles_in K
     \<and> (\<forall>k s. \<not> unowned s \<longrightarrow> (secrets_in K' k = Some s \<longleftrightarrow> secrets_in K k = Some s))"

definition tending :: "secrets_controller \<Rightarrow> secret list \<Rightarrow> cluster \<Rightarrow> cluster \<Rightarrow> bool" where
  "tending c secrets K L \<longleftrightarrow> well_formed L \<and> spares K L
     \<and> (\<forall>s \<in> set secrets. unowned s \<longrightarrow> (\<forall>t. secrets_in L (object_key (SecretMeta s)) = Some t \<longrightarrow> unowned t))
     \<and> (\<forall>k t. secrets_in L k = Some t \<longrightarrow> secrets_in K k = Some t \<or> unowned t \<and> used c t)"

lemma tending_init:
  assumes "lists c secrets K" and "well_formed K"
  shows "tending c secrets K K"
  using assms lists_secret [OF assms] by (auto simp: tending_def spares_def)

text \<open>What is at a key where nothing with an owner was.\<close>

lemma spares_update:
  assumes "spares K L" and "\<And>t. secrets_in L k = Some t \<Longrightarrow> unowned t" and "\<And>t. x = Some t \<Longrightarrow> unowned t"
  shows "spares K (L\<lparr>secrets_in := (secrets_in L)(k := x)\<rparr>)"
  using assms unfolding spares_def by auto

lemma tending_change:
  assumes "secrets_change c secrets L M" and L: "tending c secrets K L"
    and "store_ok (roleStore c)" and "store_namespaces_ok c"
  shows "tending c secrets K M"
proof -
  note parts = L [unfolded tending_def]
  have wf: "well_formed M" using secrets_change_well_formed [OF assms(1) _ assms(4)] parts by blast
  have new: "secrets_in K k = Some t \<or> unowned t \<and> used c t" if "secrets_in M k = Some t" for k t
    using secrets_change_new [OF assms(1,3) that] parts by blast
  have listed: "unowned t"
    if "s \<in> set secrets" "unowned s" "secrets_in M (object_key (SecretMeta s)) = Some t" for s t
    using secrets_change_new [OF assms(1,3) that(3)] parts that(1,2) by blast
  have "spares K M"
    using assms(1)
  proof (cases rule: secrets_change.cases)
    case (renewal s old data s')
    then show ?thesis
      using parts accepted_sel(5) [OF renewal(6)] unfolding renewal(1) by (intro spares_update) auto
  next
    case (creation role ns data s')
    then show ?thesis
      using parts accepted_sel(5) [OF creation(4)] unfolding creation(1) by (intro spares_update) auto
  next
    case (deletion s)
    then show ?thesis using parts unfolding deletion(1) by (intro spares_update) auto
  qed (use parts in simp)
  with wf new listed show ?thesis unfolding tending_def by blast
qed

text \<open>Uses that have a secret keep one.\<close>

definition supplies :: "cluster \<Rightarrow> string \<Rightarrow> string \<Rightarrow> bool" where
  "supplies K role ns \<longleftrightarrow>
     (\<exists>k s. secrets_in K k = Some s \<and> unowned s \<and> role_of s = role \<and> secret_ns s = ns)"

lemma suppliesI: "secrets_in K k = Some s \<Longrightarrow> unowned s \<Longrightarrow> supplies K (role_of s) (secret_ns s)"
  unfolding supplies_def by blast

lemma supplies_change:
  assumes "secrets_change c secrets K K'" and "well_formed K" and "store_ok (roleStore c)"
    and "supplies K role ns" and "wanted c role ns"
  shows "supplies K' role ns"
proof -
  from assms(4) obtain k s where s: "secrets_in K k = Some s" "unowned s" "role_of s = role" "secret_ns s = ns"
    unfolding supplies_def by blast
  have k: "object_key (SecretMeta s) = k"
    using assms(2) s(1) unfolding well_formed_def by (blast dest: keyedD(1))
  from assms(1) show ?thesis
  proof (cases rule: secrets_change.cases)
    case nothing
    with assms(4) show ?thesis by simp
  next
    case (renewal t old data t')
    show ?thesis
    proof (cases "object_key (SecretMeta t) = k")
      case True
      with k have "role_of t' = role" "secret_ns t' = ns" "unowned t'"
        using accepted_role [OF renewal(6)] accepted_sel(5) [OF renewal(6)] renewal(3) s(3,4)
          same_key_role [of t s] by simp_all
      with renewal(1) suppliesI [of K' "object_key (SecretMeta t)" t'] show ?thesis by simp
    qed (use renewal(1) s suppliesI [of K' k s] in simp)
  next
    case (creation role' ns' data t')
    have "k \<noteq> Key ns' (secretPrefix @ role')" using creation(3) s(1) by auto
    with creation(1) s suppliesI [of K' k s] show ?thesis by simp
  next
    case (deletion t)
    have "used c s" using assms(3,5) s(3,4) wanted_Exists by simp
    then have "object_key (SecretMeta t) \<noteq> k"
      using deletion(4) k same_key_role [of t s] by auto
    with deletion(1) s suppliesI [of K' k s] show ?thesis by simp
  qed
qed

lemma tending_run:
  assumes "Secrets_listed_trace c secrets r cs" and "api_run K cs K'" and "lists c secrets K"
    and "well_formed K" and "store_ok (roleStore c)" and "store_namespaces_ok c"
  shows "tending c secrets K K'" and "d \<in> set cs \<Longrightarrow> api_step L d L' \<Longrightarrow> secrets_change c secrets L L'"
proof -
  show change: "secrets_change c secrets L L'" if "d \<in> set cs" "api_step L d L'" for d L L'
    using that Secrets_listed_trace_call [OF assms(1)]
    by (intro api_step_secrets_change) (auto simp: list_all_iff)
  show "tending c secrets K K'"
    using assms(2) tending_init [OF assms(3,4)]
    by (rule steps_invariant) (rule tending_change [OF change _ assms(5,6)])
qed

section \<open>One refresh in which nothing fails\<close>

definition pruned :: "secrets_controller \<Rightarrow> cluster \<Rightarrow> bool" where
  "pruned c K \<longleftrightarrow> (\<forall>k s. secrets_in K k = Some s \<and> selected (secNamespace c) ownerLabels s \<and> unowned s
     \<longrightarrow> used c s)"

definition supplied :: "secrets_controller \<Rightarrow> cluster \<Rightarrow> bool" where
  "supplied c K \<longleftrightarrow> (\<forall>role ns. wanted c role ns \<longrightarrow> supplies K role ns)"

lemma smooth_secret_data:
  assumes "smooth (asks_role role g)" and "obind g secret_data = Err err"
  shows False
proof -
  from assms(1) obtain creds where g: "g = Ok creds" "expressible (Expiration creds)"
    by (auto simp: smooth_def)
  then have "year_ok (Expiration creds)" "zone_ok (zone_offset (Expiration creds))"
    by (simp_all add: expressible_def)
  then obtain x where "format_strict_nano (Expiration creds) = Ok x"
    using format_strict_nano_Ok by blast
  with g assms(2) show False
    by (simp add: secret_data_def marshal_process_credentials_def process_credentials_of_def)
qed

lemma unused_removed:
  assumes "Secrets_listed_trace c secrets (Ok ()) cs" and "list_all smooth cs" and "api_run K cs K'"
    and "lists c secrets K" and "well_formed K" and ok: "store_ok (roleStore c)" "store_namespaces_ok c"
    and s: "s \<in> set secrets" "unowned s" "\<not> used c s" "secrets_in K' (object_key (SecretMeta s)) = Some t"
  shows "used c t"
proof -
  note tended = tending_run [OF assms(1,3-5) ok]
  from Secrets_listed_trace_attended [OF assms(1)] s(1) have "secret_attended c cs s"
    by (simp add: list_all_iff)
  with s(2,3) obtain res where d: "CDeleteSecret (secret_ns s) (secret_name s) res \<in> set cs"
    by (auto simp: secret_attended_def)
  with assms(2) have res: "res = None" by (auto simp: list_all_iff smooth_def)
  let ?G = "\<lambda>L. \<forall>t. secrets_in L (object_key (SecretMeta s)) = Some t \<longrightarrow> used c t"
  from assms(3) d TrueI have "?G K'"
  proof (rule steps_establish [where I = "\<lambda>_. True"])
    fix L L'
    assume "api_step L (CDeleteSecret (secret_ns s) (secret_name s) res) L'"
    then show "?G L'" by (auto simp: api_step_def res object_key_def elim!: applied_elims)
  qed (use secrets_change_new [OF tended(2) ok(1)] in blast)+
  with s(4) show ?thesis by simp
qed

lemma listed_trace_prunes:
  assumes "Secrets_listed_trace c secrets (Ok ()) cs" and "list_all smooth cs" and "api_run K cs K'"
    and "lists c secrets K" and "well_formed K" and ok: "store_ok (roleStore c)" "store_namespaces_ok c"
  shows "pruned c K'"
  unfolding pruned_def
proof (intro allI impI)
  fix k s
  assume s: "secrets_in K' k = Some s \<and> selected (secNamespace c) ownerLabels s \<and> unowned s"
  note tended = tending_run(1) [OF assms(1,3-5) ok]
  have key: "object_key (SecretMeta s) = k"
    using tended s unfolding tending_def well_formed_def by (blast dest: keyedD(1))
  from tended s consider "secrets_in K k = Some s" | "used c s" unfolding tending_def by blast
  then show "used c s"
  proof cases
    case 1
    with s key have "s \<in> set secrets" using lists_secret [OF assms(4,5)] by simp
    with unused_removed [OF assms this] s key show ?thesis by blast
  qed
qed

lemma listed_trace_supplies:
  assumes "Secrets_listed_trace c secrets (Ok ()) cs" and "list_all smooth cs" and "api_run K cs K'"
    and "lists c secrets K" and "well_formed K" and ok: "store_ok (roleStore c)" "store_namespaces_ok c"
  shows "supplied c K'"
  unfolding supplied_def
proof (intro allI impI)
  fix role ns
  assume w: "wanted c role ns"
  note tended = tending_run [OF assms(1,3-5) ok]
  let ?G = "\<lambda>L. supplies L role ns"
  have wf: "well_formed L'" if "d \<in> set cs" "well_formed L" "api_step L d L'" for d L L'
    using secrets_change_well_formed [OF tended(2) _ ok(2)] that by blast
  have keep: "?G L'" if "d \<in> set cs" "well_formed L" "?G L" "api_step L d L'" for d L L'
    using supplies_change [OF tended(2) _ ok(1) _ w] that by blast
  show "?G K'"
  proof (cases "provided secrets role ns")
    case True
    then obtain s where "s \<in> set secrets" "unowned s" "role_of s = role" "secret_ns s = ns"
      by (auto simp: provided_def list_ex_iff)
    then have "?G K" using lists_secret [OF assms(4,5)] suppliesI by blast
    with assms(5) have "well_formed K \<and> ?G K" by simp
    with assms(3) have "well_formed K' \<and> ?G K'"
      by (rule steps_invariant [where I = "\<lambda>L. well_formed L \<and> ?G L"]) (blast intro: wf keep)
    then show ?thesis ..
  next
    case False
    with Secrets_listed_trace_attended [OF assms(1)] w have "use_attended cs role ns"
      unfolding every_use_attended_def by blast
    moreover have False if "asks_role role g \<in> set cs" "obind g secret_data = Err err" for g err
      using that assms(2) smooth_secret_data [of role g err] by (simp add: list_all_iff)
    ultimately obtain creds res where d: "CCreateSecret ns (role_secret role ns creds) res \<in> set cs"
      unfolding use_attended_def by blast
    with assms(2) have res: "\<exists>s'. res = Inr s'" by (cases res) (auto simp: list_all_iff smooth_def)
    from assms(3) d assms(5) show ?thesis
    proof (rule steps_establish)
      fix L L'
      assume "api_step L (CCreateSecret ns (role_secret role ns creds) res) L'"
      with res obtain t where t: "accepted (role_secret role ns creds) t"
        "secrets_in L' (Key ns (secretPrefix @ role)) = Some t"
        by (auto simp: api_step_def elim!: applied_elims)
      from accepted_role [OF t(1)] accepted_sel(5) [OF t(1)] suppliesI [OF t(2)] show "?G L'" by simp
    qed (blast intro: wf keep)+
  qed
qed

section \<open>Refreshes of both controllers\<close>

text \<open>The secrets that nobody owns are none of the business of the other controller, once it has no orphans.\<close>

definition same_unowned :: "cluster \<Rightarrow> cluster \<Rightarrow> bool" where
  "same_unowned K L \<longleftrightarrow>
     (\<forall>k t. unowned t \<longrightarrow> (secrets_in L k = Some t \<longleftrightarrow> secrets_in K k = Some t))"

lemma same_unownedD:
  "same_unowned K L \<Longrightarrow> unowned t \<Longrightarrow> secrets_in L k = Some t \<longleftrightarrow> secrets_in K k = Some t"
  unfolding same_unowned_def by blast

lemma same_unowned_update:
  assumes "same_unowned K L" and "\<And>t. secrets_in L k = Some t \<or> secrets_in K k = Some t \<Longrightarrow> \<not> unowned t" and "\<not> unowned s"
  shows "same_unowned K (L\<lparr>secrets_in := (secrets_in L)(k \<mapsto> s)\<rparr>)"
  using assms unfolding same_unowned_def by auto

lemma same_unowned_change:
  assumes "change secrets roles L d M" and "same_unowned K L" and "sees c secrets roles K" and "well_formed K"
    and "collected c K"
  shows "same_unowned K M"
proof -
  have owned: "\<not> unowned s" "\<not> orphan (roles_map roles) s" if s: "s \<in> set secrets" for s
  proof -
    from s assms(5) obtain r where r: "roles_in K (object_key (SecretMeta s)) = Some r" "owned_by r s"
      using sees_secret(1) [OF assms(3,4)] unfolding collected_def by blast
    then show "\<not> unowned s" by (auto simp: owned_by_iff)
    show "\<not> orphan (roles_map roles) s"
      using collected_no_orphan [OF assms(3-5) s] .
  qed
  from assms(1) show ?thesis
  proof (cases rule: change.cases)
    case (renewal s r old data s' ns res)
    have s: "secrets_in K (object_key (SecretMeta s)) = Some s"
      using renewal(3) sees_secret(1) [OF assms(3,4)] by blast
    have "\<not> unowned s'"
      using owned(1) [OF renewal(3)] accepted_sel(5) [OF renewal(7)] by (simp add: renewed_def)
    moreover have "\<not> unowned t" if "secrets_in M' (object_key (SecretMeta s)) = Some t" "M' = L \<or> M' = K" for M' t
      using that s owned(1) [OF renewal(3)] same_unownedD [OF assms(2), of t "object_key (SecretMeta s)"]
      by (metis option.inject)
    ultimately show ?thesis
      unfolding renewal(2) by (intro same_unowned_update [OF assms(2)]) blast+
  next
    case (creation r data s' ns res)
    have "\<not> unowned s'"
      using accepted_sel(5) [OF creation(5)] by (simp add: new_secret_def)
    moreover have "\<not> unowned t" if "secrets_in M' (object_key (RoleMeta r)) = Some t" "M' = L \<or> M' = K" for M' t
      using that creation(6) same_unownedD [OF assms(2), of t "object_key (RoleMeta r)"]
      by (metis option.distinct(1))
    ultimately show ?thesis
      unfolding creation(2) by (intro same_unowned_update [OF assms(2)]) blast+
  next
    case (deletion s ns n res)
    with owned(2) show ?thesis by blast
  next
    case (report r old ns arn t res v)
    with assms(2) show ?thesis by (simp add: same_unowned_def)
  qed (use assms(2) in simp)
qed

definition balanced :: "aws_controller \<Rightarrow> secrets_controller \<Rightarrow> cluster \<Rightarrow> bool" where
  "balanced c d K \<longleftrightarrow> well_formed K \<and> collected c K \<and> pruned d K \<and> supplied d K"

lemma same_unowned_balanced:
  assumes "same_unowned K K'" and "pruned d K" and "supplied d K"
  shows "pruned d K' \<and> supplied d K'"
  using assms unfolding same_unowned_def pruned_def supplied_def supplies_def by metis

text \<open>A refresh of the role controller takes no live secret, and changes none that nobody owns.\<close>

definition keeps_live :: "cluster \<Rightarrow> cluster \<Rightarrow> bool" where
  "keeps_live K L \<longleftrightarrow> (\<forall>k refs. live K k refs \<longrightarrow> live L k refs)"

lemma keeps_live_refl: "keeps_live K K"
  by (simp add: keeps_live_def)

lemma keeps_live_trans: "keeps_live K L \<Longrightarrow> keeps_live L M \<Longrightarrow> keeps_live K M"
  by (simp add: keeps_live_def)

lemma renewal_keeps_live:
  assumes "sees c secrets roles K" and "well_formed K" and "kept c secrets roles L"
    and "s \<in> set secrets" and "OwnerReferences (SecretMeta s') = OwnerReferences (SecretMeta s)"
    and "live K (object_key (SecretMeta s)) refs"
  shows "live (L\<lparr>secrets_in := (secrets_in L)(object_key (SecretMeta s) \<mapsto> s')\<rparr>) (object_key (SecretMeta s)) refs"
proof -
  let ?k = "object_key (SecretMeta s)"
  from sees_secret(1) [OF assms(1,2)] assms(4) have s: "secrets_in K ?k = Some s"
    "selected (namespace c) awsIAMRoleOwnerLabels s" by simp_all
  with assms(6) obtain q where q: "roles_in K ?k = Some q" "OwnerReferences (SecretMeta s) = refs" "owned_by q s"
    by (auto simp: live_def)
  have key: "object_key (RoleMeta q) = ?k"
    using assms(2) q(1) unfolding well_formed_def by (blast dest: keyedD(1))
  then have "in_namespace (namespace c) (RoleMeta q)"
    using s(2) by (simp add: selected_def in_namespace_def object_key_def)
  with q(1) key have "q \<in> set roles" using sees_role(1) [OF assms(1,2)] by simp
  with assms(3) key obtain q' where q': "roles_in L ?k = Some q'" "same_role q q'"
    unfolding kept_def by force
  then have "owned_by q' s'"
    using q(3) assms(5) same_role_sel(2) by (simp add: owned_by_iff)
  with q'(1) q(2) assms(5) show ?thesis by (intro liveI [of _ _ q' s']) simp_all
qed

lemma keeps_live_change:
  assumes "change secrets roles L d M" and live: "keeps_live K L" and sees: "sees c secrets roles K"
    and wf: "well_formed K" and "kept c secrets roles L"
  shows "keeps_live K M"
  unfolding keeps_live_def
proof (intro allI impI)
  fix k refs
  assume k: "live K k refs"
  with live have L: "live L k refs" by (simp add: keeps_live_def)
  from assms(1) show "live M k refs"
  proof (cases rule: change.cases)
    case (renewal s r old data s' ns res)
    have refs: "OwnerReferences (SecretMeta s') = OwnerReferences (SecretMeta s)"
      using accepted_sel(5) [OF renewal(7)] by simp
    show ?thesis
      using renewal_keeps_live [OF sees wf assms(5) renewal(3) refs] k L live_same [of M k L] renewal(2)
      by (cases "k = object_key (SecretMeta s)") simp_all
  next
    case (creation r data s' ns res)
    with L have "k \<noteq> object_key (RoleMeta r)" by (auto simp: live_def)
    with L creation(2) show ?thesis using live_same [of M k L] by simp
  next
    case (deletion s ns n res)
    have "\<not> live K (object_key (SecretMeta s)) refs"
      using sees deletion unfolding sees_def by (intro orphan_not_live [OF wf wf]) blast+
    with k have "k \<noteq> object_key (SecretMeta s)" by auto
    with L deletion(2) show ?thesis using live_same [of M k L] by simp
  next
    case (report r old ns arn t res v)
    with L show ?thesis
      by (cases "k = object_key (RoleMeta r)") (auto simp: live_def owned_by_iff owner_ref_of_def)
  qed (use L in simp)
qed

lemma role_refresh_run:
  assumes "serves e v" and "run_state (AWSIAMRole_refresh e c) s = (r, s')"
  obtains (unlisted) "v (world s') = v (world s)"
  | (listed) secrets roles ds where "sees c secrets roles (v (world s))" "api_run (v (world s)) ds (v (world s'))"
      "\<And>d L M. d \<in> set ds \<Longrightarrow> api_step L d M \<Longrightarrow> change secrets roles L d M"
proof -
  from assms(1) emits_refresh assms(2) obtain cs where "after_listing c (listed_trace c) r cs"
    "api_run (v (world s)) cs (v (world s'))"
    by (rule refresh_run)
  then show thesis
  proof (cases rule: after_listing.cases)
    case (listed secrets roles ds)
    with \<open>api_run _ _ _\<close> have "sees c secrets roles (v (world s))" "api_run (v (world s)) ds (v (world s'))"
      by (auto simp: sees_def api_step_def elim!: applied_elims)
    moreover have "change secrets roles L d M" if "d \<in> set ds" "api_step L d M" for L d M
      using that listed_trace_role_call [OF listed(2)] by (intro api_step_change) (auto simp: list_all_iff)
    ultimately show thesis by (rule that(2))
  qed (use that(1) in \<open>auto simp: api_step_def elim!: applied_elims\<close>)
qed

lemma role_refresh_keeps:
  assumes "serves e v" and wf: "well_formed (v (world s))" and "run_state (AWSIAMRole_refresh e c) s = (r, s')"
  shows "well_formed (v (world s')) \<and> keeps_live (v (world s)) (v (world s'))
    \<and> (collected c (v (world s)) \<longrightarrow> collected c (v (world s')) \<and> same_unowned (v (world s)) (v (world s')))"
  using assms(1,3)
proof (cases rule: role_refresh_run)
  case unlisted
  with wf show ?thesis by (simp add: keeps_live_refl same_unowned_def)
next
  case (listed secrets roles ds)
  note sees = listed(1) and run = listed(2) and change = listed(3)
  note slash = sees_role(2) [OF sees wf]
  let ?K = "v (world s)" and ?M = "v (world s')"
  have "kept c secrets roles ?K \<and> keeps_live ?K ?K" using kept_init [OF sees wf] keeps_live_refl by blast
  with run have kept: "kept c secrets roles ?M \<and> keeps_live ?K ?M"
    by (rule steps_invariant) (use change kept_change [OF _ _ slash] keeps_live_change [OF _ _ sees wf] in blast)
  moreover have "collected c ?M \<and> same_unowned ?K ?M" if coll: "collected c ?K"
  proof
    show "collected c ?M"
      using kept collected_no_orphan [OF sees wf coll] by (intro kept_collected [OF sees wf]) blast+
    have "same_unowned ?K ?K" by (simp add: same_unowned_def)
    with run show "same_unowned ?K ?M"
      by (rule steps_invariant) (rule same_unowned_change [OF change _ sees wf coll])
  qed
  ultimately show ?thesis by (simp add: kept_def)
qed

lemma role_refresh_balanced:
  assumes "serves e v" and "balanced c d (v (world s))" and "run_state (AWSIAMRole_refresh e c) s = (r, s')"
  shows "balanced c d (v (world s'))"
  using role_refresh_keeps [OF assms(1) _ assms(3)] assms(2) same_unowned_balanced by (auto simp: balanced_def)

text \<open>The labels of a watched secret keep it from the secrets controller, as such a secret has its owner.\<close>

definition watched_owned :: "aws_controller \<Rightarrow> cluster \<Rightarrow> bool" where
  "watched_owned c K \<longleftrightarrow> (\<forall>k s. secrets_in K k = Some s \<and> selected (namespace c) awsIAMRoleOwnerLabels s
     \<longrightarrow> \<not> unowned s)"

lemma owner_labels_differ: "\<not> awsIAMRoleOwnerLabels \<subseteq>\<^sub>m ownerLabels"
proof -
  have "awsIAMRoleOwnerLabels ''type'' = Some ''awsiamrole''" "ownerLabels ''type'' = None"
    by (simp_all add: awsIAMRoleOwnerLabels_def ownerLabels_def heritageLabelKey_def)
  then show ?thesis by (auto simp: map_le_def dom_def)
qed

lemma watched_owned_change:
  assumes "secrets_change d secrets L M" and "watched_owned c L"
    and "\<And>s. s \<in> set secrets \<Longrightarrow> unowned s \<Longrightarrow> \<not> selected (namespace c) awsIAMRoleOwnerLabels s"
  shows "watched_owned c M"
  using assms(1)
proof (cases rule: secrets_change.cases)
  case (renewal s old data s')
  have "\<not> selected (namespace c) awsIAMRoleOwnerLabels s'"
    using assms(3) [OF renewal(2,3)] accepted_sel [OF renewal(6)]
    by (simp add: selected_def in_namespace_def)
  with assms(2) renewal(1) show ?thesis by (auto simp: watched_owned_def split: if_splits)
next
  case (creation role ns data s')
  have "\<not> selected (namespace c) awsIAMRoleOwnerLabels s'"
    using accepted_sel(3) [OF creation(4)] owner_labels_differ by (simp add: selected_def)
  with assms(2) creation(1) show ?thesis by (auto simp: watched_owned_def split: if_splits)
qed (use assms(2) in \<open>auto simp: watched_owned_def\<close>)

lemma collected_watched: "collected c K \<Longrightarrow> watched_owned c K"
  unfolding collected_def watched_owned_def owned_by_iff by fastforce

lemma Secrets_refresh_keeps_collected:
  assumes "Secrets_listed_trace d secrets r ds" and "api_run K ds K'" and "lists d secrets K"
    and "well_formed K" and "store_ok (roleStore d)" and "store_namespaces_ok d" and "collected c K"
  shows "collected c K'"
proof -
  note tended = tending_run [OF assms(1-6)]
  have other: "\<not> selected (namespace c) awsIAMRoleOwnerLabels s" if "s \<in> set secrets" "unowned s" for s
    using that lists_secret [OF assms(3,4)] collected_watched [OF assms(7)] unfolding watched_owned_def by blast
  from assms(2) collected_watched [OF assms(7)] have "watched_owned c K'"
    by (rule steps_invariant) (rule watched_owned_change [OF tended(2) _ other])
  moreover have "spares K K'" using tended(1) by (simp add: tending_def)
  ultimately show ?thesis
    using assms(7) unfolding collected_def watched_owned_def spares_def by metis
qed

lemma Secrets_refresh_spares:
  assumes "serves e v" and wf: "well_formed (v (world s))" and "run_state (Secrets_refresh e d) s = (r, s')"
    and ok: "store_ok (roleStore d)" "store_namespaces_ok d"
  shows "well_formed (v (world s')) \<and> spares (v (world s)) (v (world s'))"
  using assms(1,3)
proof (cases rule: Secrets_refresh_run)
  case (unlisted cs)
  with wf show ?thesis by (simp add: spares_def)
next
  case (listed secrets cs ds)
  from tending_run(1) [OF listed(4,5,3) wf ok] show ?thesis by (simp add: tending_def)
qed

lemma spares_keeps_live:
  assumes "spares K L"
  shows "keeps_live K L"
  unfolding keeps_live_def
proof (intro allI impI)
  fix k refs
  assume "live K k refs"
  then obtain r s where s: "roles_in K k = Some r" "secrets_in K k = Some s" "OwnerReferences (SecretMeta s) = refs"
    "owned_by r s" by (auto simp: live_def)
  then have "\<not> unowned s" by (auto simp: owned_by_iff)
  with assms s(1,2) have "roles_in L k = Some r" "secrets_in L k = Some s" by (simp_all add: spares_def)
  with s(3,4) show "live L k refs" by (simp add: liveI)
qed

lemma Secrets_refresh_balanced:
  assumes "serves e v" and "balanced c d (v (world s))" and "run_state (Secrets_refresh e d) s = (r, s')"
    and ok: "store_ok (roleStore d)" "store_namespaces_ok d"
  shows "balanced c d (v (world s'))"
  using assms(1,3)
proof (cases rule: Secrets_refresh_run)
  case (unlisted cs)
  with assms(2) show ?thesis by simp
next
  case (listed secrets cs ds)
  note start = assms(2) [unfolded balanced_def]
  then have wf: "well_formed (v (world s))" by simp
  note tended = tending_run [OF listed(4,5,3) wf ok]
  have "supplies (v (world s')) role ns" if w: "wanted d role ns" for role ns
  proof -
    have "well_formed (v (world s)) \<and> supplies (v (world s)) role ns"
      using start w by (simp add: supplied_def)
    with listed(5) have "well_formed (v (world s')) \<and> supplies (v (world s')) role ns"
      by (rule steps_invariant [where I = "\<lambda>K. well_formed K \<and> supplies K role ns"])
        (use tended(2) secrets_change_well_formed [OF _ _ ok(2)] supplies_change [OF _ _ ok(1) _ w] in blast)
    then show ?thesis ..
  qed
  then have "supplied d (v (world s'))" by (simp add: supplied_def)
  moreover have "pruned d (v (world s'))"
    using tended(1) start unfolding tending_def pruned_def by blast
  ultimately show ?thesis
    using Secrets_refresh_keeps_collected [OF listed(4,5,3) wf ok] tended(1) start
    by (simp add: balanced_def tending_def)
qed

text \<open>Any number of refreshes of the two controllers, in any order and whatever they return.\<close>

inductive rounds :: "'w env \<Rightarrow> aws_controller \<Rightarrow> secrets_controller \<Rightarrow> ('w, call) st \<Rightarrow> ('w, call) st \<Rightarrow> bool"
  for e c d where
  no_round: "rounds e c d s s"
| role_round: "rounds e c d s s' \<Longrightarrow> run_state (AWSIAMRole_refresh e c) s' = (r, s'') \<Longrightarrow> rounds e c d s s''"
| secrets_round: "rounds e c d s s' \<Longrightarrow> run_state (Secrets_refresh e d) s' = (r, s'') \<Longrightarrow> rounds e c d s s''"

lemma rounds_balanced:
  assumes "rounds e c d s s'" and "serves e v" and "balanced c d (v (world s))"
    and ok: "store_ok (roleStore d)" "store_namespaces_ok d"
  shows "balanced c d (v (world s'))"
  using assms(1,3)
proof induction
  case (role_round s s' r s'')
  then show ?case using role_refresh_balanced [OF assms(2)] by blast
next
  case (secrets_round s s' r s'')
  then show ?case using Secrets_refresh_balanced [OF assms(2) _ _ ok] by blast
qed

lemma rounds_keep:
  assumes "rounds e c d s s'" and "serves e v" and "well_formed (v (world s))"
    and ok: "store_ok (roleStore d)" "store_namespaces_ok d"
  shows "well_formed (v (world s')) \<and> keeps_live (v (world s)) (v (world s'))"
  using assms(1,3)
proof induction
  case (no_round s)
  then show ?case by (simp add: keeps_live_refl)
next
  case (role_round s s' r s'')
  then show ?case using role_refresh_keeps [OF assms(2)] keeps_live_trans by blast
next
  case (secrets_round s s' r s'')
  then show ?case using Secrets_refresh_spares [OF assms(2) _ _ ok] spares_keeps_live keeps_live_trans by blast
qed

lemma smooth_Secrets_refresh:
  assumes "serves e v" and "well_formed (v (world s))" and ok: "store_ok (roleStore c)" "store_namespaces_ok c"
    and "run_state (Secrets_refresh e c) s = (r, s')" and "list_all smooth (drop (length (trace s)) (trace s'))"
  shows "r = Ok () \<and> supplied c (v (world s')) \<and> pruned c (v (world s')) \<and> spares (v (world s)) (v (world s'))
    \<and> well_formed (v (world s')) \<and> (\<forall>d. collected d (v (world s)) \<longrightarrow> collected d (v (world s')))"
  using assms(1,5)
proof (cases rule: Secrets_refresh_run)
  case (unlisted cs)
  with assms(6) show ?thesis by (auto simp: list_all_iff smooth_def)
next
  case (listed secrets cs ds)
  have smooth: "list_all smooth ds" using assms(6) listed(1,2) by (auto simp: list_all_iff)
  have r: "r = Ok ()"
    using Secrets_listed_trace_result [OF listed(4)] smooth
    by (auto simp: list_all_iff smooth_def dest!: last_in_set)
  note run = listed(4) [unfolded r] listed(5,3) assms(2) ok
  note work = listed_trace_supplies [OF run(1) smooth run(2-)] listed_trace_prunes [OF run(1) smooth run(2-)]
  show ?thesis
    using r work tending_run(1) [OF run] Secrets_refresh_keeps_collected [OF run] by (simp add: tending_def)
qed

section \<open>One refresh, and many\<close>

text \<open>
  C11: One refresh of the secrets controller in which no call fails does its work, on any cluster: every
  use of a role in its store then has a secret in that namespace, no secret is left of those nobody
  owns whose role is not used, and no role, and no secret with an owner, has changed.
\<close>

theorem Secrets_refresh_supplies:
  assumes "serves e v" and "well_formed (v (world s))" and "store_ok (roleStore c)" and "store_namespaces_ok c"
    and "trace s = []" and "run_state (Secrets_refresh e c) s = (r, s')" and "list_all smooth (trace s')"
  shows "r = Ok () \<and> supplied c (v (world s')) \<and> pruned c (v (world s')) \<and> spares (v (world s)) (v (world s'))"
  using smooth_Secrets_refresh [OF assms(1-4,6)] assms(5,7) by simp

text \<open>
  C9: The two controllers settle on one cluster together.  Once the role controller has refreshed with its
  deletions succeeding, and the secrets controller after it without a failure, the cluster has no
  orphan, every used role has its secret, and no unused one is left; and that is so for good: no later
  refresh of either controller, in any order and whatever calls of it fail, undoes it.  Neither
  controller ever takes a secret of the other's: a secret that the role of its name owns, before the
  first refresh or after it, is there for good with its owners; a later refresh of the secrets
  controller changes no role and no secret with an owner, and one of the role controller changes no
  secret that nobody owns.
\<close>

theorem controllers_balance:
  assumes "serves e v" and "well_formed (v (world s))" and "store_ok (roleStore d)" and "store_namespaces_ok d"
    and "trace s = []" and "run_state (AWSIAMRole_refresh e c) s = (Ok (), s')" and "deletes_ok (trace s')"
    and "run_state (Secrets_refresh e d) s' = (r, s'')" and "list_all smooth (drop (length (trace s')) (trace s''))"
    and "rounds e c d s'' t"
  shows "balanced c d (v (world t))
    \<and> keeps_live (v (world s)) (v (world t)) \<and> keeps_live (v (world s')) (v (world t))
    \<and> (\<forall>q u. run_state (Secrets_refresh e d) t = (q, u) \<longrightarrow> spares (v (world t)) (v (world u)))
    \<and> (\<forall>q u. run_state (AWSIAMRole_refresh e c) t = (q, u) \<longrightarrow>
         same_unowned (v (world t)) (v (world u)) \<and> keeps_live (v (world t)) (v (world u)))"
proof -
  from assms(1,2,6) obtain cs where "trace s' = trace s @ cs"
    "deletes_ok cs \<longrightarrow> well_formed (v (world s')) \<and> collected c (v (world s'))"
    by (rule refresh_collects)
  with assms(5,7) have first: "well_formed (v (world s'))" "collected c (v (world s'))" by simp_all
  from smooth_Secrets_refresh [OF assms(1) first(1) assms(3,4,8,9)] first(2)
  have second: "balanced c d (v (world s''))" "keeps_live (v (world s')) (v (world s''))"
    by (simp_all add: balanced_def spares_keeps_live)
  from assms(10,1) second(1) assms(3,4) have t: "balanced c d (v (world t))" by (rule rounds_balanced)
  then have wf: "well_formed (v (world t))" "collected c (v (world t))" by (simp_all add: balanced_def)
  have "keeps_live (v (world s'')) (v (world t))"
    using rounds_keep [OF assms(10,1) _ assms(3,4)] second(1) by (simp add: balanced_def)
  then have "keeps_live (v (world s')) (v (world t))" using second(2) keeps_live_trans by blast
  moreover have "keeps_live (v (world s)) (v (world s'))" using role_refresh_keeps [OF assms(1,2,6)] by simp
  ultimately show ?thesis
    using t Secrets_refresh_spares [OF assms(1) wf(1) _ assms(3,4)] role_refresh_keeps [OF assms(1) wf(1)] wf(2)
      keeps_live_trans by blast
qed

text \<open>A role used by one pod, beside an orphan of the other controller.\<close>

definition example_secrets_controller :: secrets_controller where
  "example_secrets_controller =
     (NewSecretsController [] 0 900000000000)\<lparr>roleStore := Add ''app'' ''default'' ''pod'' NewRoleStore\<rparr>"

lemma example_secrets_controller_ok:
  "store_ok (roleStore example_secrets_controller)" "store_namespaces_ok example_secrets_controller"
proof -
  show "store_ok (roleStore example_secrets_controller)"
    by (simp add: example_secrets_controller_def rs.invar_add store_ok_New)
  show "store_namespaces_ok example_secrets_controller"
    by (simp add: store_namespaces_ok_def wanted_def example_secrets_controller_def Add_def NewRoleStore_def)
qed

lemma example_secret_data: "\<exists>data. secret_data example_credentials = Ok data"
proof -
  obtain x where "format_strict_nano (Expiration example_credentials) = Ok x"
    using example_credentials_ok(4) format_strict_nano_Ok by (auto simp: expressible_def)
  then show ?thesis
    by (simp add: secret_data_def marshal_process_credentials_def process_credentials_of_def)
qed

lemma example_Secrets_refresh:
  "\<exists>s'. run_state (Secrets_refresh memory_env example_secrets_controller)
      \<lparr>world = example_store\<lparr>stored_secrets := []\<rparr>, trace = cs\<rparr> = (Ok (), s')
    \<and> list_all smooth (drop (length cs) (trace s'))"
proof -
  obtain data where "secret_data example_credentials = Ok data" using example_secret_data by blast
  then show ?thesis
    using example_credentials_ok(4)
    by (simp add: Secrets_refresh_def Secrets_refresh_listed_def and_then_def provision_used_def
      create_missing_def Secrets_getCreds_def call_defs memory_env_def listing_def put_secret_def
      example_secrets_controller_def NewSecretsController_def Add_def NewRoleStore_def Exists_def
      example_store_def smooth_def)
qed

theorem Secrets_refresh_supplies_witness:
  "\<exists>s'. run_state (Secrets_refresh memory_env example_secrets_controller)
      \<lparr>world = example_store\<lparr>stored_secrets := []\<rparr>, trace = []\<rparr> = (Ok (), s')
    \<and> supplied example_secrets_controller (contents (world s'))"
proof -
  obtain s' where run: "run_state (Secrets_refresh memory_env example_secrets_controller)
      \<lparr>world = example_store\<lparr>stored_secrets := []\<rparr>, trace = []\<rparr> = (Ok (), s')" "list_all smooth (trace s')"
    using example_Secrets_refresh [of "[]"] by auto
  have "well_formed (contents (example_store\<lparr>stored_secrets := []\<rparr>))"
    by (simp add: well_formed_def keyed_def contents_def example_store_def)
  with Secrets_refresh_supplies [OF memory_env_serves _ example_secrets_controller_ok _ run(1)] run show ?thesis
    by simp
qed

theorem controllers_balance_witness:
  "\<exists>s1 s2. run_state (AWSIAMRole_refresh memory_env example_controller) \<lparr>world = example_store, trace = []\<rparr> = (Ok (), s1)
    \<and> run_state (Secrets_refresh memory_env example_secrets_controller) s1 = (Ok (), s2)
    \<and> (let t = snd (run_state (AWSIAMRole_refresh memory_env example_controller) s2) in
        balanced example_controller example_secrets_controller (contents (world t))
        \<and> keeps_live (contents (world s1)) (contents (world t)))"
proof -
  note first = example_first_refresh
  let ?s1 = "snd (run_state (AWSIAMRole_refresh memory_env example_controller) \<lparr>world = example_store, trace = []\<rparr>)"
  obtain s2 where second: "run_state (Secrets_refresh memory_env example_secrets_controller) ?s1 = (Ok (), s2)"
      "list_all smooth (drop (length (trace ?s1)) (trace s2))"
    using example_Secrets_refresh unfolding first by fastforce
  let ?t = "snd (run_state (AWSIAMRole_refresh memory_env example_controller) s2)"
  have third: "rounds memory_env example_controller example_secrets_controller s2 ?t"
    by (rule role_round [OF no_round surjective_pairing])
  have start: "run_state (AWSIAMRole_refresh memory_env example_controller) \<lparr>world = example_store, trace = []\<rparr> = (Ok (), ?s1)"
    "deletes_ok (trace ?s1)" by (simp_all add: first deletes_ok_def)
  have "well_formed (contents (world \<lparr>world = example_store, trace = []\<rparr>))" by (simp add: example_store_well_formed)
  from controllers_balance [OF memory_env_serves this example_secrets_controller_ok _ start second third]
  have "balanced example_controller example_secrets_controller (contents (world ?t))"
    "keeps_live (contents (world ?s1)) (contents (world ?t))" by simp_all
  with start(1) second(1) show ?thesis unfolding Let_def by blast
qed

end
