(* ===== verification/Process.thy ===== *)
theory Process
  imports AWSIAMRoleRefresh SecretsRefresh
begin

text \<open>
  The running process: the two \<open>Run\<close> methods and the end of \<^verbatim>\<open>main.go\<close>, as a transition system.  The
  role controller's loop is a goroutine; the secrets controller's \<open>Run\<close> is what \<open>main\<close> ends with: it
  sets \<open>nextRefresh\<close>, serves HTTP, and enters its loop when \<open>http.ListenAndServe\<close> returns, which it
  does only when the server fails.  The clock, the signal and the end of the server are events of
  the environment; where a \<open>select\<close> has several ready cases, each is a step.  A refresh is one step;
  a panic in it ends the process.  Times are instants; a duration is its 64-bit value.
\<close>

section \<open>States\<close>

datatype loop = Refreshing | Waiting int | Stopped

datatype main_phase = Serving | Looping

datatype status = Running | Exited | Crashed string

record 'w process =
  env_state :: "('w, call) st"
  clock :: int
  ctx_done :: bool
  role_loop :: loop
  main_phase :: main_phase
  nextRefresh :: int
  status :: status

definition instant_of :: "int \<Rightarrow> gotime" where
  "instant_of t = \<lparr>at = Instant t, zone_offset = 0\<rparr>"

text \<open>
  The state when \<open>Run\<close> of the secrets controller has set \<open>nextRefresh\<close> and started to serve: the other
  loop is before its first refresh.
\<close>

definition started :: "secrets_controller \<Rightarrow> ('w, call) st \<Rightarrow> int \<Rightarrow> 'w process" where
  "started sc s t =
     \<lparr>env_state = s, clock = t, ctx_done = False, role_loop = Refreshing, main_phase = Serving,
      nextRefresh = nanos (at (add_duration (instant_of t) (- secInterval sc))), status = Running\<rparr>"

text \<open>The liveness check: \<open>time.Since(nextRefresh) > 5*c.interval\<close> is an error.\<close>

definition healthy :: "secrets_controller \<Rightarrow> int \<Rightarrow> int \<Rightarrow> bool" where
  "healthy sc next t \<longleftrightarrow>
     \<not> (sint (5 * secInterval sc) < sint (sub_time (instant_of t) (instant_of next)))"

section \<open>Steps\<close>

datatype event =
  Elapse int
| Sigterm
| ServerFails error
| Probe int bool
| RoleRefresh int
| RoleWake
| RoleStop
| SecretsRefresh int
| MainReturns

definition after_refresh :: "unit outcome \<Rightarrow> status" where
  "after_refresh r = (case r of Panic m \<Rightarrow> Crashed m | _ \<Rightarrow> Running)"

text \<open>The clock and the signal handler, which cancels the context of both loops.\<close>

inductive environment_step :: "'w process \<Rightarrow> event \<Rightarrow> 'w process \<Rightarrow> bool" where
  elapse: "0 \<le> d \<Longrightarrow> environment_step p (Elapse d) (p\<lparr>clock := clock p + d\<rparr>)"
| sigterm: "environment_step p Sigterm (p\<lparr>ctx_done := True\<rparr>)"

text \<open>\<open>AWSIAMRoleController.Run\<close>: a refresh, and then a wait for the interval or the end of the context.\<close>

inductive role_step :: "'w env \<Rightarrow> aws_controller \<Rightarrow> 'w process \<Rightarrow> event \<Rightarrow> 'w process \<Rightarrow> bool" for e ac where
  role_refresh: "role_loop p = Refreshing \<Longrightarrow> run_state (AWSIAMRole_refresh e ac) (env_state p) = (r, s')
    \<Longrightarrow> role_step e ac p (RoleRefresh (clock p))
      (p\<lparr>env_state := s', role_loop := Waiting (clock p + sint (interval ac)), status := after_refresh r\<rparr>)"
| role_wake: "role_loop p = Waiting t \<Longrightarrow> t \<le> clock p
    \<Longrightarrow> role_step e ac p RoleWake (p\<lparr>role_loop := Refreshing\<rparr>)"
| role_stop: "role_loop p = Waiting t \<Longrightarrow> ctx_done p
    \<Longrightarrow> role_step e ac p RoleStop (p\<lparr>role_loop := Stopped\<rparr>)"

text \<open>
  \<open>SecretsController.Run\<close>: the server answers probes until it fails; then the loop waits for
  \<open>nextRefresh\<close> or the end of the context, at which \<open>main\<close> returns and the process exits.
\<close>

inductive main_step :: "'w env \<Rightarrow> secrets_controller \<Rightarrow> 'w process \<Rightarrow> event \<Rightarrow> 'w process \<Rightarrow> bool" for e sc where
  server_fails: "main_phase p = Serving \<Longrightarrow> main_step e sc p (ServerFails err) (p\<lparr>main_phase := Looping\<rparr>)"
| probe: "main_phase p = Serving
    \<Longrightarrow> main_step e sc p (Probe (clock p) (healthy sc (nextRefresh p) (clock p))) p"
| secrets_refresh: "main_phase p = Looping \<Longrightarrow> nextRefresh p \<le> clock p
    \<Longrightarrow> run_state (Secrets_refresh e sc) (env_state p) = (r, s')
    \<Longrightarrow> main_step e sc p (SecretsRefresh (clock p))
      (p\<lparr>env_state := s', nextRefresh := nanos (at (add_duration (instant_of (clock p)) (secInterval sc))),
         status := after_refresh r\<rparr>)"
| main_returns: "main_phase p = Looping \<Longrightarrow> ctx_done p
    \<Longrightarrow> main_step e sc p MainReturns (p\<lparr>status := Exited\<rparr>)"

inductive step :: "'w env \<Rightarrow> aws_controller \<Rightarrow> secrets_controller \<Rightarrow> 'w process \<Rightarrow> event \<Rightarrow> 'w process \<Rightarrow> bool"
  for e ac sc where
  environment: "status p = Running \<Longrightarrow> environment_step p ev q \<Longrightarrow> step e ac sc p ev q"
| role: "status p = Running \<Longrightarrow> role_step e ac p ev q \<Longrightarrow> step e ac sc p ev q"
| main: "status p = Running \<Longrightarrow> main_step e sc p ev q \<Longrightarrow> step e ac sc p ev q"

inductive run :: "'w env \<Rightarrow> aws_controller \<Rightarrow> secrets_controller \<Rightarrow> 'w process \<Rightarrow> event list \<Rightarrow> 'w process \<Rightarrow> bool"
  for e ac sc p where
  start: "run e ac sc p [] p"
| more: "run e ac sc p evs q \<Longrightarrow> step e ac sc q ev q' \<Longrightarrow> run e ac sc p (evs @ [ev]) q'"

inductive_cases environment_stepE: "environment_step p ev q"
inductive_cases role_stepE: "role_step e ac p ev q"
inductive_cases main_stepE: "main_step e sc p ev q"

lemmas step_elims = step.cases environment_stepE role_stepE main_stepE

section \<open>While the server is up\<close>

definition server_up :: "event list \<Rightarrow> bool" where
  "server_up evs \<longleftrightarrow> list_all (\<lambda>ev. case ev of ServerFails err \<Rightarrow> False | _ \<Rightarrow> True) evs"

primrec is_secrets_refresh :: "event \<Rightarrow> bool" where
  "is_secrets_refresh (Elapse d) = False"
| "is_secrets_refresh Sigterm = False"
| "is_secrets_refresh (ServerFails err) = False"
| "is_secrets_refresh (Probe t b) = False"
| "is_secrets_refresh (RoleRefresh t) = False"
| "is_secrets_refresh RoleWake = False"
| "is_secrets_refresh RoleStop = False"
| "is_secrets_refresh (SecretsRefresh t) = True"
| "is_secrets_refresh MainReturns = False"

lemma after_refresh_not_Exited [simp]: "after_refresh r \<noteq> Exited"
  by (cases r) (simp_all add: after_refresh_def)

lemma server_up_append [simp]: "server_up (evs @ fs) \<longleftrightarrow> server_up evs \<and> server_up fs"
  by (simp add: server_up_def)

lemma serving:
  assumes "run e ac sc p evs q" and "server_up evs" and "main_phase p = Serving" and "status p = Running"
  shows "main_phase q = Serving \<and> nextRefresh q = nextRefresh p \<and> status q \<noteq> Exited
    \<and> list_all (\<lambda>ev. \<not> is_secrets_refresh ev) evs"
  using assms
proof induction
  case (more evs q ev q')
  then show ?case
    by (auto elim!: step_elims simp: server_up_def)
qed auto

lemma clock_grows: "run e ac sc p evs q \<Longrightarrow> clock p \<le> clock q"
  by (induction rule: run.induct) (auto elim!: step_elims)

text \<open>
  C25: As long as the HTTP server is up, the secrets controller never runs: it performs no refresh, the
  time the liveness check looks at never changes, and the process does not exit, whatever else happens
  and however long it runs, termination signals included.
\<close>

theorem secrets_controller_never_runs:
  assumes "run e ac sc (started sc s t) evs p" and "server_up evs"
  shows "list_all (\<lambda>ev. \<not> is_secrets_refresh ev) evs \<and> nextRefresh p = nextRefresh (started sc s t)
    \<and> status p \<noteq> Exited"
proof -
  have "main_phase (started sc s t) = Serving" "status (started sc s t) = Running"
    by (simp_all add: started_def)
  from serving [OF assms this] show ?thesis by blast
qed

section \<open>Liveness\<close>

definition probes_ok :: "int \<Rightarrow> int \<Rightarrow> event \<Rightarrow> bool" where
  "probes_ok start limit ev = (case ev of Probe t b \<Rightarrow> b \<longleftrightarrow> t \<le> start + limit | _ \<Rightarrow> True)"

lemma healthy_iff:
  assumes "0 \<le> i" and "5 * i < 2 ^ 63 - 1" and "secInterval sc = word_of_int i" and "start \<le> t"
    and "next = nanos (at (add_duration (instant_of start) (- secInterval sc)))"
  shows "healthy sc next t \<longleftrightarrow> t \<le> start + 4 * i"
proof -
  have i: "sint (- secInterval sc) = - i"
    using sint_int64 [of "- i"] assms(1-3) by simp
  then have nxt: "next = start - i" by (simp add: assms(5) add_duration_def instant_of_def)
  have "5 * secInterval sc = word_of_int (5 * i)" by (simp add: assms(3))
  then have five: "sint (5 * secInterval sc) = 5 * i"
    using assms(1,2) by (simp only: sint_int64)
  define d where "d = t - (start - i)"
  have d: "0 \<le> d" using assms(1,4) by (simp add: d_def)
  have "sint (sub_time (instant_of t) (instant_of next)) = (if 2 ^ 63 \<le> d then 2 ^ 63 - 1 else d)"
    unfolding sub_time_def Let_def instant_of_def nxt using d
    by (simp add: d_def [symmetric]) (simp add: sint_int64)
  then show ?thesis
    using assms(2) unfolding healthy_def five by (auto simp: d_def)
qed

text \<open>
  A run with an interval of ten seconds: the termination signal changes nothing in the main
  goroutine, and a probe after a minute fails.
\<close>

definition example_seconds :: "int \<Rightarrow> int" where
  "example_seconds n = n * 1000000000"

definition example_sc :: secrets_controller where
  "example_sc = NewSecretsController [] (word_of_int (example_seconds 10)) 0"

definition example_events :: "event list" where
  "example_events = [Sigterm, Elapse (example_seconds 60), Probe (example_seconds 60) False]"

lemma example_run:
  "\<exists>p. run example_env ac example_sc (started example_sc s 0) example_events p"
proof -
  let ?p = "started example_sc s 0"
  have "run example_env ac example_sc ?p ([] @ [Sigterm]) (?p\<lparr>ctx_done := True\<rparr>)"
    by (rule run.more [OF run.start step.environment [OF _ environment_step.sigterm]]) (simp add: started_def)
  from run.more [OF this step.environment [OF _ environment_step.elapse [where d = "example_seconds 60"]]]
  have *: "run example_env ac example_sc ?p [Sigterm, Elapse (example_seconds 60)]
      (?p\<lparr>ctx_done := True, clock := example_seconds 60\<rparr>)"
    by (simp add: started_def example_seconds_def)
  have "\<not> healthy example_sc (nextRefresh ?p) (example_seconds 60)"
    using healthy_iff [of "example_seconds 10" example_sc 0 "example_seconds 60" "nextRefresh ?p"]
    by (simp add: example_sc_def NewSecretsController_def started_def example_seconds_def)
  with run.more [OF * step.main [OF _ main_step.probe]] show ?thesis
    by (auto simp: started_def example_events_def)
qed

theorem secrets_controller_never_runs_witness:
  "\<exists>p :: unit process. list_all (\<lambda>ev. \<not> is_secrets_refresh ev) example_events \<and> status p \<noteq> Exited
    \<and> nextRefresh p = nextRefresh (started example_sc \<lparr>world = (), trace = []\<rparr> 0)"
proof -
  obtain p where "run example_env (NewAWSIAMRoleController 0 0 []) example_sc
      (started example_sc \<lparr>world = (), trace = []\<rparr> 0) example_events p"
    using example_run by blast
  from secrets_controller_never_runs [OF this] show ?thesis
    by (auto simp: example_events_def server_up_def)
qed

lemma probe_step:
  "step e ac sc p (Probe t b) q \<Longrightarrow> t = clock p \<and> b = healthy sc (nextRefresh p) (clock p)"
  by (auto elim!: step_elims)

text \<open>
  C26: The liveness check fails for good after four intervals: while the server is up, every probe is
  answered with success up to four refresh intervals after the start and with an error from then on.
  (The interval is positive and five of them fit a duration.)
\<close>

theorem liveness_expires:
  assumes "run e ac sc (started sc s t) evs p" and "server_up evs"
    and "secInterval sc = word_of_int i" and "0 \<le> i" and "5 * i < 2 ^ 63 - 1"
  shows "list_all (probes_ok t (4 * i)) evs"
  using assms(1,2)
proof induction
  case (more evs q ev q')
  have up: "server_up evs" using more.prems by simp
  have "main_phase (started sc s t) = Serving" "status (started sc s t) = Running"
    by (simp_all add: started_def)
  from serving [OF more.hyps(1) up this] have nxt:
    "nextRefresh q = nanos (at (add_duration (instant_of t) (- secInterval sc)))"
    by (simp add: started_def)
  have "t \<le> clock q" using clock_grows [OF more.hyps(1)] by (simp add: started_def)
  then have "probes_ok t (4 * i) ev"
    using more.hyps(2) healthy_iff [OF assms(4,5,3) _ nxt]
    by (cases ev) (auto simp: probes_ok_def dest!: probe_step)
  with more.IH up show ?case by simp
qed simp

theorem liveness_expires_witness:
  "list_all (probes_ok 0 (4 * example_seconds 10)) example_events"
proof -
  obtain p where "run example_env (NewAWSIAMRoleController 0 0 []) example_sc
      (started example_sc \<lparr>world = (), trace = []\<rparr> 0) example_events p"
    using example_run by blast
  from liveness_expires [OF this, of "example_seconds 10"] show ?thesis
    by (simp add: example_events_def server_up_def example_sc_def NewSecretsController_def example_seconds_def)
qed

section \<open>The role controller's loop\<close>

fun spaced :: "int \<Rightarrow> int list \<Rightarrow> bool" where
  "spaced i [] = True"
| "spaced i [t] = True"
| "spaced i (t # u # ts) = (t + i \<le> u \<and> spaced i (u # ts))"

primrec role_refresh_time :: "event \<Rightarrow> int list" where
  "role_refresh_time (Elapse d) = []"
| "role_refresh_time Sigterm = []"
| "role_refresh_time (ServerFails err) = []"
| "role_refresh_time (Probe t b) = []"
| "role_refresh_time (RoleRefresh t) = [t]"
| "role_refresh_time RoleWake = []"
| "role_refresh_time RoleStop = []"
| "role_refresh_time (SecretsRefresh t) = []"
| "role_refresh_time MainReturns = []"

definition role_refreshes :: "event list \<Rightarrow> int list" where
  "role_refreshes evs = concat (map role_refresh_time evs)"

lemma role_refreshes_snoc [simp]: "role_refreshes (evs @ [ev]) = role_refreshes evs @ role_refresh_time ev"
  by (simp add: role_refreshes_def)

lemma spaced_snoc: "spaced i (ts @ [t]) \<longleftrightarrow> spaced i ts \<and> (ts = [] \<or> last ts + i \<le> t)"
  by (induction i ts rule: spaced.induct) auto

lemma role_loop_invariant:
  assumes "run e ac sc p evs q" and "role_loop p = Refreshing"
  shows "spaced (sint (interval ac)) (role_refreshes evs)
    \<and> (role_refreshes evs = [] \<or>
        (case role_loop q of
           Waiting t \<Rightarrow> last (role_refreshes evs) + sint (interval ac) = t
         | Refreshing \<Rightarrow> last (role_refreshes evs) + sint (interval ac) \<le> clock q
         | Stopped \<Rightarrow> True))"
  using assms
proof induction
  case start
  then show ?case by (simp add: role_refreshes_def)
next
  case (more evs q ev q')
  then show ?case
    by (cases "role_loop q") (auto elim!: step_elims simp: spaced_snoc)
qed

text \<open>
  C29: The role controller never refreshes more often than its interval: in every run, the times at
  which its refreshes happen are at least one interval apart, whatever the signals, the clock and the
  other controller do.
\<close>

theorem role_refreshes_spaced:
  assumes "run e ac sc (started sc s t) evs p"
  shows "spaced (sint (interval ac)) (role_refreshes evs)"
proof -
  have "role_loop (started sc s t) = Refreshing" by (simp add: started_def)
  from role_loop_invariant [OF assms this] show ?thesis by blast
qed

theorem role_refreshes_spaced_witness:
  "\<exists>p :: unit process. run (example_env\<lparr>ListSecrets := \<lambda>ns sel w. (Inl ''down'', w)\<rparr>)
      (NewAWSIAMRoleController 10 0 []) example_sc (started example_sc \<lparr>world = (), trace = []\<rparr> 0)
      [RoleRefresh 0, Elapse 12, RoleWake, RoleRefresh 12] p
    \<and> spaced (sint (10 :: int64)) [0, 12]"
proof -
  let ?e = "example_env\<lparr>ListSecrets := \<lambda>ns sel w. (Inl ''down'', w)\<rparr>"
  let ?ac = "NewAWSIAMRoleController 10 0 []"
  let ?p = "started example_sc \<lparr>world = (), trace = []\<rparr> 0 :: unit process"
  have refresh: "\<exists>s'. run_state (AWSIAMRole_refresh ?e ?ac) s = (Err ''down'', s')" for s
    by (simp add: AWSIAMRole_refresh_def list_secrets_def)
  have i: "sint (interval ?ac) = 10" by (simp add: NewAWSIAMRoleController_def)
  obtain s1 where s1: "run_state (AWSIAMRole_refresh ?e ?ac) (env_state ?p) = (Err ''down'', s1)"
    using refresh by blast
  obtain s2 where s2: "run_state (AWSIAMRole_refresh ?e ?ac) s1 = (Err ''down'', s2)"
    using refresh by blast
  let ?p1 = "?p\<lparr>env_state := s1, role_loop := Waiting 10\<rparr>"
  let ?p2 = "?p1\<lparr>clock := 12\<rparr>"
  let ?p3 = "?p2\<lparr>role_loop := Refreshing\<rparr>"
  have "step ?e ?ac example_sc ?p (RoleRefresh 0) ?p1"
    using step.role [OF _ role_step.role_refresh [OF _ s1]] by (simp add: started_def after_refresh_def i)
  moreover have "step ?e ?ac example_sc ?p1 (Elapse 12) ?p2"
    using step.environment [OF _ environment_step.elapse [of 12 ?p1]] by (simp add: started_def)
  moreover have "step ?e ?ac example_sc ?p2 RoleWake ?p3"
    using step.role [OF _ role_step.role_wake [of ?p2 10]] by (simp add: started_def)
  moreover obtain q where "step ?e ?ac example_sc ?p3 (RoleRefresh 12) q"
    using step.role [OF _ role_step.role_refresh [of ?p3 ?e ?ac "Err ''down''" s2]] s2 by (auto simp: started_def)
  ultimately have run: "run ?e ?ac example_sc ?p [RoleRefresh 0, Elapse 12, RoleWake, RoleRefresh 12] q"
    using run.more [OF run.more [OF run.more [OF run.more [OF run.start]]]] by fastforce
  from role_refreshes_spaced [OF this] run show ?thesis
    unfolding i by (auto simp: role_refreshes_def)
qed

end
