(* ===== verification/Deployment.thy ===== *)
theory Deployment
  imports MainProgram SecretsCluster Process
begin

text \<open>
  The program from its command line to its calls of the API server: \<open>MainProgram\<close> makes the controllers,
  \<open>Process\<close> runs them, and the cluster may be written to by anybody between two calls.
\<close>

section \<open>Staying in a namespace\<close>

primrec confined :: "string \<Rightarrow> call \<Rightarrow> bool" where
  "confined ns (CNow t) = True"
| "confined ns (CGetCreds r d g) = True"
| "confined ns (CListSecrets n sel l) = (n = ns)"
| "confined ns (CListRoles n l) = (n = ns)"
| "confined ns (CUpdateSecret n s res) = (n = ns \<and> secret_ns s = ns)"
| "confined ns (CCreateSecret n s res) = (n = ns \<and> secret_ns s = ns)"
| "confined ns (CDeleteSecret n name res) = (n = ns)"
| "confined ns (CUpdateStatus n r res) = (n = ns \<and> role_ns r = ns)"
| "confined ns (CEvent r t reason m) = (role_ns r = ns)"

lemma enumerates_satisfying: "enumerates xs (satisfying P m) \<Longrightarrow> x \<in> set xs \<Longrightarrow> P x"
proof -
  assume "enumerates xs (satisfying P m)" "x \<in> set xs"
  then obtain k where "satisfying P m k = Some x"
    unfolding enumerates_def by (metis (mono_tags, lifting) image_iff image_set map_of_is_SomeI prod.collapse)
  then show "P x" by (simp add: satisfying_Some)
qed

lemma role_call_confined:
  assumes "role_call secrets roles d" and "\<And>s. s \<in> set secrets \<Longrightarrow> secret_ns s = ns"
    and "\<And>r. r \<in> set roles \<Longrightarrow> role_ns r = ns"
  shows "confined ns d"
  using assms by (cases d) (auto simp: renewed_def with_status_def new_secret_sel)

lemma secrets_call_confined:
  assumes "secrets_call c secrets d" and "\<And>s. s \<in> set secrets \<Longrightarrow> secret_ns s = ns"
    and "\<And>role n. \<not> wanted c role n"
  shows "confined ns d"
  using assms by (cases d) auto

lemma shared_answers: "shared_step R K d K' \<Longrightarrow> answers K d"
  by (auto simp: shared_step_def api_step_def)

lemma role_refresh_confined:
  assumes "serves_by (shared_step R) e v" and "namespace c = ns" and "ns \<noteq> []"
    and "run_state (AWSIAMRole_refresh e c) s = (r, s')"
  obtains cs where "trace s' = trace s @ cs" "list_all (confined ns) cs"
proof -
  have "emits (after_listing c (\<lambda>secrets roles r cs. list_all (role_call secrets roles) cs)) (AWSIAMRole_refresh e c)"
    by (rule emits_refresh) (rule listed_trace_role_call)
  from assms(1) this assms(4) obtain cs where cs: "trace s' = trace s @ cs"
    "after_listing c (\<lambda>secrets roles r cs. list_all (role_call secrets roles) cs) r cs"
    "steps (shared_step R) (v (world s)) cs (v (world s'))"
    by (rule refresh_run)
  from cs(2) have "list_all (confined ns) cs"
  proof (cases rule: after_listing.cases)
    case (listed secrets roles ds)
    with cs(3) obtain K L where "answers K (CListSecrets ns awsIAMRoleOwnerLabels (Inr secrets))"
      "answers L (CListRoles ns (Inr roles))"
      using assms(2) by (auto dest!: shared_answers)
    then have "secret_ns s = ns" if "s \<in> set secrets" for s
      using enumerates_satisfying that assms(3) by (fastforce simp: selected_def in_namespace_def)
    moreover have "role_ns r = ns" if "r \<in> set roles" for r
      using \<open>answers L (CListRoles ns (Inr roles))\<close> enumerates_satisfying that assms(3)
      by (fastforce simp: in_namespace_def)
    ultimately have "list_all (confined ns) ds"
      using listed(2) role_call_confined unfolding list_all_iff by blast
    with listed assms(2) show ?thesis by simp
  qed (use assms(2) in simp_all)
  with cs(1) show thesis by (rule that)
qed

lemma Secrets_refresh_confined:
  assumes "serves_by (shared_step R) e v" and "secNamespace c = ns" and "ns \<noteq> []" and "\<And>role n. \<not> wanted c role n"
    and "run_state (Secrets_refresh e c) s = (r, s')"
  obtains cs where "trace s' = trace s @ cs" "list_all (confined ns) cs"
proof -
  have "emits (after_secrets c (\<lambda>secrets r cs. list_all (secrets_call c secrets) cs)) (Secrets_refresh e c)"
    by (rule emits_Secrets_refresh) (rule Secrets_listed_trace_call)
  then obtain cs where cs: "trace s' = trace s @ cs"
    "after_secrets c (\<lambda>secrets r cs. list_all (secrets_call c secrets) cs) r cs"
    by (rule emitsD [where s = s]) (simp add: assms(5))
  from follows_Secrets_refresh [OF assms(1), of c] have run: "steps (shared_step R) (v (world s)) cs (v (world s'))"
    unfolding follows_def by (metis assms(5) cs(1) same_append_eq snd_conv)
  from cs(2) have "list_all (confined ns) cs"
  proof (cases rule: after_secrets.cases)
    case (listed secrets ds)
    with run have "answers (v (world s)) (CListSecrets ns ownerLabels (Inr secrets))"
      using assms(2) by (auto dest!: shared_answers)
    then have "secret_ns s = ns" if "s \<in> set secrets" for s
      using enumerates_satisfying that assms(3) by (fastforce simp: selected_def in_namespace_def)
    then have "list_all (confined ns) ds"
      using listed(2) secrets_call_confined [OF _ _ assms(4)] unfolding list_all_iff by blast
    with listed assms(2) show ?thesis by simp
  qed (use assms(2) in simp)
  with cs(1) show thesis by (rule that)
qed

lemma run_confined:
  assumes "run e ac sc p evs q" and "serves_by (shared_step R) e v" and "namespace ac = ns" and "secNamespace sc = ns"
    and "ns \<noteq> []" and "\<And>role n. \<not> wanted sc role n"
  shows "\<exists>cs. trace (env_state q) = trace (env_state p) @ cs \<and> list_all (confined ns) cs"
  using assms(1)
proof induction
  case (more evs q ev q')
  then obtain cs where cs: "trace (env_state q) = trace (env_state p) @ cs" "list_all (confined ns) cs" by blast
  from more(2) have "\<exists>ds. trace (env_state q') = trace (env_state q) @ ds \<and> list_all (confined ns) ds"
  proof (cases rule: step.cases)
    case role
    from role(2) show ?thesis
    proof (cases rule: role_step.cases)
      case (role_refresh r s')
      from assms(2,3,5) role_refresh(4) obtain ds where "trace s' = trace (env_state q) @ ds" "list_all (confined ns) ds"
        by (rule role_refresh_confined)
      with role_refresh(2) show ?thesis by simp
    qed auto
  next
    case main
    from main(2) show ?thesis
    proof (cases rule: main_step.cases)
      case (secrets_refresh r s')
      from assms(2,4,5,6) secrets_refresh(5) obtain ds where "trace s' = trace (env_state q) @ ds"
          "list_all (confined ns) ds"
        by (rule Secrets_refresh_confined)
      with secrets_refresh(2) show ?thesis by simp
    qed auto
  qed (auto elim: environment_step.cases)
  with cs show ?case by (metis append.assoc list_all_append)
qed simp

section \<open>From the command line on\<close>

lemma main_prepare_starts:
  assumes "run_state (main_prepare out) \<lparr>world = w, trace = []\<rparr> = (Ok p, s')"
  shows "starts_with out p (trace s')"
proof -
  have "emits (main_outcome out) (main_prepare out)"
    using emits_main_prepare main_trace_outcome by (rule emits_mono)
  then obtain cs where "trace s' = cs" "main_outcome out (Ok p) cs"
    by (rule emitsD [where s = "\<lparr>world = w, trace = []\<rparr>"]) (simp add: assms)
  then show ?thesis by (simp add: main_outcome_def)
qed

lemma starts_configured:
  assumes "starts_with out p cs" and "CParse (Inr vals) \<in> set cs"
  shows "configured (flags.truncate (config_of vals)) (runProgram p)"
proof -
  from assms(1) obtain vals' pre as rs where cs: "cs = pre @ CLoadConfig None # map CAWS as @ map CRecorder rs"
    and pre: "connecting out vals' (Ok (runClient p)) pre"
    and start: "startup_trace (awsLib out) (flags.truncate (config_of vals')) (Ok (runProgram p)) as"
    by (auto simp: starts_with_def)
  from pre obtain ks where "pre = parsed_calls vals' @ map CClient ks" by (auto simp: connecting_def)
  with cs assms(2) have "vals' = vals" by (auto simp: parsed_calls_parse)
  with start show ?thesis by (auto elim: startup_trace.cases)
qed

text \<open>
  C12: With the flag \<open>namespace\<close> the program is confined to a namespace.  Whatever the cluster holds, whatever
  other clients and the other controller write to it between any two calls, whatever fails, and however
  long the process runs: every list that either controller asks for is of the namespace of the flag,
  and every secret that they create, update or delete, every status and every event is in it.
\<close>

theorem namespace_confined:
  assumes "run_state (main_prepare out) \<lparr>world = w, trace = []\<rparr> = (Ok p, s')"
    and "CParse (Inr vals) \<in> set (trace s')" and "stringVar vals ''namespace'' \<noteq> []"
    and "serves_by (shared_step R) e v"
    and "run e (awsIAMRoleController (runProgram p)) (secretsController (runProgram p))
      (started (secretsController (runProgram p)) \<lparr>world = x, trace = []\<rparr> t) evs q"
  shows "list_all (confined (stringVar vals ''namespace'')) (trace (env_state q))"
proof -
  let ?ns = "stringVar vals ''namespace''"
  have "configured (flags.truncate (config_of vals)) (runProgram p)"
    using main_prepare_starts [OF assms(1)] assms(2) by (rule starts_configured)
  then have "namespace (awsIAMRoleController (runProgram p)) = ?ns"
    "secNamespace (secretsController (runProgram p)) = ?ns"
    "\<not> wanted (secretsController (runProgram p)) role n" for role n
    by (simp_all add: configured_def config_of_def flags.truncate_def NewAWSIAMRoleController_def
      NewSecretsController_def NewRoleStore_def wanted_def)
  from run_confined [OF assms(5,4) this(1,2) assms(3) this(3)] show ?thesis
    by (simp add: started_def)
qed

text \<open>A program with a namespace on its command line, and libraries that number what they make.\<close>

definition example_values :: parsed where
  "example_values =
     \<lparr>boolVar = (\<lambda>n. False), durationVar = (\<lambda>n. if n = ''interval'' then 10000000000 else 900000000000),
      stringVar = (\<lambda>n. if n = ''namespace'' then ''default''
        else if n = ''base-role-arn'' then ''arn:aws:iam::012345678910:role/'' else []),
      urlVar = (\<lambda>n. Some ''http://127.0.0.1:8001'')\<rparr>"

definition example_outside :: "(nat, nat) outside" where
  "example_outside =
     \<lparr>ParseFlags = (\<lambda>fs n. (Inr example_values, n)), SetDebugLevel = (\<lambda>n. n), LoadDefaultConfig = (\<lambda>n. (None, n)),
      inCluster = example_in_cluster, clientLib = example_client_lib,
      recorderLib = \<lparr>NewBroadcaster = (\<lambda>n. (n, Suc n)), StartLogging = (\<lambda>b n. ((), n)), CoreV1RESTClient = Suc,
        EventSink = Suc, StartRecordingToSink = (\<lambda>b k n. ((), n)), NewRecorder = (\<lambda>b c n. (n, Suc n))\<rparr>,
      awsLib = \<lparr>AssumeRole = (\<lambda>params n. (Inl ''no credentials'', n)), GetIAMInfo = (\<lambda>n. (Inl ''no metadata'', n)),
        ParsePartition = (\<lambda>arn. Inr ''aws''), ToString = (\<lambda>s. []), ToTime = (\<lambda>t. example_time),
        SecondsToInt32 = (\<lambda>d. 0)\<rparr>\<rparr>"

lemma example_main:
  "\<exists>p s'. run_state (main_prepare example_outside) \<lparr>world = 0, trace = []\<rparr> = (Ok p, s')
    \<and> CParse (Inr example_values) \<in> set (trace s')"
  by (simp add: main_prepare_def and_then_def parse_flags_def kube_config_def kube_client_def load_config_def
    calling_def fatal_def config_of_def example_outside_def example_values_def Let_def ConfigureKubeConfig_def
    Unified_NewForConfig_def NewForConfig_def NewForConfigAndClient_def limited_config_def with_user_agent_def
    zalandov1_NewForConfigAndClient_def setConfigDefaults_def client_call_defs example_client_lib_def
    main_startup_def base_role_arn_def GetPrefixFromARN_def flags.truncate_def CreateEventRecorder_def
    isfake_def start_recording_def)

theorem namespace_confined_witness:
  "\<exists>p s' q. run_state (main_prepare example_outside) \<lparr>world = 0, trace = []\<rparr> = (Ok p, s')
    \<and> run memory_env (awsIAMRoleController (runProgram p)) (secretsController (runProgram p))
        (started (secretsController (runProgram p)) \<lparr>world = example_store, trace = []\<rparr> 0) [RoleRefresh 0] q
    \<and> trace (env_state q) \<noteq> [] \<and> list_all (confined ''default'') (trace (env_state q))"
proof -
  obtain p s' where main: "run_state (main_prepare example_outside) \<lparr>world = 0, trace = []\<rparr> = (Ok p, s')"
    "CParse (Inr example_values) \<in> set (trace s')"
    using example_main by blast
  let ?ac = "awsIAMRoleController (runProgram p)" and ?sc = "secretsController (runProgram p)"
  let ?p = "started ?sc \<lparr>world = example_store, trace = []\<rparr> 0"
  obtain r s'' where refresh: "run_state (AWSIAMRole_refresh memory_env ?ac) (env_state ?p) = (r, s'')" by fastforce
  let ?q = "?p\<lparr>env_state := s'', role_loop := Waiting (clock ?p + sint (interval ?ac)), status := after_refresh r\<rparr>"
  have "step memory_env ?ac ?sc ?p (RoleRefresh (clock ?p)) ?q"
    by (rule step.role) (simp add: started_def, rule role_step.role_refresh [OF _ refresh], simp add: started_def)
  then have run: "run memory_env ?ac ?sc ?p [RoleRefresh 0] ?q"
    using run.more [OF run.start] by (fastforce simp: started_def)
  have "trace s'' \<noteq> []"
    by (rule emitsD [OF emits_refresh [where P = "\<lambda>_ _ _ _. True"], where s = "env_state ?p" and e1 = memory_env and c1 = ?ac])
      (auto simp: refresh elim: after_listing.cases)
  moreover have "list_all (confined (stringVar example_values ''namespace'')) (trace (env_state ?q))"
    by (rule namespace_confined [OF main _ serves_shared [OF memory_env_serves] run]) (simp add: example_values_def)
  ultimately show ?thesis using main(1) run by (auto simp: example_values_def)
qed

end
