(* ===== verification/Reconciliation.thy ===== *)
theory Reconciliation
  imports Convergence
begin

text \<open>
  What a refresh of the \<open>AWSIAMRole\<close> controller is for, stated without its loops, its maps and its calls: a
  function from the watched roles and the watched secrets to the secrets there are afterwards.  Where
  the API server is up and every role can be assumed, a refresh implements this function.
\<close>

section \<open>The abstract refresh\<close>

text \<open>Of a secret, its owners and the generation that it records; of the cluster, what is watched.\<close>

type_synonym entry = "owner_reference list \<times> (num_error + int64)"

definition watched :: "aws_controller \<Rightarrow> cluster \<Rightarrow> (object_key \<rightharpoonup> awsiamrole)" where
  "watched c K = satisfying (\<lambda>r. in_namespace (namespace c) (RoleMeta r)) (roles_in K)"

definition view :: "aws_controller \<Rightarrow> cluster \<Rightarrow> (object_key \<rightharpoonup> entry)" where
  "view c K k = map_option (\<lambda>s. (OwnerReferences (SecretMeta s), getGeneration (Data s)))
     (satisfying (selected (namespace c) awsIAMRoleOwnerLabels) (secrets_in K) k)"

text \<open>
  A secret without a role is removed.  A role without a secret gets one, a role with a secret of its own
  has it brought to its generation, and a secret of the name of a role that does not own it is removed
  without being replaced.
\<close>

fun reconciled :: "awsiamrole option \<Rightarrow> entry option \<Rightarrow> entry option" where
  "reconciled None x = None"
| "reconciled (Some r) None = Some ([owner_ref_of r], Inr (Generation (RoleMeta r)))"
| "reconciled (Some r) (Some (refs, g)) =
     (if owner_ref_of r \<in> set refs then Some (refs, Inr (Generation (RoleMeta r))) else None)"

text \<open>Twice is enough.\<close>

lemma reconciled_fixed:
  "reconciled ro (reconciled ro (reconciled ro x)) = reconciled ro (reconciled ro x)"
  by (cases "(ro, x)" rule: reconciled.cases) simp_all

lemma reconciled_same: "same_role r r' \<Longrightarrow> reconciled (Some r') x = reconciled (Some r) x"
  by (cases "(Some r, x)" rule: reconciled.cases) (auto simp: same_role_sel)

lemma watched_Some:
  "watched c K k = Some r \<longleftrightarrow> roles_in K k = Some r \<and> in_namespace (namespace c) (RoleMeta r)"
  by (simp add: watched_def satisfying_Some)

lemma view_Some:
  "view c K k = Some x \<longleftrightarrow> (\<exists>s. secrets_in K k = Some s \<and> selected (namespace c) awsIAMRoleOwnerLabels s
     \<and> x = (OwnerReferences (SecretMeta s), getGeneration (Data s)))"
  by (auto simp: view_def satisfying_Some)

lemma view_None:
  "view c K k = None \<longleftrightarrow> (\<forall>s. secrets_in K k = Some s \<longrightarrow> \<not> selected (namespace c) awsIAMRoleOwnerLabels s)"
  by (auto simp: view_def satisfying_def split: option.splits)

lemma sees_watched:
  assumes "sees c secrets roles K" and "well_formed K"
  shows "watched c K k = Some r \<longleftrightarrow> r \<in> set roles \<and> object_key (RoleMeta r) = k"
  using sees_role(1) [OF assms, of r] assms(2) unfolding watched_Some well_formed_def by (auto dest: keyedD(1))

lemma sees_selected:
  assumes "sees c secrets roles K" and "well_formed K"
  shows "secrets_in K k = Some s \<and> selected (namespace c) awsIAMRoleOwnerLabels s
    \<longleftrightarrow> s \<in> set secrets \<and> object_key (SecretMeta s) = k"
  using sees_secret(1) [OF assms, of s] assms(2) unfolding well_formed_def by (auto dest: keyedD(1))

section \<open>Orderly clusters\<close>

text \<open>
  A cluster is orderly when its objects stand under their names (\<open>well_formed\<close>), every secret with the
  owner labels records a generation that can be read, or none (\<open>readable\<close>), and no secret of somebody
  else, without the owner labels, has the name of a watched role (\<open>unobstructed\<close>): the controller could
  neither see such a secret nor create its own.
\<close>

definition unobstructed :: "aws_controller \<Rightarrow> cluster \<Rightarrow> bool" where
  "unobstructed c K \<longleftrightarrow> (\<forall>k s. secrets_in K k = Some s \<and> watched c K k \<noteq> None
     \<longrightarrow> selected (namespace c) awsIAMRoleOwnerLabels s)"

definition orderly :: "aws_controller \<Rightarrow> cluster \<Rightarrow> bool" where
  "orderly c K \<longleftrightarrow> well_formed K \<and> readable c K \<and> unobstructed c K"

text \<open>The listed objects are in the namespace, and so is all that is made of them, whatever fails.\<close>

definition fit :: "aws_controller \<Rightarrow> secret list \<Rightarrow> awsiamrole list \<Rightarrow> bool" where
  "fit c secrets roles \<longleftrightarrow>
     (\<forall>s \<in> set secrets. in_namespace (namespace c) (SecretMeta s))
     \<and> (\<forall>r \<in> set roles. in_namespace (namespace c) (RoleMeta r) \<and> CHR ''/'' \<notin> set (role_ns r))"

lemma sees_fit:
  assumes "sees c secrets roles K" and "well_formed K"
  shows "fit c secrets roles"
  using sees_secret(1) [OF assms] sees_role(1,2) [OF assms] by (auto simp: fit_def selected_def)

lemma unobstructed_change:
  assumes "change secrets roles K d K'" and "fit c secrets roles" and "well_formed K" and "unobstructed c K"
  shows "unobstructed c K'"
proof -
  have made: "selected (namespace c) awsIAMRoleOwnerLabels s'"
    if "accepted s s'" "in_namespace (namespace c) (SecretMeta s)"
      "awsIAMRoleOwnerLabels \<subseteq>\<^sub>m Labels (SecretMeta s)" for s s'
    using that by (simp add: selected_def in_namespace_def accepted_sel)
  have labels: "awsIAMRoleOwnerLabels \<subseteq>\<^sub>m Labels (SecretMeta (renewed r data s))"
    "awsIAMRoleOwnerLabels \<subseteq>\<^sub>m Labels (SecretMeta (new_secret r data))" for r data s
    by (simp_all add: renewed_def new_secret_def mergeLabels_owner)
  note old = assms(4) [unfolded unobstructed_def]
  show ?thesis
    using assms(1)
  proof (cases rule: change.cases)
    case (renewal s r old data s' ns res)
    have "in_namespace (namespace c) (SecretMeta (renewed r data s))"
      using assms(2) renewal(3) by (auto simp: fit_def in_namespace_def renewed_sel)
    from made [OF renewal(7) this labels(1)] old renewal(2) show ?thesis
      by (simp add: unobstructed_def watched_def)
  next
    case (creation r data s' ns res)
    have "in_namespace (namespace c) (SecretMeta (new_secret r data))"
      using assms(2) creation(3) by (auto simp: fit_def in_namespace_def new_secret_sel)
    from made [OF creation(5) this labels(2)] old creation(2) show ?thesis
      by (simp add: unobstructed_def watched_def)
  next
    case (deletion s ns n res)
    with old show ?thesis by (simp add: unobstructed_def watched_def)
  next
    case (report r old ns arn t res v)
    have "watched c K' k \<noteq> None \<Longrightarrow> watched c K k \<noteq> None" for k
      using report(2,4) by (auto simp: watched_def satisfying_def in_namespace_def split: if_splits option.splits)
    moreover have "secrets_in K' = secrets_in K" using report(2) by simp
    ultimately show ?thesis using old unfolding unobstructed_def by (metis (no_types))
  qed (use assms(4) in simp)
qed

lemma orderly_change:
  assumes "change secrets roles K d K'" and "fit c secrets roles" and "orderly c K"
  shows "orderly c K'"
  using assms well_formed_change [OF assms(1)] readable_change [OF assms(1)] unobstructed_change [OF assms(1)]
  by (simp add: orderly_def fit_def)

lemma orderly_delete: "orderly c K \<Longrightarrow> orderly c (K\<lparr>secrets_in := (secrets_in K)(k := None)\<rparr>)"
  by (auto simp: orderly_def well_formed_def keyed_delete readable_def unobstructed_def watched_def)

section \<open>A reliable API server\<close>

text \<open>
  Requests that a server that is up serves: those for objects that exist, or do not exist yet, with the
  resource version that they have when one is given.  Credentials are a service of the cloud provider's;
  reliable means that every role can be assumed.
\<close>

definition same_version :: "object_meta \<Rightarrow> object_meta \<Rightarrow> bool" where
  "same_version m old \<longleftrightarrow> ResourceVersion m = [] \<or> ResourceVersion m = ResourceVersion old"

primrec can_serve :: "cluster \<Rightarrow> call \<Rightarrow> bool" where
  "can_serve K (CNow t) = True"
| "can_serve K (CGetCreds r d g) = True"
| "can_serve K (CListSecrets ns sel l) = True"
| "can_serve K (CListRoles ns l) = True"
| "can_serve K (CUpdateSecret ns s res) = (secret_ns s = ns
     \<and> (\<exists>old. secrets_in K (Key ns (secret_name s)) = Some old \<and> same_version (SecretMeta s) (SecretMeta old)))"
| "can_serve K (CCreateSecret ns s res) = (secret_ns s = ns \<and> secrets_in K (Key ns (secret_name s)) = None)"
| "can_serve K (CDeleteSecret ns n res) = (secrets_in K (Key ns n) \<noteq> None)"
| "can_serve K (CUpdateStatus ns r res) = (role_ns r = ns
     \<and> (\<exists>old. roles_in K (Key ns (role_name r)) = Some old \<and> same_version (RoleMeta r) (RoleMeta old)))"
| "can_serve K (CEvent r t reason m) = True"

definition reliable_step :: cluster_step where
  "reliable_step K d K' \<longleftrightarrow> api_step K d K' \<and> (can_serve K d \<longrightarrow> smooth d)"

lemma steps_mono:
  "steps stp K cs K' \<Longrightarrow> (\<And>K d K'. stp K d K' \<Longrightarrow> stp' K d K') \<Longrightarrow> steps stp' K cs K'"
  by (induction cs arbitrary: K) (simp, fastforce)

lemma reliable_api: "reliable_step K d K' \<Longrightarrow> api_step K d K'"
  by (simp add: reliable_step_def)

lemma steps_split:
  assumes "steps stp K cs K'" and "cs = xs @ d # ys"
  obtains L L' where "steps stp K xs L" "stp L d L'"
  using assms by (auto simp: steps_append)

text \<open>What a call does not name it does not touch.\<close>

lemma untouched_secret:
  assumes "api_step K d K'" and "\<And>s. stored d = Some s \<Longrightarrow> object_key (SecretMeta s) \<noteq> Key ns n"
    and "deletion d \<noteq> Some (ns, n)"
  shows "secrets_in K' (Key ns n) = secrets_in K (Key ns n)"
proof (cases "applied K d K'")
  case True
  then show ?thesis using assms(2,3) by cases (auto simp: object_key_def)
qed (use assms(1) in \<open>simp add: api_step_def\<close>)

lemma undeleted_secret:
  assumes "api_step K d K'" and "deletion d \<noteq> Some (ns, n)" and "secrets_in K (Key ns n) \<noteq> None"
  shows "secrets_in K' (Key ns n) \<noteq> None"
proof (cases "applied K d K'")
  case True
  then show ?thesis using assms(2,3) by cases auto
qed (use assms(1,3) in \<open>simp add: api_step_def\<close>)

lemma untouched_role:
  assumes "api_step K d K'" and "\<And>ns q res. d = CUpdateStatus ns q res \<Longrightarrow> object_key (RoleMeta q) \<noteq> k"
  shows "roles_in K' k = roles_in K k"
proof (cases "applied K d K'")
  case True
  then show ?thesis using assms(2) by cases (auto simp: object_key_def)
qed (use assms(1) in \<open>simp add: api_step_def\<close>)

lemma enumerates_distinct:
  assumes "enumerates xs m" and "keyed meta m"
  shows "distinct (map (\<lambda>x. object_key (meta x)) xs)"
proof -
  from assms(1) obtain kvs where kvs: "distinct (map fst kvs)" "map_of kvs = m" "xs = map snd kvs"
    unfolding enumerates_def by blast
  have "object_key (meta x) = k" if "(k, x) \<in> set kvs" for k x
    using map_of_is_SomeI [OF kvs(1) that] kvs(2) keyedD(1) [OF assms(2)] by blast
  then have "map (\<lambda>x. object_key (meta x)) xs = map fst kvs" by (auto simp: kvs(3))
  with kvs(1) show ?thesis by simp
qed

section \<open>A refresh with a reliable server\<close>

text \<open>The name of a role without a listed secret is free.\<close>

lemma free_name:
  assumes "sees c secrets roles K" and "orderly c K" and "q \<in> set roles"
    and "map_key (RoleMeta q) \<notin> (\<lambda>s. map_key (SecretMeta s)) ` set secrets"
  shows "secrets_in K (object_key (RoleMeta q)) = None"
proof (rule ccontr)
  let ?k = "object_key (RoleMeta q)"
  have wf: "well_formed K" and free: "unobstructed c K" using assms(2) by (simp_all add: orderly_def)
  assume "secrets_in K ?k \<noteq> None"
  then obtain u where u: "secrets_in K ?k = Some u" by blast
  moreover have "watched c K ?k = Some q" using sees_watched [OF assms(1) wf] assms(3) by blast
  ultimately have "u \<in> set secrets" "object_key (SecretMeta u) = ?k"
    using free sees_selected [OF assms(1) wf] unfolding unobstructed_def by blast+
  then have "map_key (SecretMeta u) = map_key (RoleMeta q)"
    by (simp add: object_key_def map_key_def)
  with assms(4) \<open>u \<in> set secrets\<close> show False by (metis imageI)
qed

text \<open>A secret can be written while its name is as it was when the secrets were listed.\<close>

lemma unchanged_can_serve:
  assumes "role_call secrets roles d" and "sees c secrets roles K" and "orderly c K"
    and "stored d = Some s'" and "secrets_in L (object_key (SecretMeta s')) = secrets_in K (object_key (SecretMeta s'))"
  shows "can_serve L d"
proof -
  have wf: "well_formed K" using assms(3) by (simp add: orderly_def)
  from assms(1,4) consider (update) s r data res where "s \<in> set secrets"
      "d = CUpdateSecret (secret_ns s) (renewed r data s) res" "s' = renewed r data s"
    | (create) q data res where "q \<in> set roles" "d = CCreateSecret (role_ns q) (new_secret q data) res"
      "s' = new_secret q data" "map_key (RoleMeta q) \<notin> (\<lambda>s. map_key (SecretMeta s)) ` set secrets"
    by (cases d) auto
  then show ?thesis
  proof cases
    case update
    then have "secrets_in L (object_key (SecretMeta s)) = Some s"
      using assms(5) sees_secret(1) [OF assms(2) wf] by (simp add: renewed_sel)
    with update(2) show ?thesis
      by (auto simp: renewed_sel object_key_def renewed_def same_version_def)
  next
    case create
    then have "secrets_in L (object_key (RoleMeta q)) = None"
      using assms(5) free_name [OF assms(2,3) create(1,4)] by (simp add: new_secret_sel)
    with create(2) show ?thesis by (simp add: new_secret_sel object_key_def)
  qed
qed

text \<open>The first write of a secret succeeds, as nothing has changed since the secrets were listed.\<close>

lemma reliable_write:
  assumes calls: "list_all (role_call secrets roles) cs" and sees: "sees c secrets roles K"
    and ord: "orderly c K" and run: "steps reliable_step K cs K'"
    and d: "d \<in> set cs" "stored d = Some s'"
    and none: "\<And>s. s \<in> set secrets \<Longrightarrow> object_key (SecretMeta s) = object_key (SecretMeta s')
      \<Longrightarrow> \<not> orphan (roles_map roles) s"
  shows "superseded cs (object_key (SecretMeta s'))"
proof -
  define k where "k = object_key (SecretMeta s')"
  obtain ns n where key: "k = Key ns n" by (cases k)
  let ?P = "\<lambda>d. \<exists>s. stored d = Some s \<and> object_key (SecretMeta s) = k"
  have "\<exists>x \<in> set cs. ?P x" using d unfolding k_def by blast
  then obtain xs d' ys where cs: "cs = xs @ d' # ys" "?P d'" "\<forall>x \<in> set xs. \<not> ?P x"
    by (rule split_list_first_propE)
  obtain L L' where L: "steps reliable_step K xs L" "reliable_step L d' L'"
    by (rule steps_split [OF run cs(1)])
  have same: "secrets_in L k = secrets_in K k"
    using L(1) refl
  proof (rule steps_invariant)
    fix x M M'
    assume x: "x \<in> set xs" "secrets_in M k = secrets_in K k" "reliable_step M x M'"
    have "role_call secrets roles x" using calls cs(1) x(1) by (simp add: list_all_iff)
    then have "deletion x \<noteq> Some (ns, n)"
      using none unfolding k_def [symmetric] key by (cases x) (auto simp: object_key_def)
    with untouched_secret [OF reliable_api [OF x(3)], of ns n] cs(3) x(1,2)
    show "secrets_in M' k = secrets_in K k" unfolding key by simp
  qed
  from cs(2) obtain t where t: "stored d' = Some t" "object_key (SecretMeta t) = k" by blast
  have "can_serve L d'"
    by (rule unchanged_can_serve [OF _ sees ord t(1)]) (use calls cs(1) same t(2) in simp_all)
  with L(2) t(1) have "wrote d'" by (auto simp: reliable_step_def intro: smooth_wrote)
  with cs(1) t show ?thesis unfolding superseded_def k_def by fastforce
qed

lemma reliable_report:
  assumes calls: "list_all (role_call secrets roles) cs" and sees: "sees c secrets roles K"
    and wf: "well_formed K" and run: "steps reliable_step K cs K'"
    and d: "CUpdateStatus ns q res \<in> set cs"
  shows "\<exists>ns' q' q''. CUpdateStatus ns' q' (Inr q'') \<in> set cs \<and> object_key (RoleMeta q') = object_key (RoleMeta q)"
proof -
  define k where "k = object_key (RoleMeta q)"
  let ?P = "\<lambda>d. \<exists>ns q res. d = CUpdateStatus ns q res \<and> object_key (RoleMeta q) = k"
  have "\<exists>x \<in> set cs. ?P x" using d unfolding k_def by blast
  then obtain xs d' ys where cs: "cs = xs @ d' # ys" "?P d'" "\<forall>x \<in> set xs. \<not> ?P x"
    by (rule split_list_first_propE)
  obtain L L' where L: "steps reliable_step K xs L" "reliable_step L d' L'"
    by (rule steps_split [OF run cs(1)])
  have same: "roles_in L k = roles_in K k"
    using L(1) refl
    by (rule steps_invariant) (use cs(3) untouched_role [OF reliable_api] in \<open>metis (no_types)\<close>)
  from cs(2) obtain ns' q' res' where q': "d' = CUpdateStatus ns' q' res'" "object_key (RoleMeta q') = k" by blast
  have "role_call secrets roles d'" using calls cs(1) by simp
  with q'(1) obtain p arn t where p: "p \<in> set roles" "ns' = role_ns p" "q' = with_status p arn t" by auto
  with q'(2) sees_role(1) [OF sees wf, of p] same have "roles_in L k = Some p" "object_key (RoleMeta p) = k" by simp_all
  with q'(1) p have "can_serve L d'" by (auto simp: object_key_def same_version_def)
  with L(2) q'(1) have "\<exists>q''. res' = Inr q''" by (simp add: reliable_step_def smooth_def not_Inl_iff)
  with cs(1) q' show ?thesis unfolding k_def by auto
qed

lemma reliable_delete:
  assumes trace: "listed_trace c secrets roles r cs" and sees: "sees c secrets roles K"
    and wf: "well_formed K" and run: "steps reliable_step K cs K'"
    and d: "CDeleteSecret ns n res \<in> set cs"
  shows "smooth (CDeleteSecret ns n res)"
proof -
  let ?os = "filter (orphan (roles_map roles)) secrets"
  obtain xs ys where cs: "cs = xs @ CDeleteSecret ns n res # ys" using d by (auto dest: split_list)
  have key: "Key (secret_ns s) (secret_name s) = object_key (SecretMeta s)" for s by (simp add: object_key_def)
  have dels: "deletions cs = map (\<lambda>s. (secret_ns s, secret_name s)) ?os"
    using listed_trace_deletions [OF trace] cs by auto
  have "keyed SecretMeta (satisfying (selected (namespace c) awsIAMRoleOwnerLabels) (secrets_in K))"
    using wf by (simp add: well_formed_def keyed_satisfying)
  with sees have "distinct (map (\<lambda>s. object_key (SecretMeta s)) secrets)"
    unfolding sees_def by (blast intro: enumerates_distinct)
  then have "distinct (map (\<lambda>s. object_key (SecretMeta s)) ?os)" by (rule distinct_map_filter)
  moreover have "map (\<lambda>(a, b). Key a b) (deletions cs) = map (\<lambda>s. object_key (SecretMeta s)) ?os"
    by (simp add: dels key)
  ultimately have "distinct (deletions cs)" by (metis distinct_map)
  then have no: "deletion x \<noteq> Some (ns, n)" if "x \<in> set xs" for x
    using cs that deletions_memb [of "(ns, n)" xs] by auto
  obtain L L' where L: "steps reliable_step K xs L" "reliable_step L (CDeleteSecret ns n res) L'"
    by (rule steps_split [OF run cs])
  have "(ns, n) \<in> set (deletions cs)" unfolding cs by simp
  then obtain s where s: "s \<in> set secrets" "ns = secret_ns s" "n = secret_name s" by (auto simp: dels)
  then have "secrets_in K (Key ns n) \<noteq> None" using sees_secret(1) [OF sees wf] by (simp add: key)
  with L(1) have "secrets_in L (Key ns n) \<noteq> None"
    by (rule steps_invariant) (use no undeleted_secret [OF reliable_api] in \<open>metis (no_types)\<close>)
  with L(2) show ?thesis by (simp add: reliable_step_def)
qed

lemma reliable_tolerable:
  assumes "listed_trace c secrets roles r cs" and "sees c secrets roles K" and "orderly c K"
    and "steps reliable_step K cs K'"
  shows "list_all (tolerable secrets (roles_map roles) cs) cs"
  unfolding list_all_iff
proof
  fix d
  assume d: "d \<in> set cs"
  have wf: "well_formed K" using assms(3) by (simp add: orderly_def)
  note calls = listed_trace_role_call [OF assms(1)]
  obtain xs ys where cs: "cs = xs @ d # ys" using d by (auto dest: split_list)
  obtain L L' where L: "reliable_step L d L'" by (rule steps_split [OF assms(4) cs])
  have stored: "tolerable secrets (roles_map roles) cs d" if s': "stored d = Some s'" for s'
  proof (cases "\<exists>s \<in> set secrets. orphan (roles_map roles) s \<and> object_key (SecretMeta s') = object_key (SecretMeta s)")
    case True
    with s' show ?thesis by (simp add: tolerable_def excused_def)
  next
    case False
    then have "superseded cs (object_key (SecretMeta s'))"
      by (intro reliable_write [OF calls assms(2-4) d s']) auto
    with s' show ?thesis by (simp add: tolerable_def excused_def)
  qed
  show "tolerable secrets (roles_map roles) cs d"
  proof (cases d)
    case (CDeleteSecret ns n res)
    with reliable_delete [OF assms(1,2) wf assms(4)] d show ?thesis by (simp add: tolerable_def)
  next
    case (CUpdateStatus ns q res)
    with reliable_report [OF calls assms(2) wf assms(4)] d show ?thesis
      by (auto simp: tolerable_def excused_def)
  qed (use stored L in \<open>auto simp: tolerable_def reliable_step_def smooth_def\<close>)
qed

text \<open>The owners of a secret are those it was listed with, or its role when it is new.\<close>

lemma change_owners:
  assumes "change secrets roles L d L'" and "sees c secrets roles K" and "well_formed K"
    and "\<And>s. s \<in> set secrets \<Longrightarrow> object_key (SecretMeta s) = k \<Longrightarrow> OwnerReferences (SecretMeta s) = refs"
    and "\<And>r. r \<in> set roles \<Longrightarrow> object_key (RoleMeta r) = k \<Longrightarrow> \<forall>s \<in> set secrets. object_key (SecretMeta s) \<noteq> k
      \<Longrightarrow> [owner_ref_of r] = refs"
    and "\<And>s. secrets_in L k = Some s \<Longrightarrow> OwnerReferences (SecretMeta s) = refs"
    and "secrets_in L' k = Some s"
  shows "OwnerReferences (SecretMeta s) = refs"
  using assms(1)
proof (cases rule: change.cases)
  case (renewal t r old data s' ns res)
  show ?thesis
  proof (cases "object_key (SecretMeta t) = k")
    case True
    with renewal assms(4,7) show ?thesis by (auto simp: accepted_sel)
  qed (use renewal assms(6,7) in simp)
next
  case (creation r data s' ns res)
  show ?thesis
  proof (cases "object_key (RoleMeta r) = k")
    case True
    have "object_key (SecretMeta t) \<noteq> k" if "t \<in> set secrets" for t
    proof
      assume "object_key (SecretMeta t) = k"
      with True have "object_key (SecretMeta t) = object_key (RoleMeta r)" by simp
      then have "map_key (SecretMeta t) = map_key (RoleMeta r)" by (simp add: object_key_def map_key_def)
      with creation(4) that show False by (metis imageI)
    qed
    with assms(5) creation(3) True have "[owner_ref_of r] = refs" by blast
    moreover have "OwnerReferences (SecretMeta (new_secret r data)) = [owner_ref_of r]"
      by (simp add: new_secret_def owner_ref_of_def)
    ultimately show ?thesis
      using assms(7) creation(2) True accepted_sel(5) [OF creation(5)] by simp
  qed (use creation assms(6,7) in simp)
next
  case (deletion t ns n res)
  with assms(6,7) show ?thesis by (auto split: if_splits)
qed (use assms(6,7) in simp_all)

lemma listed_trace_owners:
  assumes "listed_trace c secrets roles r cs" and "api_run K cs K'" and "sees c secrets roles K" and "well_formed K"
    and "\<And>s. s \<in> set secrets \<Longrightarrow> object_key (SecretMeta s) = k \<Longrightarrow> OwnerReferences (SecretMeta s) = refs"
    and "\<And>r. r \<in> set roles \<Longrightarrow> object_key (RoleMeta r) = k \<Longrightarrow> \<forall>s \<in> set secrets. object_key (SecretMeta s) \<noteq> k
      \<Longrightarrow> [owner_ref_of r] = refs"
    and "\<And>s. secrets_in K k = Some s \<Longrightarrow> OwnerReferences (SecretMeta s) = refs"
    and "secrets_in K' k = Some s"
  shows "OwnerReferences (SecretMeta s) = refs"
proof -
  let ?I = "\<lambda>L. \<forall>s. secrets_in L k = Some s \<longrightarrow> OwnerReferences (SecretMeta s) = refs"
  have "?I K" using assms(7) by blast
  with assms(2) have "?I K'"
  proof (rule steps_invariant)
    fix d L L'
    assume d: "d \<in> set cs" "?I L" "api_step L d L'"
    from listed_trace_change [OF assms(1) d(1,3)] d(2) show "?I L'" using change_owners [OF _ assms(3-6)] by blast
  qed
  with assms(8) show ?thesis by blast
qed

text \<open>What has no role and is not watched is left alone.\<close>

lemma listed_trace_others:
  assumes "listed_trace c secrets roles r cs" and "api_run K cs K'" and "sees c secrets roles K" and "well_formed K"
    and "view c K k = None" and "watched c K k = None"
  shows "secrets_in K' k = secrets_in K k"
proof -
  have not_listed: "object_key (SecretMeta s) \<noteq> k" if "s \<in> set secrets" for s
    using sees_selected [OF assms(3,4), of k s] assms(5) that unfolding view_None by blast
  have no_role: "object_key (RoleMeta q) \<noteq> k" if "q \<in> set roles" for q
    using sees_watched [OF assms(3,4), of k q] assms(6) that by simp
  from assms(2) refl show ?thesis
  proof (rule steps_invariant)
    fix d L L'
    assume d: "d \<in> set cs" "secrets_in L k = secrets_in K k" "api_step L d L'"
    from listed_trace_change [OF assms(1) d(1,3)] show "secrets_in L' k = secrets_in K k"
      using d(2) not_listed no_role by cases auto
  qed
qed

text \<open>The views after a refresh: of names without a role, and of names whose role may have its secret.\<close>

lemma listed_trace_view_unwatched:
  assumes trace: "listed_trace c secrets roles (Ok ()) cs" and "deletes_ok cs"
    and sees: "sees c secrets roles K" and wf: "well_formed K" and run: "api_run K cs K'"
    and none: "watched c K k = None"
  shows "view c K' k = None"
proof (cases "view c K k")
  case None
  with listed_trace_others [OF trace run sees wf None none] show ?thesis by (simp add: view_None)
next
  case (Some x)
  then obtain s where s: "s \<in> set secrets" "object_key (SecretMeta s) = k"
    using sees_selected [OF sees wf] unfolding view_Some by blast
  have "orphan (roles_map roles) s"
    using orphan_key [OF sees wf s(1)] sees_watched [OF sees wf, of k] none s(2) by auto
  from listed_trace_gone [OF trace run assms(2) s(1) this] s(2) show ?thesis by (simp add: view_None)
qed

lemma listed_trace_view_own:
  assumes trace: "listed_trace c secrets roles (Ok ()) cs"
    and fair: "list_all (tolerable secrets (roles_map roles) cs) cs"
    and sees: "sees c secrets roles K" and ord: "orderly c K" and run: "api_run K cs K'"
    and r: "r \<in> set roles" "object_key (RoleMeta r) = k" and ready: "ready c K r"
    and refs: "\<And>s. secrets_in K k = Some s \<Longrightarrow> OwnerReferences (SecretMeta s) = refs"
      "secrets_in K k = None \<Longrightarrow> [owner_ref_of r] = refs"
  shows "view c K' k = Some (refs, Inr (Generation (RoleMeta r)))"
proof -
  have wf: "well_formed K" and gens: "readable c K" and free: "unobstructed c K"
    using ord by (simp_all add: orderly_def)
  have listed: "secrets_in K k = Some s" if "s \<in> set secrets" "object_key (SecretMeta s) = k" for s
    using that sees_secret(1) [OF sees wf] by simp
  have "OwnerReferences (SecretMeta s) = refs" if "secrets_in K' k = Some s" for s
  proof (rule listed_trace_owners [OF trace run sees wf _ _ _ that])
    show "[owner_ref_of q] = refs"
      if "q \<in> set roles" "object_key (RoleMeta q) = k" "\<forall>s \<in> set secrets. object_key (SecretMeta s) \<noteq> k" for q
    proof -
      have "q = r" using same_key_roles(2) [OF sees wf that(1) r(1)] that(2) r(2) by simp
      moreover have "map_key (RoleMeta r) \<notin> (\<lambda>s. map_key (SecretMeta s)) ` set secrets"
        using that(3) r(2) listed_secret [OF sees wf r(1)]
        unfolding secrets_map_None [symmetric] by (metis option.exhaust)
      ultimately show ?thesis using free_name [OF sees ord r(1)] r(2) refs(2) by simp
    qed
  qed (use listed refs(1) in blast)+
  then show ?thesis
    using listed_trace_secret [OF trace fair sees wf run ready gens timely_None(2) r(1)] r(2)
    unfolding has_secret_def view_Some up_to_date_def by auto
qed

text \<open>The key of every listed object, before and after.\<close>

lemma listed_trace_view:
  assumes trace: "listed_trace c secrets roles (Ok ()) cs"
    and fair: "list_all (tolerable secrets (roles_map roles) cs) cs"
    and sees: "sees c secrets roles K" and ord: "orderly c K" and run: "api_run K cs K'"
  shows "view c K' k = reconciled (watched c K k) (view c K k)"
proof -
  have wf: "well_formed K" and free: "unobstructed c K" using ord by (simp_all add: orderly_def)
  show ?thesis
  proof (cases "watched c K k")
    case None
    with listed_trace_view_unwatched [OF trace tolerable_deletes [OF fair] sees wf run None] show ?thesis by simp
  next
    case (Some r)
    then have r: "r \<in> set roles" "object_key (RoleMeta r) = k" using sees_watched [OF sees wf] by blast+
    note own = listed_trace_view_own [OF trace fair sees ord run r]
    show ?thesis
    proof (cases "view c K k")
      case None
      then have none: "secrets_in K k = None"
        using free Some unfolding unobstructed_def view_None by (metis not_None_eq)
      then have "ready c K r" by (simp add: ready_def r(2))
      from own [OF this] none show ?thesis by (simp add: Some None)
    next
      case x: (Some x)
      then obtain s where s: "secrets_in K k = Some s" "selected (namespace c) awsIAMRoleOwnerLabels s"
        "x = (OwnerReferences (SecretMeta s), getGeneration (Data s))" unfolding view_Some by blast
      then have listed: "s \<in> set secrets" "object_key (SecretMeta s) = k" using sees_selected [OF sees wf] by blast+
      show ?thesis
      proof (cases "owned_by r s")
        case True
        then have "ready c K r" using s(1) by (simp add: ready_def r(2))
        from own [OF this] True show ?thesis by (simp add: Some x s(1,3) owned_by_iff)
      next
        case False
        then have "orphan (roles_map roles) s"
          using orphan_key [OF sees wf listed(1)] same_key_roles(2) [OF sees wf _ r(1)] listed(2) r(2) by auto
        from listed_trace_gone [OF trace run tolerable_deletes [OF fair] listed(1) this] listed(2)
        have "view c K' k = None" by (simp add: view_None)
        with False show ?thesis by (simp add: Some x s(3) owned_by_iff)
      qed
    qed
  qed
qed

section \<open>Refreshes implement the abstract refresh\<close>

lemma kept_watched:
  assumes "kept c secrets roles K'" and "sees c secrets roles K" and "well_formed K"
  shows "reconciled (watched c K' k) x = reconciled (watched c K k) x"
proof (cases "watched c K k")
  case None
  have "watched c K' k = None"
  proof (rule ccontr)
    assume "watched c K' k \<noteq> None"
    then obtain r' where r': "roles_in K' k = Some r'" "in_namespace (namespace c) (RoleMeta r')"
      by (auto simp: watched_Some)
    with assms(1) obtain r where r: "r \<in> set roles" "same_role r r'" unfolding kept_def by blast
    have "object_key (RoleMeta r) = k"
      using r'(1) r(2) assms(1) unfolding kept_def well_formed_def by (metis keyedD(1) same_role_sel(1))
    with r(1) sees_watched [OF assms(2,3)] None show False by (metis option.distinct(1))
  qed
  with None show ?thesis by simp
next
  case (Some r)
  then have r: "r \<in> set roles" "object_key (RoleMeta r) = k" using sees_watched [OF assms(2,3)] by blast+
  with assms(1) obtain r' where r': "roles_in K' k = Some r'" "same_role r r'" unfolding kept_def by blast
  then have "in_namespace (namespace c) (RoleMeta r')"
    using Some by (simp add: watched_Some in_namespace_def same_role_sel)
  with r'(1) have "watched c K' k = Some r'" by (simp add: watched_Some)
  with Some r'(2) show ?thesis by (simp add: reconciled_same)
qed

lemma reliable_listing:
  assumes "serves_by reliable_step e v" and "orderly c (v (world s))"
    and "run_state (AWSIAMRole_refresh e c) s = (r, s')"
  obtains secrets roles ds where "r = Ok ()" "trace s' = trace s @
      CListSecrets (namespace c) awsIAMRoleOwnerLabels (Inr secrets) # CListRoles (namespace c) (Inr roles) # ds"
    "sees c secrets roles (v (world s))" "listed_trace c secrets roles (Ok ()) ds"
    "list_all (tolerable secrets (roles_map roles) ds) ds" "api_run (v (world s)) ds (v (world s'))"
proof -
  let ?K = "v (world s)" and ?K' = "v (world s')"
  from assms(1) emits_refresh assms(3) obtain cs where cs: "trace s' = trace s @ cs"
    "after_listing c (listed_trace c) r cs" "steps reliable_step ?K cs ?K'"
    by (rule refresh_run)
  from cs(2) obtain secrets roles ds where listed: "sees c secrets roles ?K"
    "listed_trace c secrets roles r ds" "steps reliable_step ?K ds ?K'"
    "cs = CListSecrets (namespace c) awsIAMRoleOwnerLabels (Inr secrets) # CListRoles (namespace c) (Inr roles) # ds"
  proof (cases rule: after_listing.cases)
    case (listed secrets roles ds)
    with cs(3) have "sees c secrets roles ?K" "steps reliable_step ?K ds ?K'"
      by (auto simp: sees_def reliable_step_def api_step_def elim!: applied_elims)
    from this(1) listed(2) this(2) listed(1) show thesis by (rule that)
  qed (use cs(3) in \<open>auto simp: reliable_step_def smooth_def\<close>)
  note fair = reliable_tolerable [OF listed(2,1) assms(2) listed(3)]
  have "\<not> panicked r ds" using fair by (auto simp: panicked_def tolerable_def smooth_def excused_def)
  then have ok: "r = Ok ()" using listed_trace_failures [OF listed(2)] by blast
  show thesis
    by (rule that [OF ok _ listed(1) _ fair steps_mono [OF listed(3) reliable_api]])
      (use cs(1) listed(2,4) ok in simp_all)
qed

lemma reliable_refresh:
  assumes "serves_by reliable_step e v" and "orderly c (v (world s))"
    and "run_state (AWSIAMRole_refresh e c) s = (r, s')"
  shows "r = Ok ()" "orderly c (v (world s'))"
    "view c (v (world s')) k = reconciled (watched c (v (world s)) k) (view c (v (world s)) k)"
    "reconciled (watched c (v (world s')) k) x = reconciled (watched c (v (world s)) k) x"
    "collected c (v (world s'))" "collected c (v (world s)) \<Longrightarrow> settles c (v (world s'))"
proof -
  let ?K = "v (world s)" and ?K' = "v (world s')"
  from assms obtain secrets roles ds where ok: "r = Ok ()" and sees: "sees c secrets roles ?K"
    and trace: "listed_trace c secrets roles (Ok ()) ds"
    and fair: "list_all (tolerable secrets (roles_map roles) ds) ds" and api: "api_run ?K ds ?K'"
    by (rule reliable_listing)
  have wf: "well_formed ?K" and gens: "readable c ?K" using assms(2) by (simp_all add: orderly_def)
  show "r = Ok ()" by (rule ok)
  have "orderly c L'" if "d \<in> set ds" "orderly c L" "api_step L d L'" for d L L'
    using orderly_change [OF listed_trace_change [OF trace that(1,3)] sees_fit [OF sees wf] that(2)] .
  with api assms(2) show "orderly c ?K'" by (rule steps_invariant)
  show "view c ?K' k = reconciled (watched c ?K k) (view c ?K k)"
    by (rule listed_trace_view [OF trace fair sees assms(2) api])
  note after = listed_trace_collects [OF trace sees wf api tolerable_deletes [OF fair]]
  from after(2) sees wf show "reconciled (watched c ?K' k) x = reconciled (watched c ?K k) x"
    by (rule kept_watched)
  show "collected c ?K'" by (rule after(1))
  show "collected c ?K \<Longrightarrow> settles c ?K'"
    by (rule listed_trace_settles [OF trace fair sees wf api _ gens])
qed


text \<open>The cluster in memory is reliable, and applies stale updates too.\<close>

lemma memory_env_reliable: "serves_by reliable_step memory_env contents"
proof -
  note serves = memory_env_serves [unfolded serves_by_def]
  show ?thesis
    unfolding serves_by_def reliable_step_def
    using serves example_credentials_ok(4)
    by (auto simp: memory_env_def put_secret_def put_status_def contents_def smooth_def split: option.splits)
qed

lemma example_store_orderly: "orderly example_controller (contents example_store)"
  unfolding orderly_def
  by (intro conjI example_store_well_formed)
    (simp_all add: readable_def unobstructed_def contents_def example_store_def NewAWSIAMRoleController_def)

lemma example_empty_orderly: "orderly example_controller (contents (example_store\<lparr>stored_secrets := []\<rparr>))"
  using orderly_delete [OF example_store_orderly, of "Key ''default'' ''app''"]
  by (simp add: contents_def example_store_def)


section \<open>Valid credentials\<close>



end
