(* ===== verification/Recovery.thy ===== *)
theory Recovery
  imports Reconciliation Process
begin

text \<open>
  The running process on a cluster that has seen trouble: whatever failed, and whatever others wrote,
  two refreshes of the role controller with a reliable server settle the cluster, and later refreshes keep it
  so.
\<close>

section \<open>Trouble\<close>

text \<open>
  Refreshes in which anything may fail, with others who write between the calls, leave the cluster
  orderly, if only the others do.
\<close>

definition leaves_orderly :: "aws_controller \<Rightarrow> (cluster \<Rightarrow> cluster \<Rightarrow> bool) \<Rightarrow> bool" where
  "leaves_orderly c R \<longleftrightarrow> (\<forall>K K'. R K K' \<and> orderly c K \<longrightarrow> orderly c K')"

lemma orderly_many: "R\<^sup>*\<^sup>* K K' \<Longrightarrow> leaves_orderly c R \<Longrightarrow> orderly c K \<Longrightarrow> orderly c K'"
  by (induction rule: rtranclp_induct) (auto simp: leaves_orderly_def)

text \<open>The secrets controller of the same process is among those who do, as nothing fills its role store.\<close>

lemma idle_controller_orderly:
  assumes "\<And>role ns. \<not> wanted sc role ns"
  shows "leaves_orderly c (secrets_controller_acts sc)"
  unfolding leaves_orderly_def
proof (intro allI impI)
  fix K K'
  assume K: "secrets_controller_acts sc K K' \<and> orderly c K"
  then obtain secrets d where d: "secrets_call sc secrets d" "api_step K d K'"
    unfolding secrets_controller_acts_def by blast
  show "orderly c K'"
  proof (cases "applied K d K'")
    case True
    have "\<not> used sc s" for s using assms Exists_wanted by blast
    from True d(1) K this show ?thesis by cases (use assms in \<open>auto simp: orderly_delete\<close>)
  qed (use K d(2) in \<open>simp add: api_step_def\<close>)
qed

lemma orderly_calls:
  assumes "list_all (role_call secrets roles) cs" and "fit c secrets roles" and "steps (shared_step R) K cs K'"
    and "leaves_orderly c R" and "orderly c K"
  shows "orderly c K'"
  using assms(3,5)
proof (rule steps_invariant)
  fix d L L'
  assume d: "d \<in> set cs" "orderly c L" "shared_step R L d L'"
  then obtain M where M: "api_step L d M" "R\<^sup>*\<^sup>* M L'" by (auto simp: shared_step_def)
  have "change secrets roles L d M"
    using M(1) d(1) assms(1) by (intro api_step_change) (auto simp: list_all_iff)
  then have "orderly c M" using assms(2) d(2) by (rule orderly_change)
  with M(2) assms(4) show "orderly c L'" by (rule orderly_many)
qed

lemma orderly_list:
  assumes "shared_step R L d M" and "\<And>K. \<not> applied L d K" and "leaves_orderly c R" and "orderly c L"
  shows "orderly c M \<and> answers L d"
proof -
  have "answers L d" "R\<^sup>*\<^sup>* L M"
    using assms(1,2) by (auto simp: shared_step_def api_step_def)
  from this(1) orderly_many [OF this(2) assms(3,4)] show ?thesis by simp
qed

lemma listed_fit:
  assumes "enumerates secrets (satisfying (selected (namespace c) awsIAMRoleOwnerLabels) (secrets_in K))"
    and "enumerates roles (satisfying (\<lambda>r. in_namespace (namespace c) (RoleMeta r)) (roles_in L))"
    and "well_formed L"
  shows "fit c secrets roles"
proof -
  have "keyed RoleMeta (satisfying (\<lambda>r. in_namespace (namespace c) (RoleMeta r)) (roles_in L))"
    using assms(3) by (simp add: well_formed_def keyed_satisfying)
  note slash = enumerated(2) [OF assms(2) this]
  show ?thesis
    using slash enumerates_set [OF assms(1)] enumerates_set [OF assms(2)]
    by (auto simp: fit_def satisfying_Some selected_def)
qed

lemma troubled_refresh:
  assumes "serves_by (shared_step R) e v" and "leaves_orderly c R"
    and "orderly c (v (world s))" and "run_state (AWSIAMRole_refresh e c) s = (r, s')"
  shows "orderly c (v (world s'))"
proof -
  have "emits (after_listing c (\<lambda>secrets roles r cs. list_all (role_call secrets roles) cs)) (AWSIAMRole_refresh e c)"
    by (rule emits_refresh) (rule listed_trace_role_call)
  from assms(1) this assms(4) obtain cs where cs:
    "after_listing c (\<lambda>secrets roles r cs. list_all (role_call secrets roles) cs) r cs"
    "steps (shared_step R) (v (world s)) cs (v (world s'))"
    by (rule refresh_run)
  have secrets: "orderly c M \<and> answers L (CListSecrets ns sel l)"
    if "shared_step R L (CListSecrets ns sel l) M" "orderly c L" for L M ns sel l
    by (rule orderly_list [OF that(1) _ assms(2) that(2)]) (auto elim: applied_elims)
  have roles: "orderly c M \<and> answers L (CListRoles ns l)"
    if "shared_step R L (CListRoles ns l) M" "orderly c L" for L M ns l
    by (rule orderly_list [OF that(1) _ assms(2) that(2)]) (auto elim: applied_elims)
  from cs(1) show ?thesis
  proof (cases rule: after_listing.cases)
    case (no_secrets err)
    with cs(2) have "shared_step R (v (world s)) (CListSecrets (namespace c) awsIAMRoleOwnerLabels (Inl err)) (v (world s'))"
      by simp
    with secrets assms(3) show ?thesis by blast
  next
    case (no_roles err ss)
    with cs(2) obtain L where "shared_step R (v (world s)) (CListSecrets (namespace c) awsIAMRoleOwnerLabels (Inr ss)) L"
      "shared_step R L (CListRoles (namespace c) (Inl err)) (v (world s'))" by auto
    with secrets roles assms(3) show ?thesis by blast
  next
    case (listed ss rs ds)
    with cs(2) obtain L M where L: "shared_step R (v (world s)) (CListSecrets (namespace c) awsIAMRoleOwnerLabels (Inr ss)) L"
      "shared_step R L (CListRoles (namespace c) (Inr rs)) M" "steps (shared_step R) M ds (v (world s'))"
      by auto
    note first = secrets [OF L(1) assms(3)]
    then have second: "orderly c M \<and> answers L (CListRoles (namespace c) (Inr rs))"
      using roles [OF L(2)] by blast
    have "fit c ss rs"
      by (rule listed_fit [of _ _ "v (world s)" _ L]) (use first second in \<open>simp_all add: orderly_def\<close>)
    moreover have "orderly c M" using second by blast
    ultimately show ?thesis
      using orderly_calls [OF listed(2) _ L(3) assms(2)] by blast
  qed
qed

section \<open>The process recovers\<close>

text \<open>With the server up the process touches the cluster in role refreshes only.\<close>

lemma serving_step:
  assumes "step e ac sc p ev q" and "main_phase p = Serving" and "server_up [ev]"
  obtains (silent) "env_state q = env_state p" "role_refresh_time ev = []" "main_phase q = Serving" "status q = status p"
  | (refresh) r s' where "run_state (AWSIAMRole_refresh e ac) (env_state p) = (r, s')" "env_state q = s'"
      "role_refresh_time ev = [clock p]" "main_phase q = Serving" "status q = after_refresh r"
  using assms by (auto elim!: step_elims simp: server_up_def)

lemma troubled_run:
  assumes "run e ac sc p evs q" and "serves_by (shared_step R) e v"
    and "leaves_orderly ac R" and "orderly ac (v (world (env_state p)))"
    and "main_phase p = Serving" and "server_up evs"
  shows "orderly ac (v (world (env_state q))) \<and> main_phase q = Serving"
  using assms(1,6)
proof induction
  case start
  then show ?case using assms(4,5) by simp
next
  case (more evs q ev q')
  then have q: "orderly ac (v (world (env_state q)))" "main_phase q = Serving" and up: "server_up [ev]" by simp_all
  from more.hyps(2) q(2) up show ?case
  proof (cases rule: serving_step)
    case (refresh r s')
    with troubled_refresh [OF assms(2,3) q(1) refresh(1)] show ?thesis by simp
  qed (use q in simp)
qed

text \<open>How far a run of reliable refreshes has got.\<close>

definition progress :: "aws_controller \<Rightarrow> nat \<Rightarrow> cluster \<Rightarrow> bool" where
  "progress c n K \<longleftrightarrow> orderly c K \<and> (1 \<le> n \<longrightarrow> collected c K) \<and> (2 \<le> n \<longrightarrow> settles c K)"

lemma reliable_run:
  assumes "run e ac sc p evs q" and "serves_by reliable_step e v" and "orderly ac (v (world (env_state p)))"
    and "main_phase p = Serving" and "status p = Running" and "server_up evs"
  shows "progress ac (length (role_refreshes evs)) (v (world (env_state q))) \<and> main_phase q = Serving \<and> status q = Running"
  using assms(1,6)
proof induction
  case start
  then show ?case using assms(3-5) by (simp add: progress_def role_refreshes_def)
next
  case (more evs q ev q')
  then have q: "progress ac (length (role_refreshes evs)) (v (world (env_state q)))" "main_phase q = Serving"
      "status q = Running" and up: "server_up [ev]" by simp_all
  from more.hyps(2) q(2) up show ?case
  proof (cases rule: serving_step)
    case (refresh r s')
    have ord: "orderly ac (v (world (env_state q)))" using q(1) by (simp add: progress_def)
    note after = reliable_refresh [OF assms(2) ord refresh(1)]
    from after(1,2,5,6) q(1) refresh show ?thesis
      by (auto simp: progress_def after_refresh_def)
  qed (use q in simp)
qed

text \<open>Two refreshes take one interval.\<close>

lemma two_refreshes_possible:
  assumes "serves_by reliable_step e v" and "orderly ac (v (world (env_state p)))"
    and "main_phase p = Serving" and "status p = Running" and "role_loop p = Refreshing"
  shows "\<exists>evs q. run e ac sc p evs q \<and> server_up evs \<and> length (role_refreshes evs) = 2
    \<and> clock q = clock p + max 0 (sint (interval ac))"
proof -
  let ?i = "max 0 (sint (interval ac))"
  obtain r s' where first: "run_state (AWSIAMRole_refresh e ac) (env_state p) = (r, s')" by fastforce
  then have r: "r = Ok ()" by (rule reliable_refresh(1) [OF assms(1,2)])
  obtain r' s'' where second: "run_state (AWSIAMRole_refresh e ac) s' = (r', s'')" by fastforce
  let ?p1 = "p\<lparr>env_state := s', role_loop := Waiting (clock p + sint (interval ac)), status := Running\<rparr>"
  let ?p2 = "?p1\<lparr>clock := clock ?p1 + ?i\<rparr>"
  let ?p3 = "?p2\<lparr>role_loop := Refreshing\<rparr>"
  let ?p4 = "?p3\<lparr>env_state := s'', role_loop := Waiting (clock ?p3 + sint (interval ac)), status := after_refresh r'\<rparr>"
  have "step e ac sc p (RoleRefresh (clock p)) ?p1"
    using role_step.role_refresh [OF assms(5) first] by (intro step.role assms(4)) (simp add: r after_refresh_def)
  with run.start have "run e ac sc p ([] @ [RoleRefresh (clock p)]) ?p1" by (rule run.more)
  moreover have "step e ac sc ?p1 (Elapse ?i) ?p2"
    by (intro step.environment environment_step.elapse) simp_all
  ultimately have "run e ac sc p (([] @ [RoleRefresh (clock p)]) @ [Elapse ?i]) ?p2" by (rule run.more)
  moreover have "step e ac sc ?p2 RoleWake ?p3"
    by (intro step.role role_step.role_wake [where t = "clock p + sint (interval ac)"]) simp_all
  ultimately have "run e ac sc p ((([] @ [RoleRefresh (clock p)]) @ [Elapse ?i]) @ [RoleWake]) ?p3" by (rule run.more)
  moreover have "step e ac sc ?p3 (RoleRefresh (clock ?p3)) ?p4"
    by (intro step.role role_step.role_refresh) (simp_all add: second)
  ultimately have "run e ac sc p (((([] @ [RoleRefresh (clock p)]) @ [Elapse ?i]) @ [RoleWake]) @ [RoleRefresh (clock ?p3)]) ?p4"
    by (rule run.more)
  then show ?thesis
    by (intro exI conjI, assumption) (simp_all add: server_up_def role_refreshes_def)
qed

text \<open>
  C2: The deployment recovers.  Start from an orderly cluster, and let the process run for as long as one
  likes with an API server and a credentials service of which anything may fail, while others write to
  the cluster between any two calls, if only they leave it orderly: they garble the generation of no
  secret with the owner labels, and bring no secret without these labels and no watched role
  under the same name; then let the process run on, or be restarted by a probe or after a crash, with a
  server and roles that are reliable and with nobody else writing.  Its HTTP server is up all the while.
  In every such run in which the role controller refreshes twice the process does not crash and the
  cluster ends up settled: every role has a secret of its generation and has observed it, and no secret
  is without its owner.
\<close>

theorem deployment_recovers:
  assumes "serves_by (shared_step R) e v" and "leaves_orderly ac R"
    and "orderly ac (v (world (env_state p)))" and "main_phase p = Serving"
    and "run e ac sc p evs q" and "server_up evs"
    and "serves_by reliable_step e' v" and "world (env_state p') = world (env_state q)"
    and "main_phase p' = Serving" and "status p' = Running"
    and "run e' ac sc p' evs' q'" and "server_up evs'" and "2 \<le> length (role_refreshes evs')"
  shows "status q' = Running \<and> settles ac (v (world (env_state q')))"
proof -
  have "orderly ac (v (world (env_state p')))"
    using troubled_run [OF assms(5,1-4,6)] assms(8) by simp
  from reliable_run [OF assms(11,7) this assms(9,10,12)] assms(13) show ?thesis
    by (simp add: progress_def)
qed

text \<open>
  Others delete secrets, no role can be assumed at first, and the process is restarted after a refresh
  that could only warn.
\<close>

definition example_down :: "store env" where
  "example_down = memory_env\<lparr>GetCreds := (\<lambda>ref d w. (Err ''the role cannot be assumed'', w))\<rparr>"

definition deletes_secrets :: "cluster \<Rightarrow> cluster \<Rightarrow> bool" where
  "deletes_secrets K K' \<longleftrightarrow> (\<exists>k. K' = K\<lparr>secrets_in := (secrets_in K)(k := None)\<rparr>)"

lemma deletes_secrets_orderly: "leaves_orderly c deletes_secrets"
  by (auto simp: leaves_orderly_def deletes_secrets_def orderly_delete)

lemma example_down_serves: "serves example_down contents"
  using memory_env_serves by (simp add: serves_by_def example_down_def api_step_def)

theorem deployment_recovers_witness:
  "\<exists>q evs' q'. run example_down example_controller example_sc
        (started example_sc \<lparr>world = example_store, trace = []\<rparr> 0) [RoleRefresh 0] q
    \<and> run memory_env example_controller example_sc (started example_sc (env_state q) 1) evs' q'
    \<and> clock q' = 1 \<and> status q' = Running \<and> settles example_controller (contents (world (env_state q')))"
proof -
  let ?c = example_controller and ?p = "started example_sc \<lparr>world = example_store, trace = []\<rparr> 0"
  obtain r s' where refresh: "run_state (AWSIAMRole_refresh example_down ?c) (env_state ?p) = (r, s')" by fastforce
  let ?q = "?p\<lparr>env_state := s', role_loop := Waiting (clock ?p + sint (interval ?c)), status := after_refresh r\<rparr>"
  have "step example_down ?c example_sc ?p (RoleRefresh (clock ?p)) ?q"
    by (intro step.role role_step.role_refresh refresh) (simp_all add: started_def)
  from run.more [OF run.start this] have run: "run example_down ?c example_sc ?p [RoleRefresh 0] ?q"
    by (simp add: started_def)
  have ord: "orderly ?c (contents (world (env_state ?p)))"
    using example_store_orderly by (simp add: started_def)
  note shared = serves_shared [OF example_down_serves, of deletes_secrets]
  let ?p' = "started example_sc (env_state ?q) 1"
  have "orderly ?c (contents (world (env_state ?p')))"
    using troubled_run [OF run shared deletes_secrets_orderly ord] by (simp add: started_def server_up_def)
  moreover have "main_phase ?p' = Serving" "status ?p' = Running" "role_loop ?p' = Refreshing"
    by (simp_all add: started_def)
  ultimately obtain evs' q' where
    run': "run memory_env ?c example_sc ?p' evs' q'" and evs': "server_up evs'" "length (role_refreshes evs') = 2"
      and "clock q' = clock ?p' + max 0 (sint (interval ?c))"
    using two_refreshes_possible [OF memory_env_reliable, of ?c ?p' example_sc] by blast
  then have clock: "clock q' = 1" by (simp add: started_def NewAWSIAMRoleController_def)
  have "status q' = Running \<and> settles ?c (contents (world (env_state q')))"
    by (rule deployment_recovers [OF shared deletes_secrets_orderly ord _ run _ memory_env_reliable _ _ _ run' evs'(1)])
      (simp_all add: started_def server_up_def evs'(2))
  with run run' clock show ?thesis by blast
qed

end
