(* ===== verification/CallBounds.thy ===== *)
theory CallBounds
  imports AWSIAMRoleRefresh SecretsRefresh
begin

text \<open>
  Every refresh ends: its loops range over the lists that it gets and over the role store, and every
  turn makes a bounded number of calls, whatever they answer.
\<close>

section \<open>Counting calls\<close>

primrec requests_creds :: "call \<Rightarrow> bool" where
  "requests_creds (CNow t) = False"
| "requests_creds (CGetCreds r d g) = True"
| "requests_creds (CListSecrets ns sel l) = False"
| "requests_creds (CListRoles ns l) = False"
| "requests_creds (CUpdateSecret ns s res) = False"
| "requests_creds (CCreateSecret ns s res) = False"
| "requests_creds (CDeleteSecret ns n res) = False"
| "requests_creds (CUpdateStatus ns r res) = False"
| "requests_creds (CEvent r t reason m) = False"

text \<open>At most \<open>n\<close> calls, at most \<open>k\<close> of them requests for credentials.\<close>

definition at_most :: "nat \<Rightarrow> nat \<Rightarrow> call list \<Rightarrow> bool" where
  "at_most n k cs \<longleftrightarrow> length cs \<le> n \<and> length (filter requests_creds cs) \<le> k"

lemma at_most_append: "at_most n k cs \<Longrightarrow> at_most m j ds \<Longrightarrow> at_most (n + m) (k + j) (cs @ ds)"
  by (simp add: at_most_def)

lemma at_most_mono: "at_most n k cs \<Longrightarrow> n \<le> m \<Longrightarrow> k \<le> j \<Longrightarrow> at_most m j cs"
  by (simp add: at_most_def)

lemma loop_trace_at_most:
  assumes "loop_trace B xs a r cs"
    and "\<And>x a r cs. x \<in> set xs \<Longrightarrow> B x a r cs \<Longrightarrow> at_most (f x) (g x) cs"
  shows "at_most (sum_list (map f xs)) (sum_list (map g xs)) cs"
  using assms
proof (induction)
  case (again x a a' cs xs r ds)
  then have "at_most (f x) (g x) cs" "at_most (sum_list (map f xs)) (sum_list (map g xs)) ds"
    by simp_all
  then show ?case by (simp add: at_most_append)
next
  case (returned x a e cs xs)
  then have "at_most (f x) (g x) cs" by simp
  then show ?case by (rule at_most_mono) simp_all
next
  case (crashed x a m cs xs)
  then have "at_most (f x) (g x) cs" by simp
  then show ?case by (rule at_most_mono) simp_all
qed (simp add: at_most_def)

lemma due_trace_at_most: "due_trace lim d b cs \<Longrightarrow> at_most 1 0 cs"
  by (auto dest!: due_trace_cases simp: at_most_def)

section \<open>The refresh of the AWSIAMRole controller\<close>

lemma sync_trace_at_most: "sync_trace r s cs \<Longrightarrow> at_most 1 0 cs"
  by (auto elim!: sync_traceE simp: at_most_def)

lemma owned_trace_at_most:
  assumes "owned_trace lim rm s os r cs"
  shows "at_most (if orphan rm s then 0 else 5) (if orphan rm s then 0 else 1) cs"
  using assms
  by (cases rule: owned_trace.cases) (auto dest!: due_trace_at_most simp: at_most_def)

lemma reconcile_trace_at_most: "reconcile_trace sm r res cs \<Longrightarrow> at_most 4 1 cs"
  by (cases rule: reconcile_trace.cases) (auto dest!: sync_trace_at_most simp: at_most_def)

lemma sum_list_orphans:
  "sum_list (map (\<lambda>s. if P s then 0 else n) xs) + n * length (filter P xs) = n * length xs"
  by (induction xs) (simp_all add: algebra_simps)

lemma listed_trace_at_most:
  assumes "listed_trace c secrets roles r cs"
  shows "at_most (5 * length secrets + 4 * length roles) (length secrets + length roles) cs"
proof -
  let ?o = "orphan (roles_map roles)"
  have sums: "sum_list (map (\<lambda>s. if ?o s then 0 else 5) secrets) + length (filter ?o secrets) \<le> 5 * length secrets"
    "sum_list (map (\<lambda>s. if ?o s then 0 else 1) secrets) \<le> length secrets"
    using sum_list_orphans [of ?o 5 secrets] sum_list_orphans [of ?o 1 secrets] by linarith+
  have first: "at_most (sum_list (map (\<lambda>s. if ?o s then 0 else 5) secrets))
      (sum_list (map (\<lambda>s. if ?o s then 0 else 1) secrets)) cs"
    if "loop_trace (owned_trace (refreshLimit c) (roles_map roles)) secrets os r cs" for os r cs
    using that by (rule loop_trace_at_most) (rule owned_trace_at_most)
  from assms show ?thesis
  proof (cases rule: listed_trace_cases)
    case (crashed m)
    from first [OF crashed(2)] sums show ?thesis by (auto elim!: at_most_mono)
  next
    case (finished cs1 cs2 cs3)
    have "at_most (sum_list (map (\<lambda>s. 1) (filter ?o secrets))) (sum_list (map (\<lambda>s. 0) (filter ?o secrets))) cs2"
      using finished(3) by (rule loop_trace_at_most) (auto simp: deleted_trace_def at_most_def)
    moreover have "at_most (sum_list (map (\<lambda>r. 4) roles)) (sum_list (map (\<lambda>r. 1) roles)) cs3"
      using finished(4) by (rule loop_trace_at_most) (rule reconcile_trace_at_most)
    moreover note first [OF finished(2)]
    ultimately show ?thesis
      using sums by (simp add: finished(1) at_most_def sum_list_triv)
  qed
qed

section \<open>The refresh of the secrets controller\<close>

lemma unowned_trace_at_most: "unowned_trace c s st r cs \<Longrightarrow> at_most 3 1 cs"
  by (cases rule: unowned_trace.cases) (auto dest!: due_trace_at_most simp: at_most_def)

lemma create_loop_at_most:
  assumes "loop_trace (create_trace tmp role creds) nss u r cs"
  shows "at_most (length nss) 0 cs"
proof -
  have "at_most (sum_list (map (\<lambda>_. 1) nss)) (sum_list (map (\<lambda>_. 0) nss)) cs"
    using assms by (rule loop_trace_at_most) (auto simp: create_trace_def at_most_def split: if_splits)
  then show ?thesis by (simp add: sum_list_triv)
qed

lemma used_trace_at_most: "used_trace cache tmp entry r cs \<Longrightarrow> at_most (Suc (length (snd entry))) 1 cs"
  by (cases rule: used_trace.cases) (auto dest!: create_loop_at_most simp: at_most_def)

text \<open>The entries of the role store: one for each role and one for each of its namespaces.\<close>

definition store_entries :: "role_store \<Rightarrow> nat" where
  "store_entries st = sum_list (map (\<lambda>(role, nss). Suc (length nss)) (Store st))"

lemma Secrets_listed_trace_at_most:
  assumes "Secrets_listed_trace c secrets r cs"
  shows "at_most (3 * length secrets + store_entries (roleStore c))
    (length secrets + length (Store (roleStore c))) cs"
proof -
  have first: "at_most (3 * length secrets) (length secrets) cs"
    if "loop_trace (unowned_trace c) secrets st r cs" for st r cs
  proof -
    have "at_most (sum_list (map (\<lambda>_. 3) secrets)) (sum_list (map (\<lambda>_. 1) secrets)) cs"
      using that by (rule loop_trace_at_most) (rule unowned_trace_at_most)
    then show ?thesis by (simp add: sum_list_triv mult.commute)
  qed
  from assms show ?thesis
  proof (cases rule: Secrets_listed_trace_cases)
    case (crashed m)
    from first [OF crashed(2)] show ?thesis by (rule at_most_mono) simp_all
  next
    case (finished cache tmp cs1 cs2)
    have "at_most (sum_list (map (\<lambda>(role, nss). Suc (length nss)) (Store (roleStore c))))
        (sum_list (map (\<lambda>_. 1) (Store (roleStore c)))) cs2"
      using finished(4) by (rule loop_trace_at_most) (auto dest!: used_trace_at_most)
    with first [OF finished(2)] show ?thesis
      by (simp add: finished(1) at_most_append store_entries_def sum_list_triv)
  qed
qed

text \<open>
  C17: Every refresh ends, within bounds that its lists set, whatever the calls answer.  After its lists
  a refresh of the role controller makes at most five calls for each listed secret and four for each
  listed role, and asks AWS at most once for each of them; one of the secrets controller makes at most
  three calls for each listed secret and one for each role and each namespace of a role in the store,
  and asks at most once for each listed secret and each role.
\<close>

theorem refreshes_end:
  "emits (after_listing c (\<lambda>secrets roles r cs.
      at_most (5 * length secrets + 4 * length roles) (length secrets + length roles) cs))
    (AWSIAMRole_refresh e c)
  \<and> emits (after_secrets d (\<lambda>secrets r cs. at_most (3 * length secrets + store_entries (roleStore d))
      (length secrets + length (Store (roleStore d))) cs))
    (Secrets_refresh e d)"
  by (intro conjI emits_refresh emits_Secrets_refresh listed_trace_at_most Secrets_listed_trace_at_most)

end
