(* ===== verification/Informers.thy ===== *)
theory Informers
  imports ApiTypes
begin

text \<open>
  The generated informer factory under \<^verbatim>\<open>pkg/client/informers\<close>: \<^verbatim>\<open>externalversions/factory.go\<close>,
  \<^verbatim>\<open>generic.go\<close> and the accessors down to the informer of \<open>AWSIAMRole\<close>.  The informers themselves
  belong to client-go and are a parameter (\<open>informer_lib\<close>); the types of Go are named by strings, as
  \<open>reflect.Type\<close> prints them.  The factory's lock makes each method one step of the transition
  system \<open>factory_step\<close>, in which the goroutines that \<open>Start\<close> spawns end on their own.
\<close>

section \<open>The library\<close>

record list_options =
  LabelSelector :: string
  FieldSelector :: string

type_synonym tweak_list_options = "list_options \<Rightarrow> list_options"

text \<open>
  The requests that the functions of a list-watcher make of the clientset they were given; contexts
  that callers pass are told apart by numbers.
\<close>

datatype go_context = Background | Passed nat

datatype 'c role_request =
  ListAWSIAMRoles 'c string go_context list_options
| WatchAWSIAMRoles 'c string go_context list_options

record 'c list_watch =
  ListFunc :: "list_options \<Rightarrow> 'c role_request"
  WatchFunc :: "list_options \<Rightarrow> 'c role_request"
  ListWithContextFunc :: "go_context \<Rightarrow> list_options \<Rightarrow> 'c role_request"
  WatchFuncWithContext :: "go_context \<Rightarrow> list_options \<Rightarrow> 'c role_request"

record group_version_resource =
  gvrGroup :: string
  gvrVersion :: string
  gvrResource :: string

text \<open>
  What the code uses of client-go: \<open>'i\<close> are the informers, \<open>'t\<close> transform functions, \<open>'h\<close> the state
  of the library.  \<open>NewSharedIndexInformer\<close> takes the list-watcher and the clientset from which the
  code makes the lister-watcher it passes on.
\<close>

record ('c, 'i, 't, 'h) informer_lib =
  NewSharedIndexInformer :: "'c list_watch \<Rightarrow> 'c \<Rightarrow> string \<Rightarrow> int64 \<Rightarrow> string list \<Rightarrow> 'h \<Rightarrow> 'i \<times> 'h"
  SetTransform :: "'i \<Rightarrow> 't option \<Rightarrow> 'h \<Rightarrow> 'h"
  CacheSynced :: "'i \<Rightarrow> 'h \<Rightarrow> bool \<times> 'h"
  GVRString :: "group_version_resource \<Rightarrow> string"

type_synonym ('c, 'i, 'h) new_informer_func = "'c \<Rightarrow> int64 \<Rightarrow> 'h \<Rightarrow> 'i \<times> 'h"

section \<open>The factory and its options\<close>

text \<open>
  The informers are an association list, in the order in which Go ranges over the map.  \<open>goroutines\<close>
  are those that \<open>Start\<close> has spawned and that have not ended, with their type, informer and stop
  channel.
\<close>

record ('c, 'i, 't, 's) factory =
  client :: 'c
  facNamespace :: string
  tweakListOptions :: "tweak_list_options option"
  defaultResync :: int64
  customResync :: "string \<rightharpoonup> int64"
  transform :: "'t option"
  informers :: "(string \<times> 'i) list"
  startedInformers :: "string \<rightharpoonup> bool"
  wg :: nat
  shuttingDown :: bool
  goroutines :: "(string \<times> 'i \<times> 's) list"

type_synonym ('c, 'i, 't, 's) informer_option = "('c, 'i, 't, 's) factory \<Rightarrow> ('c, 'i, 't, 's) factory"

definition WithCustomResyncConfig :: "(string \<times> int64) list \<Rightarrow> ('c, 'i, 't, 's) informer_option" where
  "WithCustomResyncConfig resyncConfig f =
     f\<lparr>customResync := fold (\<lambda>(k, v) m. m(k \<mapsto> v)) resyncConfig (customResync f)\<rparr>"

definition WithTweakListOptions :: "tweak_list_options option \<Rightarrow> ('c, 'i, 't, 's) informer_option" where
  "WithTweakListOptions tweak f = f\<lparr>tweakListOptions := tweak\<rparr>"

definition WithNamespace :: "string \<Rightarrow> ('c, 'i, 't, 's) informer_option" where
  "WithNamespace ns f = f\<lparr>facNamespace := ns\<rparr>"

definition WithTransform :: "'t option \<Rightarrow> ('c, 'i, 't, 's) informer_option" where
  "WithTransform t f = f\<lparr>transform := t\<rparr>"

definition NewSharedInformerFactoryWithOptions ::
    "'c \<Rightarrow> int64 \<Rightarrow> ('c, 'i, 't, 's) informer_option list \<Rightarrow> ('c, 'i, 't, 's) factory" where
  "NewSharedInformerFactoryWithOptions c resync options =
     fold (\<lambda>opt f. opt f) options
       \<lparr>client = c, facNamespace = [], tweakListOptions = None, defaultResync = resync,
        customResync = Map.empty, transform = None, informers = [], startedInformers = Map.empty,
        wg = 0, shuttingDown = False, goroutines = []\<rparr>"

definition NewSharedInformerFactory :: "'c \<Rightarrow> int64 \<Rightarrow> ('c, 'i, 't, 's) factory" where
  "NewSharedInformerFactory c resync = NewSharedInformerFactoryWithOptions c resync []"

definition NewFilteredSharedInformerFactory ::
    "'c \<Rightarrow> int64 \<Rightarrow> string \<Rightarrow> tweak_list_options option \<Rightarrow> ('c, 'i, 't, 's) factory" where
  "NewFilteredSharedInformerFactory c resync ns tweak =
     NewSharedInformerFactoryWithOptions c resync [WithNamespace ns, WithTweakListOptions tweak]"

section \<open>The methods of the factory\<close>

definition is_started :: "('c, 'i, 't, 's) factory \<Rightarrow> string \<Rightarrow> bool" where
  "is_started f ty = (case startedInformers f ty of None \<Rightarrow> False | Some b \<Rightarrow> b)"

definition start_informer :: "'s \<Rightarrow> string \<times> 'i \<Rightarrow> ('c, 'i, 't, 's) factory \<Rightarrow> ('c, 'i, 't, 's) factory" where
  "start_informer stopCh entry f =
     (if \<not> is_started f (fst entry)
      then f\<lparr>wg := wg f + 1, goroutines := goroutines f @ [(fst entry, snd entry, stopCh)],
             startedInformers := (startedInformers f)(fst entry \<mapsto> True)\<rparr>
      else f)"

definition Start :: "'s \<Rightarrow> ('c, 'i, 't, 's) factory \<Rightarrow> ('c, 'i, 't, 's) factory" where
  "Start stopCh f = (if shuttingDown f then f else fold (start_informer stopCh) (informers f) f)"

text \<open>\<open>Shutdown\<close> under the lock; then it waits until \<open>wg\<close> is zero.\<close>

definition Shutdown_begin :: "('c, 'i, 't, 's) factory \<Rightarrow> ('c, 'i, 't, 's) factory" where
  "Shutdown_begin f = f\<lparr>shuttingDown := True\<rparr>"

definition synced_informers :: "('c, 'i, 't, 's) factory \<Rightarrow> (string \<times> 'i) list" where
  "synced_informers f = filter (\<lambda>entry. is_started f (fst entry)) (informers f)"

definition WaitForCacheSync ::
    "('c, 'i, 't, 'h) informer_lib \<Rightarrow> ('c, 'i, 't, 's) factory \<Rightarrow> 'h \<Rightarrow> (string \<rightharpoonup> bool) \<times> 'h" where
  "WaitForCacheSync lib f h =
     fold (\<lambda>(ty, i) (res, h). let (b, h') = CacheSynced lib i h in (res(ty \<mapsto> b), h'))
       (synced_informers f) (Map.empty, h)"

definition resync_period :: "('c, 'i, 't, 's) factory \<Rightarrow> string \<Rightarrow> int64" where
  "resync_period f ty = (case customResync f ty of Some d \<Rightarrow> d | None \<Rightarrow> defaultResync f)"

definition InformerFor :: "('c, 'i, 't, 'h) informer_lib \<Rightarrow> string \<Rightarrow> ('c, 'i, 'h) new_informer_func
    \<Rightarrow> ('c, 'i, 't, 's) factory \<Rightarrow> 'h \<Rightarrow> 'i \<times> ('c, 'i, 't, 's) factory \<times> 'h" where
  "InformerFor lib ty newFunc f h =
     (case map_of (informers f) ty of
        Some i \<Rightarrow> (i, f, h)
      | None \<Rightarrow>
          (case newFunc (client f) (resync_period f ty) h of
             (i, h') \<Rightarrow> (i, f\<lparr>informers := informers f @ [(ty, i)]\<rparr>, SetTransform lib i (transform f) h')))"

section \<open>The informer of AWSIAMRole\<close>

definition tweaked :: "tweak_list_options option \<Rightarrow> list_options \<Rightarrow> list_options" where
  "tweaked tweak options = (case tweak of None \<Rightarrow> options | Some t \<Rightarrow> t options)"

definition NewFilteredAWSIAMRoleInformer :: "('c, 'i, 't, 'h) informer_lib \<Rightarrow> 'c \<Rightarrow> string \<Rightarrow> int64
    \<Rightarrow> string list \<Rightarrow> tweak_list_options option \<Rightarrow> 'h \<Rightarrow> 'i \<times> 'h" where
  "NewFilteredAWSIAMRoleInformer lib c ns resync indexers tweak =
     NewSharedIndexInformer lib
       \<lparr>ListFunc = (\<lambda>options. ListAWSIAMRoles c ns Background (tweaked tweak options)),
        WatchFunc = (\<lambda>options. WatchAWSIAMRoles c ns Background (tweaked tweak options)),
        ListWithContextFunc = (\<lambda>ctx options. ListAWSIAMRoles c ns ctx (tweaked tweak options)),
        WatchFuncWithContext = (\<lambda>ctx options. WatchAWSIAMRoles c ns ctx (tweaked tweak options))\<rparr>
       c ''*v1.AWSIAMRole'' resync indexers"

definition NewAWSIAMRoleInformer :: "('c, 'i, 't, 'h) informer_lib \<Rightarrow> 'c \<Rightarrow> string \<Rightarrow> int64
    \<Rightarrow> string list \<Rightarrow> 'h \<Rightarrow> 'i \<times> 'h" where
  "NewAWSIAMRoleInformer lib c ns resync indexers =
     NewFilteredAWSIAMRoleInformer lib c ns resync indexers None"

text \<open>
  \<open>group\<close>, \<open>version\<close> and \<open>aWSIAMRoleInformer\<close> carry the same fields: the factory, which is the one
  they are used with here, a namespace and the tweak of the list options.
\<close>

record accessor =
  accNamespace :: string
  accTweak :: "tweak_list_options option"

definition group_New :: "string \<Rightarrow> tweak_list_options option \<Rightarrow> accessor" where
  "group_New ns tweak = \<lparr>accNamespace = ns, accTweak = tweak\<rparr>"

definition version_New :: "string \<Rightarrow> tweak_list_options option \<Rightarrow> accessor" where
  "version_New ns tweak = \<lparr>accNamespace = ns, accTweak = tweak\<rparr>"

definition Zalando :: "('c, 'i, 't, 's) factory \<Rightarrow> accessor" where
  "Zalando f = group_New (facNamespace f) (tweakListOptions f)"

definition V1 :: "accessor \<Rightarrow> accessor" where
  "V1 g = version_New (accNamespace g) (accTweak g)"

definition AWSIAMRoles :: "accessor \<Rightarrow> accessor" where
  "AWSIAMRoles v = \<lparr>accNamespace = accNamespace v, accTweak = accTweak v\<rparr>"

definition defaultInformer :: "('c, 'i, 't, 'h) informer_lib \<Rightarrow> accessor \<Rightarrow> ('c, 'i, 'h) new_informer_func" where
  "defaultInformer lib a c resync =
     NewFilteredAWSIAMRoleInformer lib c (accNamespace a) resync [''namespace''] (accTweak a)"

definition AWSIAMRole_Informer :: "('c, 'i, 't, 'h) informer_lib \<Rightarrow> accessor
    \<Rightarrow> ('c, 'i, 't, 's) factory \<Rightarrow> 'h \<Rightarrow> 'i \<times> ('c, 'i, 't, 's) factory \<times> 'h" where
  "AWSIAMRole_Informer lib a = InformerFor lib ''*v1.AWSIAMRole'' (defaultInformer lib a)"

definition awsiamroles_resource :: group_version_resource where
  "awsiamroles_resource =
     \<lparr>gvrGroup = ''zalando.org'', gvrVersion = ''v1'', gvrResource = ''awsiamroles''\<rparr>"

text \<open>A generic informer; its resource is a group and a name.\<close>

record 'i generic_informer =
  giInformer :: 'i
  giResource :: "string \<times> string"

definition ForResource :: "('c, 'i, 't, 'h) informer_lib \<Rightarrow> group_version_resource
    \<Rightarrow> ('c, 'i, 't, 's) factory \<Rightarrow> 'h \<Rightarrow> (error + 'i generic_informer) \<times> ('c, 'i, 't, 's) factory \<times> 'h" where
  "ForResource lib resource f h =
     (if resource = awsiamroles_resource
      then case AWSIAMRole_Informer lib (AWSIAMRoles (V1 (Zalando f))) f h of (i, f', h') \<Rightarrow>
        (Inr \<lparr>giInformer = i, giResource = (gvrGroup resource, gvrResource resource)\<rparr>, f', h')
      else (Inl (''no informer found for '' @ GVRString lib resource), f, h))"

lemmas option_defs = WithCustomResyncConfig_def WithTweakListOptions_def WithNamespace_def WithTransform_def

section \<open>The factory in use\<close>

text \<open>
  Callers of the methods and the goroutines interleave.  \<open>waiting\<close> counts the calls of \<open>Shutdown\<close>
  that wait for the goroutines, \<open>returned\<close> those that have returned; \<open>spawned\<close> is the history of
  the goroutines, by type.
\<close>

record ('c, 'i, 't, 's, 'h) factory_state =
  fac :: "('c, 'i, 't, 's) factory"
  lib_state :: 'h
  waiting :: nat
  returned :: nat
  spawned :: "string list"

definition spawned_by :: "('c, 'i, 't, 's) factory \<Rightarrow> ('c, 'i, 't, 's) factory \<Rightarrow> string list" where
  "spawned_by f f' = map fst (drop (length (goroutines f)) (goroutines f'))"

inductive factory_step :: "('c, 'i, 't, 'h) informer_lib \<Rightarrow> ('c, 'i, 't, 's, 'h) factory_state
    \<Rightarrow> ('c, 'i, 't, 's, 'h) factory_state \<Rightarrow> bool" for lib s where
  asked: "InformerFor lib ty newFunc (fac s) (lib_state s) = (i, f', h')
    \<Longrightarrow> factory_step lib s (s\<lparr>fac := f', lib_state := h'\<rparr>)"
| start: "factory_step lib s (s\<lparr>fac := Start stopCh (fac s),
    spawned := spawned s @ spawned_by (fac s) (Start stopCh (fac s))\<rparr>)"
| ended: "goroutines (fac s) = xs @ g # ys
    \<Longrightarrow> factory_step lib s (s\<lparr>fac := (fac s)\<lparr>goroutines := xs @ ys, wg := wg (fac s) - 1\<rparr>\<rparr>)"
| shutdown: "factory_step lib s (s\<lparr>fac := Shutdown_begin (fac s), waiting := Suc (waiting s)\<rparr>)"
| returns: "0 < waiting s \<Longrightarrow> wg (fac s) = 0
    \<Longrightarrow> factory_step lib s (s\<lparr>waiting := waiting s - 1, returned := Suc (returned s)\<rparr>)"

abbreviation factory_run :: "('c, 'i, 't, 'h) informer_lib \<Rightarrow> ('c, 'i, 't, 's, 'h) factory_state
    \<Rightarrow> ('c, 'i, 't, 's, 'h) factory_state \<Rightarrow> bool" where
  "factory_run lib \<equiv> (factory_step lib)\<^sup>*\<^sup>*"

definition fresh_state :: "('c, 'i, 't, 's) factory \<Rightarrow> 'h \<Rightarrow> ('c, 'i, 't, 's, 'h) factory_state" where
  "fresh_state f h = \<lparr>fac = f, lib_state = h, waiting = 0, returned = 0, spawned = []\<rparr>"

text \<open>
  The books of the factory: one informer for each type; every goroutine runs the informer of its type,
  and each type has been started at most once, which is what \<open>startedInformers\<close> says; the wait group
  counts the goroutines.
\<close>

definition books_ok :: "('c, 'i, 't, 's, 'h) factory_state \<Rightarrow> bool" where
  "books_ok s \<longleftrightarrow> distinct (map fst (informers (fac s)))
     \<and> distinct (spawned s)
     \<and> (\<forall>ty. ty \<in> set (spawned s) \<longleftrightarrow> is_started (fac s) ty)
     \<and> set (spawned s) \<subseteq> fst ` set (informers (fac s))
     \<and> distinct (map fst (goroutines (fac s)))
     \<and> list_all (\<lambda>g. fst g \<in> set (spawned s) \<and> (fst g, fst (snd g)) \<in> set (informers (fac s))) (goroutines (fac s))
     \<and> wg (fac s) = length (goroutines (fac s))"

lemma books_same:
  assumes "books_ok s" and "informers (fac s') = informers (fac s)"
    "startedInformers (fac s') = startedInformers (fac s)" "goroutines (fac s') = goroutines (fac s)"
    "wg (fac s') = wg (fac s)" "spawned s' = spawned s"
  shows "books_ok s'"
  using assms(1) unfolding books_ok_def is_started_def assms(2-) .

lemma start_informer_sel [simp]:
  "informers (start_informer ch e f) = informers f" "shuttingDown (start_informer ch e f) = shuttingDown f"
  "client (start_informer ch e f) = client f" "transform (start_informer ch e f) = transform f"
  by (simp_all add: start_informer_def)

lemma fold_start_sel [simp]:
  "informers (fold (start_informer ch) es f) = informers f"
  "shuttingDown (fold (start_informer ch) es f) = shuttingDown f"
  by (induction es arbitrary: f) simp_all

text \<open>\<open>Start\<close> spawns one goroutine for every informer that has not been started, and no other.\<close>

lemma fold_start:
  assumes "distinct (map fst es)"
  shows "goroutines (fold (start_informer ch) es f) = goroutines f
      @ map (\<lambda>(ty, i). (ty, i, ch)) (filter (\<lambda>e. \<not> is_started f (fst e)) es)
    \<and> (\<forall>ty. is_started (fold (start_informer ch) es f) ty \<longleftrightarrow> is_started f ty \<or> ty \<in> fst ` set es)
    \<and> wg (fold (start_informer ch) es f) = wg f + length (filter (\<lambda>e. \<not> is_started f (fst e)) es)"
  using assms
proof (induction es arbitrary: f)
  case (Cons e es)
  let ?f = "start_informer ch e f"
  have same: "is_started ?f ty \<longleftrightarrow> is_started f ty \<or> ty = fst e" for ty
    by (simp add: start_informer_def is_started_def)
  have "fst e \<notin> fst ` set es" using Cons.prems by simp
  then have "filter (\<lambda>e'. \<not> is_started ?f (fst e')) es = filter (\<lambda>e'. \<not> is_started f (fst e')) es"
    by (intro filter_cong refl) (simp add: same, metis imageI)
  moreover have "goroutines ?f = goroutines f @ (if is_started f (fst e) then [] else [(fst e, snd e, ch)])"
    "wg ?f = wg f + (if is_started f (fst e) then 0 else 1)"
    by (simp_all add: start_informer_def)
  moreover have "distinct (map fst es)" using Cons.prems by simp
  note Cons.IH [OF this, of ?f]
  ultimately show ?case
    by (auto simp: same case_prod_beta)
qed simp

lemma Start_spawns:
  assumes "distinct (map fst (informers f))" and "\<not> shuttingDown f"
  shows "goroutines (Start ch f) = goroutines f
      @ map (\<lambda>(ty, i). (ty, i, ch)) (filter (\<lambda>e. \<not> is_started f (fst e)) (informers f))"
    and "is_started (Start ch f) ty \<longleftrightarrow> is_started f ty \<or> ty \<in> fst ` set (informers f)"
    and "wg (Start ch f) = wg f + length (filter (\<lambda>e. \<not> is_started f (fst e)) (informers f))"
    and "informers (Start ch f) = informers f"
  using fold_start [OF assms(1), of ch f] assms(2) by (simp_all add: Start_def)

lemma books_start:
  assumes "books_ok s"
  shows "books_ok (s\<lparr>fac := Start ch (fac s), spawned := spawned s @ spawned_by (fac s) (Start ch (fac s))\<rparr>)"
proof (cases "shuttingDown (fac s)")
  case True
  with assms show ?thesis by (simp add: Start_def spawned_by_def)
next
  case False
  let ?f = "fac s" and ?new = "filter (\<lambda>e. \<not> is_started (fac s) (fst e)) (informers (fac s))"
  have d: "distinct (map fst (informers ?f))" using assms by (simp add: books_ok_def)
  note spawns = Start_spawns [OF d False, of ch]
  have new: "spawned_by ?f (Start ch ?f) = map fst ?new"
    by (simp add: spawned_by_def spawns(1) comp_def case_prod_beta)
  have distinct_new: "distinct (map fst ?new)" using d by (rule distinct_map_filter)
  have types: "map fst (map (\<lambda>(ty, i). (ty, i, ch)) ?new) = map fst ?new"
    by (simp add: comp_def case_prod_beta)
  note books = assms [unfolded books_ok_def]
  have disjoint: "ty \<notin> set (spawned s)" if "ty \<in> set (map fst ?new)" for ty
    using that books by auto
  show ?thesis
    unfolding books_ok_def
  proof (intro conjI)
    let ?s = "s\<lparr>fac := Start ch ?f, spawned := spawned s @ spawned_by ?f (Start ch ?f)\<rparr>"
    show "distinct (map fst (informers (fac ?s)))" using d by (simp add: spawns(4))
    show "distinct (spawned ?s)"
    proof -
      have "spawned ?s = spawned s @ map fst ?new" by (simp add: new)
      moreover have "set (spawned s) \<inter> set (map fst ?new) = {}" using disjoint by blast
      ultimately show ?thesis using books distinct_new by (simp only: distinct_append)
    qed
    show "\<forall>ty. ty \<in> set (spawned ?s) \<longleftrightarrow> is_started (fac ?s) ty"
      using books by (auto simp: new spawns(2))
    show "set (spawned ?s) \<subseteq> fst ` set (informers (fac ?s))"
      using books by (auto simp: new spawns(4))
    show "distinct (map fst (goroutines (fac ?s)))"
    proof -
      have "set (map fst (goroutines ?f)) \<subseteq> set (spawned s)"
        using books by (auto simp: list_all_iff)
      then have "set (map fst (goroutines ?f)) \<inter> set (map fst ?new) = {}" using disjoint by blast
      moreover have "map fst (goroutines (fac ?s)) = map fst (goroutines ?f) @ map fst ?new"
        unfolding types [symmetric] by (simp add: spawns(1))
      ultimately show ?thesis using books distinct_new by simp
    qed
    have "list_all (\<lambda>g. fst g \<in> set (spawned ?s) \<and> (fst g, fst (snd g)) \<in> set (informers (fac ?s))) (goroutines ?f)"
      using books by (auto simp: list_all_iff spawns(4))
    then show "list_all (\<lambda>g. fst g \<in> set (spawned ?s) \<and> (fst g, fst (snd g)) \<in> set (informers (fac ?s)))
        (goroutines (fac ?s))"
      by (simp add: spawns(1,4) new list_all_iff) force
    show "wg (fac ?s) = length (goroutines (fac ?s))"
      using books by (simp add: spawns(1,3))
  qed
qed

lemma books_asked:
  assumes "books_ok s" and "InformerFor lib ty newFunc (fac s) (lib_state s) = (i, f', h')"
  shows "books_ok (s\<lparr>fac := f', lib_state := h'\<rparr>)"
proof (cases "map_of (informers (fac s)) ty")
  case (Some j)
  with assms(2) have "f' = fac s" by (simp add: InformerFor_def)
  then show ?thesis by (intro books_same [OF assms(1)]) simp_all
next
  case None
  with assms(2) have "f' = (fac s)\<lparr>informers := informers (fac s) @ [(ty, i)]\<rparr>"
    by (auto simp: InformerFor_def split: prod.splits)
  with assms(1) None show ?thesis
    by (auto simp: books_ok_def is_started_def map_of_eq_None_iff list_all_iff)
qed

lemma books_ended:
  assumes "books_ok s" and "goroutines (fac s) = xs @ g # ys"
  shows "books_ok (s\<lparr>fac := (fac s)\<lparr>goroutines := xs @ ys, wg := wg (fac s) - 1\<rparr>\<rparr>)"
  using assms by (auto simp: books_ok_def is_started_def)

lemma books_step:
  assumes "factory_step lib s s'" and "books_ok s"
  shows "books_ok s'"
  using assms(1)
proof (cases rule: factory_step.cases)
  case (asked ty newFunc i f' h')
  then show ?thesis using books_asked [OF assms(2)] by simp
next
  case (start stopCh)
  then show ?thesis using books_start [OF assms(2)] by simp
next
  case (ended xs g ys)
  then show ?thesis using books_ended [OF assms(2)] by simp
next
  case shutdown
  then show ?thesis by (intro books_same [OF assms(2)]) (simp_all add: Shutdown_begin_def)
next
  case returns
  then show ?thesis by (intro books_same [OF assms(2)]) simp_all
qed

lemma books_run: "factory_run lib s s' \<Longrightarrow> books_ok s \<Longrightarrow> books_ok s'"
  by (induction rule: rtranclp_induct) (blast intro: books_step)+

text \<open>The factory as it is constructed: the options set nothing but the configuration.\<close>

definition idle :: "('c, 'i, 't, 's) factory \<Rightarrow> bool" where
  "idle f \<longleftrightarrow> informers f = [] \<and> startedInformers f = Map.empty \<and> wg f = 0 \<and> \<not> shuttingDown f \<and> goroutines f = []"

inductive is_option :: "('c, 'i, 't, 's) informer_option \<Rightarrow> bool" where
  "is_option (WithCustomResyncConfig cfg)"
| "is_option (WithTweakListOptions tweak)"
| "is_option (WithNamespace ns)"
| "is_option (WithTransform t)"

lemma is_option_idle: "is_option opt \<Longrightarrow> idle f \<Longrightarrow> idle (opt f)"
  by (induction rule: is_option.induct) (simp_all add: idle_def option_defs)

lemma fold_options_idle: "list_all is_option options \<Longrightarrow> idle f \<Longrightarrow> idle (fold (\<lambda>opt f. opt f) options f)"
  by (induction options arbitrary: f) (simp_all add: is_option_idle)

lemma new_factory_idle:
  assumes "list_all is_option options"
  shows "idle (NewSharedInformerFactoryWithOptions c resync options)"
  unfolding NewSharedInformerFactoryWithOptions_def
  using assms by (rule fold_options_idle) (simp add: idle_def)

lemma fresh_books: "idle f \<Longrightarrow> books_ok (fresh_state f h)"
  by (simp add: idle_def books_ok_def fresh_state_def is_started_def)

section \<open>One informer for each type\<close>

text \<open>An informer, once made, stays the informer of its type.\<close>

lemma informer_kept:
  assumes "factory_step lib s s'" and "map_of (informers (fac s)) ty = Some i"
  shows "map_of (informers (fac s')) ty = Some i"
  using assms(1)
proof (cases rule: factory_step.cases)
  case (asked ty' newFunc j f' h')
  with assms(2) show ?thesis
    by (auto simp: InformerFor_def map_add_Some_iff split: option.splits prod.splits)
qed (use assms(2) in \<open>simp_all add: Start_def Shutdown_begin_def\<close>)

lemma informer_kept_run:
  "factory_run lib s s' \<Longrightarrow> map_of (informers (fac s)) ty = Some i \<Longrightarrow> map_of (informers (fac s')) ty = Some i"
  by (induction rule: rtranclp_induct) (blast intro: informer_kept)+

lemma InformerFor_kept:
  assumes "InformerFor lib ty newFunc f h = (i, f', h')"
  shows "map_of (informers f') ty = Some i"
  using assms by (auto simp: InformerFor_def map_add_Some_iff map_of_eq_None_iff split: option.splits prod.splits)

lemma InformerFor_known:
  "map_of (informers f) ty = Some i \<Longrightarrow> InformerFor lib ty newFunc f h = (i, f, h)"
  by (simp add: InformerFor_def)

lemma count_list_distinct: "distinct xs \<Longrightarrow> count_list xs x \<le> 1"
  by (induction xs) auto

text \<open>
  C37: Informers are shared, and none runs twice.  Whatever calls of \<open>InformerFor\<close>, \<open>Start\<close> and
  \<open>Shutdown\<close> interleave, from the construction of the factory on: once a caller has been given an
  informer of a type, every later request for that type gets the same one and makes none, at most one
  goroutine is ever spawned for the type, and it runs that informer.
\<close>

theorem informers_shared:
  assumes "list_all is_option options"
    and "factory_run lib (fresh_state (NewSharedInformerFactoryWithOptions c resync options) h) s"
    and "InformerFor lib ty newFunc (fac s) (lib_state s) = (i, f', h')"
    and "factory_run lib (s\<lparr>fac := f', lib_state := h'\<rparr>) s'"
  shows "InformerFor lib ty newFunc' (fac s') (lib_state s') = (i, fac s', lib_state s')
    \<and> count_list (spawned s') ty \<le> 1
    \<and> list_all (\<lambda>g. fst g = ty \<longrightarrow> fst (snd g) = i) (goroutines (fac s'))"
proof -
  have known: "map_of (informers (fac s')) ty = Some i"
    using informer_kept_run [OF assms(4)] InformerFor_kept [OF assms(3)] by simp
  have "books_ok s" using assms(2) fresh_books [OF new_factory_idle [OF assms(1)]] by (rule books_run)
  then have "books_ok (s\<lparr>fac := f', lib_state := h'\<rparr>)" using assms(3) by (rule books_asked)
  with assms(4) have books: "books_ok s'" by (rule books_run)
  then have "distinct (spawned s')" by (simp add: books_ok_def)
  then have "count_list (spawned s') ty \<le> 1" by (rule count_list_distinct)
  moreover have "fst (snd g) = i" if "g \<in> set (goroutines (fac s'))" "fst g = ty" for g
  proof -
    have "(ty, fst (snd g)) \<in> set (informers (fac s'))" "distinct (map fst (informers (fac s')))"
      using books that by (auto simp: books_ok_def list_all_iff)
    with known show ?thesis by (simp add: map_of_eq_Some_iff)
  qed
  ultimately show ?thesis using InformerFor_known [OF known] by (simp add: list_all_iff)
qed

text \<open>
  C39: Access by resource and by type lead to the same informer.  In a filtered factory \<open>ForResource\<close>
  knows \<open>awsiamroles\<close> of \<open>zalando.org/v1\<close> only, any other resource is an error that changes nothing; the
  informer it makes lists and watches through the client of the factory, in its namespace and with
  its list options, at its resync period; and whatever happens to the factory later,
  \<open>Zalando().V1().AWSIAMRoles().Informer()\<close> gives this informer and makes no other.
\<close>

theorem informer_for_resource:
  fixes f :: "('c, 'i, 't, 's) factory"
  assumes "ForResource lib gvr (NewFilteredSharedInformerFactory c resync ns tweak) h = (res, f, h')"
    and "factory_run lib (fresh_state f h') s"
  shows "case res of
      Inl err \<Rightarrow> gvr \<noteq> awsiamroles_resource \<and> f = NewFilteredSharedInformerFactory c resync ns tweak \<and> h' = h
    | Inr g \<Rightarrow> gvr = awsiamroles_resource
        \<and> (\<exists>lw h1. NewSharedIndexInformer lib lw c ''*v1.AWSIAMRole'' resync [''namespace''] h = (giInformer g, h1)
            \<and> h' = SetTransform lib (giInformer g) None h1
            \<and> (\<forall>ctx options. ListFunc lw options = ListAWSIAMRoles c ns Background (tweaked tweak options)
                \<and> WatchFunc lw options = WatchAWSIAMRoles c ns Background (tweaked tweak options)
                \<and> ListWithContextFunc lw ctx options = ListAWSIAMRoles c ns ctx (tweaked tweak options)
                \<and> WatchFuncWithContext lw ctx options = WatchAWSIAMRoles c ns ctx (tweaked tweak options)))
        \<and> AWSIAMRole_Informer lib (AWSIAMRoles (V1 (Zalando (fac s)))) (fac s) (lib_state s)
            = (giInformer g, fac s, lib_state s)"
proof (cases "gvr = awsiamroles_resource")
  case False
  with assms(1) show ?thesis by (auto simp: ForResource_def)
next
  case True
  let ?f = "NewFilteredSharedInformerFactory c resync ns tweak :: ('c, 'i, 't, 's) factory"
  let ?new = "defaultInformer lib (AWSIAMRoles (V1 (Zalando ?f)))"
  obtain i where i: "InformerFor lib ''*v1.AWSIAMRole'' ?new ?f h = (i, f, h')"
    and res: "\<exists>r. res = Inr \<lparr>giInformer = i, giResource = r\<rparr>"
    using assms(1) True by (auto simp: ForResource_def AWSIAMRole_Informer_def split: prod.splits)
  obtain h1 where "?new c resync h = (i, h1)" "h' = SetTransform lib i None h1"
    using i by (auto simp: InformerFor_def NewFilteredSharedInformerFactory_def resync_period_def
      NewSharedInformerFactoryWithOptions_def option_defs split: prod.splits)
  moreover have "map_of (informers (fac s)) ''*v1.AWSIAMRole'' = Some i"
    using informer_kept_run [OF assms(2)] InformerFor_kept [OF i] by (simp add: fresh_state_def)
  then have "AWSIAMRole_Informer lib (AWSIAMRoles (V1 (Zalando (fac s)))) (fac s) (lib_state s)
      = (i, fac s, lib_state s)"
    unfolding AWSIAMRole_Informer_def by (rule InformerFor_known)
  ultimately show ?thesis
    using True res unfolding defaultInformer_def NewFilteredAWSIAMRoleInformer_def
    by (fastforce simp: Zalando_def V1_def group_New_def version_New_def AWSIAMRoles_def NewFilteredSharedInformerFactory_def
      NewSharedInformerFactoryWithOptions_def option_defs)
qed

section \<open>Shutdown\<close>

definition shutdown_ok :: "('c, 'i, 't, 's, 'h) factory_state \<Rightarrow> bool" where
  "shutdown_ok s \<longleftrightarrow> (0 < waiting s \<or> 0 < returned s \<longrightarrow> shuttingDown (fac s))
     \<and> (0 < returned s \<longrightarrow> goroutines (fac s) = [])"

lemma Start_shutting_down: "shuttingDown f \<Longrightarrow> Start ch f = f"
  by (simp add: Start_def)

lemma InformerFor_sel:
  assumes "InformerFor lib ty newFunc f h = (i, f', h')"
  shows "goroutines f' = goroutines f" "shuttingDown f' = shuttingDown f"
  using assms by (auto simp: InformerFor_def split: option.splits prod.splits)

lemma shutdown_step:
  assumes "factory_step lib s s'" and "books_ok s" and "shutdown_ok s"
  shows "shutdown_ok s'" and "shuttingDown (fac s) \<Longrightarrow> spawned s' = spawned s \<and> shuttingDown (fac s')"
proof -
  have "shutdown_ok s' \<and> (shuttingDown (fac s) \<longrightarrow> spawned s' = spawned s \<and> shuttingDown (fac s'))"
    using assms(1)
  proof (cases rule: factory_step.cases)
    case (asked ty newFunc i f' h')
    with assms(3) show ?thesis by (simp add: shutdown_ok_def InformerFor_sel [OF asked(2)])
  next
    case (start ch)
    show ?thesis
    proof (cases "shuttingDown (fac s)")
      case True
      with start assms(3) show ?thesis by (simp add: Start_shutting_down spawned_by_def shutdown_ok_def)
    next
      case False
      with start assms(3) show ?thesis by (simp add: shutdown_ok_def Start_def)
    qed
  next
    case returns
    with assms(2,3) show ?thesis by (simp add: shutdown_ok_def books_ok_def)
  qed (use assms(3) in \<open>auto simp: shutdown_ok_def Shutdown_begin_def\<close>)
  then show "shutdown_ok s'" "shuttingDown (fac s) \<Longrightarrow> spawned s' = spawned s \<and> shuttingDown (fac s')"
    by blast+
qed

lemma shutdown_run:
  assumes "factory_run lib s s'" and "books_ok s" and "shutdown_ok s"
  shows "shutdown_ok s'" "books_ok s'" "returned s \<le> returned s'"
    "shuttingDown (fac s) \<Longrightarrow> spawned s' = spawned s"
proof -
  have "shutdown_ok s' \<and> books_ok s' \<and> returned s \<le> returned s'
      \<and> (shuttingDown (fac s) \<longrightarrow> spawned s' = spawned s \<and> shuttingDown (fac s'))"
    using assms(1)
  proof (induction rule: rtranclp_induct)
    case base
    with assms(2,3) show ?case by simp
  next
    case (step t u)
    moreover have "returned t \<le> returned u" using step.hyps(2) by (cases rule: factory_step.cases) simp_all
    ultimately show ?case
      using shutdown_step [OF step.hyps(2)] books_step [OF step.hyps(2)] by auto
  qed
  then show "shutdown_ok s'" "books_ok s'" "returned s \<le> returned s'"
    "shuttingDown (fac s) \<Longrightarrow> spawned s' = spawned s"
    by simp_all
qed

text \<open>Once the goroutines end, every waiting \<open>Shutdown\<close> can return.\<close>

lemma shutdown_returns:
  assumes "books_ok s" and "0 < waiting s"
  shows "\<exists>s'. factory_run lib s s' \<and> returned s' = Suc (returned s)"
  using assms
proof (induction "goroutines (fac s)" arbitrary: s)
  case Nil
  then have "factory_step lib s (s\<lparr>waiting := waiting s - 1, returned := Suc (returned s)\<rparr>)"
    by (intro factory_step.returns) (simp_all add: books_ok_def)
  then show ?case
    by (intro exI [of _ "s\<lparr>waiting := waiting s - 1, returned := Suc (returned s)\<rparr>"])
      (simp add: r_into_rtranclp)
next
  case (Cons g gs)
  let ?s = "s\<lparr>fac := (fac s)\<lparr>goroutines := [] @ gs, wg := wg (fac s) - 1\<rparr>\<rparr>"
  have "goroutines (fac s) = [] @ g # gs" using Cons.hyps(2) by simp
  then have first: "factory_step lib s ?s" "books_ok ?s"
    using factory_step.ended books_ended [OF Cons.prems(1)] by blast+
  from Cons.hyps(1) [of ?s] first(2) Cons.prems(2) obtain s' where
    "factory_run lib ?s s'" "returned s' = Suc (returned ?s)" by auto
  with first(1) show ?case by (auto intro: converse_rtranclp_into_rtranclp)
qed

text \<open>
  C38: A call of \<open>Shutdown\<close> that returns is final: no informer runs then, and none ever will again,
  whoever calls \<open>InformerFor\<close>, \<open>Start\<close> or \<open>Shutdown\<close> afterwards; nothing is spawned any more.
\<close>

theorem shutdown_final:
  assumes "list_all is_option options"
    and "factory_run lib (fresh_state (NewSharedInformerFactoryWithOptions c resync options) h) s"
    and "0 < returned s" and "factory_run lib s s'"
  shows "goroutines (fac s) = [] \<and> goroutines (fac s') = [] \<and> wg (fac s') = 0 \<and> spawned s' = spawned s"
proof -
  let ?s = "fresh_state (NewSharedInformerFactoryWithOptions c resync options) h"
  have "shutdown_ok ?s" by (simp add: shutdown_ok_def fresh_state_def)
  note now = shutdown_run [OF assms(2) fresh_books [OF new_factory_idle [OF assms(1)]] this]
  from now(1) assms(3) have s: "shuttingDown (fac s)" "goroutines (fac s) = []"
    by (simp_all add: shutdown_ok_def)
  note later = shutdown_run [OF assms(4) now(2,1)]
  from later(1,3) assms(3) have "goroutines (fac s') = []" by (simp add: shutdown_ok_def)
  moreover from this later(2) have "wg (fac s') = 0" by (simp add: books_ok_def)
  ultimately show ?thesis using s later(4) by simp
qed

section \<open>An example\<close>

text \<open>A library that numbers the informers it makes.\<close>

definition example_lib :: "(unit, nat, unit, nat) informer_lib" where
  "example_lib =
     \<lparr>NewSharedIndexInformer = (\<lambda>lw c ty resync idx n. (n, Suc n)), SetTransform = (\<lambda>i t n. n),
      CacheSynced = (\<lambda>i n. (True, n)), GVRString = gvrResource\<rparr>"

text \<open>The informer of the factory is asked for, started twice and ended; then \<open>Shutdown\<close> returns.\<close>

abbreviation example_factory :: "(unit, nat, unit, unit) factory" where
  "example_factory \<equiv> NewSharedInformerFactoryWithOptions () 0 [WithNamespace ''default'']"

abbreviation example_new :: "(unit, nat, nat) new_informer_func" where
  "example_new \<equiv> defaultInformer example_lib (AWSIAMRoles (V1 (Zalando example_factory)))"

definition example_asked :: "(unit, nat, unit, unit) factory" where
  "example_asked = example_factory\<lparr>informers := [(''*v1.AWSIAMRole'', 0)]\<rparr>"

lemma example_InformerFor:
  "InformerFor example_lib ''*v1.AWSIAMRole'' example_new example_factory 0 = (0, example_asked, 1)"
  by (simp add: InformerFor_def example_asked_def NewSharedInformerFactoryWithOptions_def option_defs
    defaultInformer_def NewFilteredAWSIAMRoleInformer_def example_lib_def)

definition example_started :: "(unit, nat, unit, unit, nat) factory_state" where
  "example_started = (fresh_state (Start () example_asked) 1)\<lparr>spawned := [''*v1.AWSIAMRole'']\<rparr>"

lemma example_factory_run: "factory_run example_lib (fresh_state example_factory 0) example_started"
proof -
  have "factory_step example_lib (fresh_state example_factory 0) (fresh_state example_asked 1)"
    using factory_step.asked [of example_lib "''*v1.AWSIAMRole''" example_new "fresh_state example_factory 0"]
      example_InformerFor by (simp add: fresh_state_def)
  moreover have "factory_step example_lib (fresh_state example_asked 1) example_started"
    using factory_step.start [of example_lib "fresh_state example_asked 1" "()"]
    by (simp add: fresh_state_def spawned_by_def Start_def start_informer_def is_started_def example_asked_def
      NewSharedInformerFactoryWithOptions_def option_defs example_started_def)
  ultimately show ?thesis by (meson r_into_rtranclp rtranclp.rtrancl_into_rtrancl)
qed

lemma example_options: "list_all is_option [WithNamespace ''default'']"
  by (simp add: is_option.intros)

theorem informers_shared_witness:
  "spawned example_started = [''*v1.AWSIAMRole'']
    \<and> factory_run example_lib (fresh_state example_factory 0) example_started
    \<and> InformerFor example_lib ''*v1.AWSIAMRole'' (\<lambda>c d n. (7, n)) (fac example_started) (lib_state example_started)
      = (0, fac example_started, lib_state example_started)"
proof -
  have "InformerFor example_lib ''*v1.AWSIAMRole'' example_new (fac example_started) (lib_state example_started)
      = (0, fac example_started, lib_state example_started)"
    by (rule InformerFor_known) (simp add: example_started_def fresh_state_def Start_def example_asked_def)
  from informers_shared [OF example_options example_factory_run this, of example_started]
  show ?thesis using example_factory_run by (simp add: example_started_def)
qed

theorem shutdown_final_witness:
  "\<exists>s s'. 0 < returned s \<and> factory_run example_lib (fresh_state example_factory 0) s
    \<and> factory_run example_lib s s' \<and> goroutines (fac s') = []"
proof -
  define t where "t = example_started\<lparr>fac := Shutdown_begin (fac example_started),
    waiting := Suc (waiting example_started)\<rparr>"
  have run: "factory_run example_lib (fresh_state example_factory 0) t"
    using example_factory_run unfolding t_def by (rule rtranclp.rtrancl_into_rtrancl) (rule factory_step.shutdown)
  have "books_ok t"
    using run by (rule books_run) (intro fresh_books new_factory_idle example_options)
  moreover have "0 < waiting t" by (simp add: t_def)
  ultimately obtain u where u: "factory_run example_lib t u" "returned u = Suc (returned t)"
    using shutdown_returns [of t example_lib] by blast
  from run u(1) have reached: "factory_run example_lib (fresh_state example_factory 0) u"
    by (rule rtranclp_trans)
  have "0 < returned u" using u(2) by simp
  from shutdown_final [OF example_options reached this rtranclp.rtrancl_refl] this reached
  show ?thesis by blast
qed

theorem informer_for_resource_witness:
  "\<exists>g f. ForResource example_lib awsiamroles_resource
        (NewFilteredSharedInformerFactory () 0 ''default'' None :: (unit, nat, unit, unit) factory) 0 = (Inr g, f, 1)
    \<and> AWSIAMRole_Informer example_lib (AWSIAMRoles (V1 (Zalando (Start () f)))) (Start () f) 1
        = (giInformer g, Start () f, 1)"
proof -
  let ?f = "NewFilteredSharedInformerFactory () 0 ''default'' None :: (unit, nat, unit, unit) factory"
  obtain g f where made: "ForResource example_lib awsiamroles_resource ?f 0 = (Inr g, f, 1)"
    by (simp add: ForResource_def AWSIAMRole_Informer_def InformerFor_def example_lib_def defaultInformer_def
      NewFilteredAWSIAMRoleInformer_def NewFilteredSharedInformerFactory_def
      NewSharedInformerFactoryWithOptions_def option_defs)
  have "factory_run example_lib (fresh_state f 1)
      ((fresh_state f 1)\<lparr>fac := Start () f, spawned := spawned_by f (Start () f)\<rparr>)"
    using factory_step.start [of example_lib "fresh_state f 1" "()"]
    by (intro r_into_rtranclp) (simp add: fresh_state_def)
  from informer_for_resource [OF made this] made show ?thesis by (auto simp: fresh_state_def)
qed

end
