(* ===== verification/Scheme.thy ===== *)
theory Scheme
  imports ClientConfig
begin

text \<open>
  The registration of the API types: \<^verbatim>\<open>pkg/apis/zalando.org/v1/register.go\<close>, and the schemes of the
  generated clientset and of its fake, \<^verbatim>\<open>scheme/register.go\<close> and \<^verbatim>\<open>fake/register.go\<close>.  A scheme of
  apimachinery is a state \<open>'s\<close> that registering changes; the library's functions are the parameter
  \<open>scheme_lib\<close>, and what its documentation says of them is \<open>scheme_laws\<close>.  The types of Go are named as
  \<open>reflect.Type\<close> prints them; a name stands for one type, of one package.

  \<open>KnownType\<close> and \<open>UnversionedKind\<close> are the tables of a scheme: the type it decodes a kind of a group
  version to, and the types of its unversioned kinds.  \<open>MetaTypes gv\<close> are the common types that
  \<open>AddToGroupVersion\<close> registers for \<open>gv\<close>, by group version and kind: not all of them are of \<open>gv\<close> itself, as
  \<^verbatim>\<open>WatchEvent\<close> stands for an internal type under the version \<^verbatim>\<open>__internal\<close> of the group, and the
  unversioned ones (\<open>MetaUnversioned\<close>) have a group version of their own.
\<close>

section \<open>The library\<close>

type_synonym ('s, 'a) registering = "('s, 'a outcome) state"

record 's scheme_lib =
  NewScheme :: 's
  AddKnownTypes :: "group_version \<Rightarrow> string list \<Rightarrow> ('s, unit) registering"
  AddToGroupVersion :: "group_version \<Rightarrow> ('s, unit) registering"
  ApplyBuilder :: "('s, unit) registering list \<Rightarrow> ('s, unit) registering"
  Must :: "unit outcome \<Rightarrow> unit outcome"
  KnownType :: "'s \<Rightarrow> group_version \<times> string \<rightharpoonup> string"
  UnversionedKind :: "'s \<Rightarrow> string \<rightharpoonup> string"
  MetaTypes :: "group_version \<Rightarrow> group_version \<times> string \<rightharpoonup> string"
  MetaUnversioned :: "string \<rightharpoonup> string"

section \<open>Registering\<close>

definition addKnownTypes :: "'s scheme_lib \<Rightarrow> ('s, unit) registering" where
  "addKnownTypes lib =
     and_then (AddKnownTypes lib SchemeGroupVersion [''*v1.AWSIAMRole'', ''*v1.AWSIAMRoleList'']) (\<lambda>_.
     and_then (AddToGroupVersion lib SchemeGroupVersion) (\<lambda>_. ret (Ok ())))"

definition schemeBuilder :: "'s scheme_lib \<Rightarrow> ('s, unit) registering list" where
  "schemeBuilder lib = [addKnownTypes lib]"

definition v1_AddToScheme :: "'s scheme_lib \<Rightarrow> ('s, unit) registering" where
  "v1_AddToScheme lib = ApplyBuilder lib (schemeBuilder lib)"

text \<open>\<open>Resource\<close>: a resource of the group, without its version.\<close>

definition group_resource :: "string \<Rightarrow> string \<times> string" where
  "group_resource resource = (gvGroup SchemeGroupVersion, resource)"

text \<open>The builder and the initialisation of the clientset's scheme.\<close>

definition localSchemeBuilder :: "'s scheme_lib \<Rightarrow> ('s, unit) registering list" where
  "localSchemeBuilder lib = [v1_AddToScheme lib]"

definition AddToScheme :: "'s scheme_lib \<Rightarrow> ('s, unit) registering" where
  "AddToScheme lib = ApplyBuilder lib (localSchemeBuilder lib)"

definition scheme_init :: "'s scheme_lib \<Rightarrow> ('s, unit) registering" where
  "scheme_init lib =
     and_then (AddToGroupVersion lib \<lparr>gvGroup = [], gvVersion = ''v1''\<rparr>) (\<lambda>_. do {
       err \<leftarrow> AddToScheme lib;
       ret (Must lib err)
     })"

text \<open>The fake clientset registers in a scheme of its own.\<close>

definition fake_localSchemeBuilder :: "'s scheme_lib \<Rightarrow> ('s, unit) registering list" where
  "fake_localSchemeBuilder lib = [v1_AddToScheme lib]"

definition fake_AddToScheme :: "'s scheme_lib \<Rightarrow> ('s, unit) registering" where
  "fake_AddToScheme lib = ApplyBuilder lib (fake_localSchemeBuilder lib)"

definition fake_scheme_init :: "'s scheme_lib \<Rightarrow> ('s, unit) registering" where
  "fake_scheme_init lib =
     and_then (AddToGroupVersion lib \<lparr>gvGroup = [], gvVersion = ''v1''\<rparr>) (\<lambda>_. do {
       err \<leftarrow> fake_AddToScheme lib;
       ret (Must lib err)
     })"

section \<open>The laws of the library\<close>

text \<open>The kind of a type is its name without the package.\<close>

definition kind_of :: "string \<Rightarrow> string" where
  "kind_of ty = last (split_on CHR ''.'' ty)"

text \<open>The entries of types under their kinds, and tables that do not contradict each other.\<close>

definition kinds_at :: "group_version \<Rightarrow> string list \<Rightarrow> group_version \<times> string \<rightharpoonup> string" where
  "kinds_at gv tys = map_of (map (\<lambda>ty. ((gv, kind_of ty), ty)) tys)"

definition agree :: "('k \<rightharpoonup> 'v) \<Rightarrow> ('k \<rightharpoonup> 'v) \<Rightarrow> bool" where
  "agree m n \<longleftrightarrow> (\<forall>k x y. m k = Some x \<and> n k = Some y \<longrightarrow> x = y)"

lemma agree_sym: "agree m n \<longleftrightarrow> agree n m"
  unfolding agree_def by metis

lemma agree_empty [simp]: "agree Map.empty n" "agree m Map.empty"
  by (simp_all add: agree_def)

lemma agree_refl [simp]: "agree m m"
  unfolding agree_def by auto

lemma agree_add: "agree l m \<Longrightarrow> agree n m \<Longrightarrow> agree (l ++ n) m"
  unfolding agree_def map_add_Some_iff by blast

lemma agree_le: "agree m n \<Longrightarrow> m \<subseteq>\<^sub>m m ++ n"
  unfolding agree_def map_le_def by (fastforce simp: map_add_def split: option.split)

text \<open>A group version whose common types can be registered.\<close>

definition external :: "group_version \<Rightarrow> bool" where
  "external gv \<longleftrightarrow> gvVersion gv \<noteq> [] \<and> gvVersion gv \<noteq> ''__internal''"

definition meta_room :: "'s scheme_lib \<Rightarrow> group_version \<Rightarrow> 's \<Rightarrow> bool" where
  "meta_room lib gv s \<longleftrightarrow> agree (KnownType lib s) (MetaTypes lib gv)
     \<and> agree (UnversionedKind lib s) (MetaUnversioned lib)"

text \<open>
  \<open>AddKnownTypes\<close> registers the types under their kinds and panics if a kind is taken by another type;
  \<open>AddToGroupVersion\<close> registers the common types, and panics likewise; a builder applies its functions
  in order and abandons the attempt at the first error; \<open>Must\<close> panics on an error.
\<close>

definition types_law :: "'s scheme_lib \<Rightarrow> group_version \<Rightarrow> string list \<Rightarrow> 's \<Rightarrow> bool" where
  "types_law lib gv tys s \<longleftrightarrow>
     (gvVersion gv \<noteq> [] \<and> distinct (map kind_of tys) \<and> agree (KnownType lib s) (kinds_at gv tys) \<longrightarrow>
       (\<exists>s'. run_state (AddKnownTypes lib gv tys) s = (Ok (), s')
         \<and> KnownType lib s' = KnownType lib s ++ kinds_at gv tys
         \<and> UnversionedKind lib s' = UnversionedKind lib s))"

definition meta_law :: "'s scheme_lib \<Rightarrow> group_version \<Rightarrow> 's \<Rightarrow> bool" where
  "meta_law lib gv s \<longleftrightarrow>
     (external gv \<and> meta_room lib gv s \<longrightarrow>
       (\<exists>s'. run_state (AddToGroupVersion lib gv) s = (Ok (), s')
         \<and> KnownType lib s' = KnownType lib s ++ MetaTypes lib gv
         \<and> UnversionedKind lib s' = UnversionedKind lib s ++ MetaUnversioned lib))"

text \<open>
  The common types are the same for every group version that registers them, and their kinds are
  others than those of the API types.
\<close>

abbreviation api_types :: "string list" where
  "api_types \<equiv> [''*v1.AWSIAMRole'', ''*v1.AWSIAMRoleList'']"

definition common_law :: "'s scheme_lib \<Rightarrow> bool" where
  "common_law lib \<longleftrightarrow>
     (\<forall>gv gv'. external gv \<and> external gv' \<longrightarrow> agree (MetaTypes lib gv) (MetaTypes lib gv'))
     \<and> (\<forall>gv gv'. dom (MetaTypes lib gv) \<inter> dom (kinds_at gv' api_types) = {})"

definition scheme_laws :: "'s scheme_lib \<Rightarrow> bool" where
  "scheme_laws lib \<longleftrightarrow>
     KnownType lib (NewScheme lib) = Map.empty \<and> UnversionedKind lib (NewScheme lib) = Map.empty
     \<and> (\<forall>gv tys s. types_law lib gv tys s) \<and> (\<forall>gv s. meta_law lib gv s) \<and> common_law lib
     \<and> (\<forall>fs. ApplyBuilder lib fs = foldr (\<lambda>f rest. and_then f (\<lambda>_. rest)) fs (ret (Ok ())))
     \<and> Must lib (Ok ()) = Ok ()"

section \<open>What the schemes know\<close>

definition api_kinds :: "group_version \<times> string \<rightharpoonup> string" where
  "api_kinds = [(SchemeGroupVersion, ''AWSIAMRole'') \<mapsto> ''*v1.AWSIAMRole'',
     (SchemeGroupVersion, ''AWSIAMRoleList'') \<mapsto> ''*v1.AWSIAMRoleList'']"

lemma kinds: "kind_of ''*v1.AWSIAMRole'' = ''AWSIAMRole''" "kind_of ''*v1.AWSIAMRoleList'' = ''AWSIAMRoleList''"
  by code_simp+

lemma api_kinds_at: "kinds_at SchemeGroupVersion api_types = api_kinds"
  by (simp add: kinds_at_def api_kinds_def kinds fun_upd_twist)

text \<open>The two types under their kinds, and the common types of their group version.\<close>

definition registers :: "'s scheme_lib \<Rightarrow> 's \<Rightarrow> 's \<Rightarrow> bool" where
  "registers lib s s' \<longleftrightarrow>
     KnownType lib s' = KnownType lib s ++ api_kinds ++ MetaTypes lib SchemeGroupVersion
     \<and> UnversionedKind lib s' = UnversionedKind lib s ++ MetaUnversioned lib"

definition room :: "'s scheme_lib \<Rightarrow> 's \<Rightarrow> bool" where
  "room lib s \<longleftrightarrow> agree (KnownType lib s) api_kinds \<and> meta_room lib SchemeGroupVersion s"

lemma lawsD:
  assumes "scheme_laws lib"
  shows "KnownType lib (NewScheme lib) = Map.empty" "UnversionedKind lib (NewScheme lib) = Map.empty"
    "ApplyBuilder lib [f] = and_then f (\<lambda>_. ret (Ok ()))" "Must lib (Ok ()) = Ok ()"
    "external gv \<Longrightarrow> external gv' \<Longrightarrow> agree (MetaTypes lib gv) (MetaTypes lib gv')"
    "agree api_kinds (MetaTypes lib gv)" "dom (MetaTypes lib gv) \<inter> dom api_kinds = {}"
proof -
  show disjoint: "dom (MetaTypes lib gv) \<inter> dom api_kinds = {}" for gv
    using assms unfolding scheme_laws_def common_law_def by (metis api_kinds_at)
  then show "agree api_kinds (MetaTypes lib gv)"
    unfolding agree_def by (blast intro: domI)
qed (use assms in \<open>simp_all add: scheme_laws_def common_law_def\<close>)

lemma SchemeGroupVersion_external: "external SchemeGroupVersion" "external \<lparr>gvGroup = [], gvVersion = ''v1''\<rparr>"
  by (simp_all add: external_def SchemeGroupVersion_def)

lemma group_version_registered:
  assumes "scheme_laws lib" and "external gv" and "meta_room lib gv s"
  obtains s' where "run_state (AddToGroupVersion lib gv) s = (Ok (), s')"
    "KnownType lib s' = KnownType lib s ++ MetaTypes lib gv"
    "UnversionedKind lib s' = UnversionedKind lib s ++ MetaUnversioned lib"
proof -
  have "meta_law lib gv s" using assms(1) by (simp add: scheme_laws_def)
  with assms(2,3) that show thesis unfolding meta_law_def by blast
qed

lemma types_registered:
  assumes "scheme_laws lib" and "agree (KnownType lib s) api_kinds"
  obtains s' where "run_state (AddKnownTypes lib SchemeGroupVersion api_types) s = (Ok (), s')"
    "KnownType lib s' = KnownType lib s ++ api_kinds" "UnversionedKind lib s' = UnversionedKind lib s"
proof -
  have "gvVersion SchemeGroupVersion \<noteq> []" "distinct (map kind_of api_types)"
    by (simp_all add: kinds SchemeGroupVersion_def)
  moreover have "types_law lib SchemeGroupVersion api_types s" using assms(1) by (simp add: scheme_laws_def)
  ultimately show thesis
    using assms(2) that unfolding types_law_def api_kinds_at by blast
qed

lemma registers_room:
  assumes "scheme_laws lib" and "room lib s" and "registers lib s s'"
  shows "room lib s'" "KnownType lib s \<subseteq>\<^sub>m KnownType lib s'"
proof -
  note agree = assms(2) [unfolded room_def meta_room_def]
  have meta: "agree (MetaTypes lib SchemeGroupVersion) api_kinds"
    using lawsD(6) [OF assms(1)] by (simp add: agree_sym)
  have known: "agree (KnownType lib s ++ api_kinds) (MetaTypes lib SchemeGroupVersion)"
    using agree lawsD(6) [OF assms(1)] by (intro agree_add) simp_all
  then show "room lib s'"
    using agree assms(3) meta unfolding room_def meta_room_def registers_def
    by (auto intro!: agree_add)
  have "KnownType lib s \<subseteq>\<^sub>m KnownType lib s ++ api_kinds"
    using agree by (simp add: agree_le)
  then show "KnownType lib s \<subseteq>\<^sub>m KnownType lib s'"
    using agree_le [OF known] assms(3) unfolding registers_def by (metis map_le_trans)
qed

lemma addKnownTypes_registers:
  assumes "scheme_laws lib" and "room lib s"
  obtains s' where "run_state (addKnownTypes lib) s = (Ok (), s')" "registers lib s s'"
proof -
  obtain t where t: "run_state (AddKnownTypes lib SchemeGroupVersion api_types) s = (Ok (), t)"
    "KnownType lib t = KnownType lib s ++ api_kinds" "UnversionedKind lib t = UnversionedKind lib s"
    using types_registered [OF assms(1)] assms(2) unfolding room_def by blast
  have "meta_room lib SchemeGroupVersion t"
    using assms(2) lawsD(6) [OF assms(1)] unfolding meta_room_def room_def t(2,3) by (blast intro: agree_add)
  then obtain s' where "run_state (AddToGroupVersion lib SchemeGroupVersion) t = (Ok (), s')"
    "KnownType lib s' = KnownType lib t ++ MetaTypes lib SchemeGroupVersion"
    "UnversionedKind lib s' = UnversionedKind lib t ++ MetaUnversioned lib"
    by (rule group_version_registered [OF assms(1) SchemeGroupVersion_external(1)])
  then show thesis
    using t by (intro that [of s']) (simp_all add: addKnownTypes_def and_then_def registers_def)
qed

lemma AddToScheme_registers:
  assumes "scheme_laws lib" and "room lib s"
  obtains s' where "run_state (AddToScheme lib) s = (Ok (), s')" "run_state (fake_AddToScheme lib) s = (Ok (), s')"
    "registers lib s s'"
proof -
  obtain s' where "run_state (addKnownTypes lib) s = (Ok (), s')" "registers lib s s'"
    by (rule addKnownTypes_registers [OF assms])
  then show thesis
    by (intro that) (simp_all add: AddToScheme_def fake_AddToScheme_def localSchemeBuilder_def
      fake_localSchemeBuilder_def v1_AddToScheme_def schemeBuilder_def lawsD(3) [OF assms(1)] and_then_def)
qed

lemma scheme_init_registers:
  assumes "scheme_laws lib"
  defines "v1 \<equiv> \<lparr>gvGroup = [], gvVersion = ''v1''\<rparr>"
  obtains s where "run_state (scheme_init lib) (NewScheme lib) = (Ok (), s)"
    "run_state (fake_scheme_init lib) (NewScheme lib) = (Ok (), s)"
    "KnownType lib s = MetaTypes lib v1 ++ api_kinds ++ MetaTypes lib SchemeGroupVersion"
proof -
  note laws = lawsD [OF assms(1)]
  have v1: "external v1" by (simp add: v1_def SchemeGroupVersion_external(2))
  have "meta_room lib v1 (NewScheme lib)" by (simp add: meta_room_def laws(1,2))
  with assms(1) v1 obtain t where t: "run_state (AddToGroupVersion lib v1) (NewScheme lib) = (Ok (), t)"
    "KnownType lib t = MetaTypes lib v1" "UnversionedKind lib t = MetaUnversioned lib"
    by (rule group_version_registered) (simp add: laws(1,2))
  have "agree (MetaTypes lib v1) api_kinds" using laws(6) by (simp add: agree_sym)
  then have "room lib t"
    using laws(5) [OF v1 SchemeGroupVersion_external(1)] by (simp add: room_def meta_room_def t(2,3))
  with assms(1) obtain s where "run_state (AddToScheme lib) t = (Ok (), s)"
    "run_state (fake_AddToScheme lib) t = (Ok (), s)" "registers lib t s"
    by (rule AddToScheme_registers)
  with t show thesis
    by (intro that [of s])
      (simp_all add: scheme_init_def fake_scheme_init_def and_then_def v1_def [symmetric] laws(4) registers_def)
qed

text \<open>
  C32: The API types are known to the clients.  The packages of the clientset and of its fake initialise
  without a panic, and their schemes then know exactly the kinds \<open>AWSIAMRole\<close> and \<open>AWSIAMRoleList\<close> of
  \<open>zalando.org/v1\<close>, which are decoded to the types of these names, and the common types that the
  library registers for \<open>v1\<close> and for \<open>zalando.org/v1\<close>.  \<open>AddToScheme\<close> adds the same to the scheme of
  any other clientset that has no other types in their places, takes nothing away from that, and can
  be applied again.
\<close>

theorem scheme_types:
  assumes "scheme_laws lib"
  shows "(\<exists>s. run_state (scheme_init lib) (NewScheme lib) = (Ok (), s)
      \<and> run_state (fake_scheme_init lib) (NewScheme lib) = (Ok (), s)
      \<and> KnownType lib s (SchemeGroupVersion, ''AWSIAMRole'') = Some ''*v1.AWSIAMRole''
      \<and> KnownType lib s (SchemeGroupVersion, ''AWSIAMRoleList'') = Some ''*v1.AWSIAMRoleList''
      \<and> KnownType lib s = MetaTypes lib \<lparr>gvGroup = [], gvVersion = ''v1''\<rparr> ++ api_kinds
          ++ MetaTypes lib SchemeGroupVersion)
    \<and> (\<forall>u. room lib u \<longrightarrow> (\<exists>u'. run_state (AddToScheme lib) u = (Ok (), u') \<and> registers lib u u'
          \<and> KnownType lib u \<subseteq>\<^sub>m KnownType lib u' \<and> room lib u'))"
proof -
  obtain s where s: "run_state (scheme_init lib) (NewScheme lib) = (Ok (), s)"
    "run_state (fake_scheme_init lib) (NewScheme lib) = (Ok (), s)"
    "KnownType lib s = MetaTypes lib \<lparr>gvGroup = [], gvVersion = ''v1''\<rparr> ++ api_kinds ++ MetaTypes lib SchemeGroupVersion"
    by (rule scheme_init_registers [OF assms])
  have "MetaTypes lib gv (SchemeGroupVersion, k) = None" if "k \<in> {''AWSIAMRole'', ''AWSIAMRoleList''}" for gv k
  proof -
    have "(SchemeGroupVersion, k) \<in> dom api_kinds" using that by (auto simp: api_kinds_def)
    with lawsD(7) [OF assms, of gv] show ?thesis by blast
  qed
  then have "KnownType lib s (SchemeGroupVersion, ''AWSIAMRole'') = Some ''*v1.AWSIAMRole''"
    "KnownType lib s (SchemeGroupVersion, ''AWSIAMRoleList'') = Some ''*v1.AWSIAMRoleList''"
    by (simp_all add: s(3) map_add_def api_kinds_def)
  moreover have "\<exists>u'. run_state (AddToScheme lib) u = (Ok (), u') \<and> registers lib u u'
      \<and> KnownType lib u \<subseteq>\<^sub>m KnownType lib u' \<and> room lib u'" if room: "room lib u" for u
  proof -
    obtain u' where "run_state (AddToScheme lib) u = (Ok (), u')"
      "run_state (fake_AddToScheme lib) u = (Ok (), u')" "registers lib u u'"
      by (rule AddToScheme_registers [OF assms room])
    with registers_room [OF assms room] show ?thesis by blast
  qed
  ultimately show ?thesis using s by blast
qed

text \<open>
  A scheme that is a pair of maps, with three of the common types: the watch events of a group version,
  their internal type and an unversioned one.
\<close>

definition example_common :: "group_version \<Rightarrow> group_version \<times> string \<rightharpoonup> string" where
  "example_common gv =
     [(gv, ''WatchEvent'') \<mapsto> ''*v1.WatchEvent'',
      (gv\<lparr>gvVersion := ''__internal''\<rparr>, ''WatchEvent'') \<mapsto> ''*v1.InternalEvent'',
      (\<lparr>gvGroup = [], gvVersion = ''v1''\<rparr>, ''Status'') \<mapsto> ''*v1.Status'']"

definition example_scheme_lib :: "((group_version \<times> string \<rightharpoonup> string) \<times> (string \<rightharpoonup> string)) scheme_lib" where
  "example_scheme_lib =
     \<lparr>NewScheme = (Map.empty, Map.empty),
      AddKnownTypes = (\<lambda>gv tys. State (\<lambda>s. (Ok (), fst s ++ kinds_at gv tys, snd s))),
      AddToGroupVersion = (\<lambda>gv. State (\<lambda>s. (Ok (), fst s ++ example_common gv, (snd s)(''Status'' \<mapsto> ''*v1.Status'')))),
      ApplyBuilder = (\<lambda>fs. foldr (\<lambda>f rest. and_then f (\<lambda>_. rest)) fs (ret (Ok ()))),
      Must = (\<lambda>r. r), KnownType = fst, UnversionedKind = snd, MetaTypes = example_common,
      MetaUnversioned = [''Status'' \<mapsto> ''*v1.Status'']\<rparr>"

lemma example_common_law: "common_law example_scheme_lib"
proof -
  have "agree (example_common gv) (example_common gv')" if "external gv" "external gv'" for gv gv'
    using that by (auto simp: agree_def example_common_def external_def)
  moreover have "dom (example_common gv) \<inter> dom (kinds_at gv' api_types) = {}" for gv gv'
    by (auto simp: example_common_def kinds_at_def kinds)
  ultimately show ?thesis by (simp add: common_law_def example_scheme_lib_def)
qed

theorem scheme_types_witness:
  "\<exists>s. run_state (scheme_init example_scheme_lib) (Map.empty, Map.empty) = (Ok (), s)
    \<and> fst s (SchemeGroupVersion, ''AWSIAMRole'') = Some ''*v1.AWSIAMRole''
    \<and> fst s (SchemeGroupVersion\<lparr>gvVersion := ''__internal''\<rparr>, ''WatchEvent'') = Some ''*v1.InternalEvent''"
proof -
  have "types_law example_scheme_lib gv tys s" "meta_law example_scheme_lib gv s" for gv tys s
    by (simp_all add: types_law_def meta_law_def example_scheme_lib_def)
  then have "scheme_laws example_scheme_lib"
    using example_common_law by (simp add: scheme_laws_def) (simp add: example_scheme_lib_def)
  from scheme_types [OF this] show ?thesis
    by (auto simp: example_scheme_lib_def map_add_def example_common_def api_kinds_def split: option.splits)
qed

end
