(* ===== verification/Listers.thy ===== *)
theory Listers
  imports Informers Scheme
begin

text \<open>
  The listers: \<^verbatim>\<open>pkg/client/listers/zalando.org/v1/awsiamrole.go\<close> and the \<open>Lister\<close> methods of the
  informers, typed and generic.  Indexers and the listers over them are client-go's and a parameter
  (\<open>lister_lib\<close>): what they return is the content of the indexer they were made of.
\<close>

record ('i, 'x, 'l) lister_lib =
  GetIndexer :: "'i \<Rightarrow> 'x"
  ListersNew :: "'x \<Rightarrow> string \<times> string \<Rightarrow> 'l"
  NewNamespaced :: "'l \<Rightarrow> string \<Rightarrow> 'l"
  NewGenericLister :: "'x \<Rightarrow> string \<times> string \<Rightarrow> 'l"

definition NewAWSIAMRoleLister :: "('i, 'x, 'l) lister_lib \<Rightarrow> 'x \<Rightarrow> 'l" where
  "NewAWSIAMRoleLister llib indexer = ListersNew llib indexer (group_resource ''awsiamrole'')"

definition lister_AWSIAMRoles :: "('i, 'x, 'l) lister_lib \<Rightarrow> 'l \<Rightarrow> string \<Rightarrow> 'l" where
  "lister_AWSIAMRoles llib s namespace = NewNamespaced llib s namespace"

text \<open>\<open>Lister\<close> of the typed informer, which asks the factory for its informer, and of a generic one.\<close>

definition AWSIAMRole_Lister :: "('c, 'i, 't, 'h) informer_lib \<Rightarrow> ('i, 'x, 'l) lister_lib \<Rightarrow> accessor
    \<Rightarrow> ('c, 'i, 't, 's) factory \<Rightarrow> 'h \<Rightarrow> 'l \<times> ('c, 'i, 't, 's) factory \<times> 'h" where
  "AWSIAMRole_Lister lib llib a f h =
     (case AWSIAMRole_Informer lib a f h of
        (i, f', h') \<Rightarrow> (NewAWSIAMRoleLister llib (GetIndexer llib i), f', h'))"

definition generic_Informer :: "'i generic_informer \<Rightarrow> 'i" where
  "generic_Informer g = giInformer g"

definition generic_Lister :: "('i, 'x, 'l) lister_lib \<Rightarrow> 'i generic_informer \<Rightarrow> 'l" where
  "generic_Lister llib g = NewGenericLister llib (GetIndexer llib (generic_Informer g)) (giResource g)"

lemma AWSIAMRole_Informer_known:
  assumes "AWSIAMRole_Informer lib a (fac s) (lib_state s) = (i, f', h')"
    and "factory_run lib (s\<lparr>fac := f', lib_state := h'\<rparr>) s'"
  shows "AWSIAMRole_Informer lib b (fac s') (lib_state s') = (i, fac s', lib_state s')"
proof -
  have "map_of (informers f') ''*v1.AWSIAMRole'' = Some i"
    using assms(1) unfolding AWSIAMRole_Informer_def by (rule InformerFor_kept)
  then have "map_of (informers (fac s')) ''*v1.AWSIAMRole'' = Some i"
    using informer_kept_run [OF assms(2)] by simp
  then show ?thesis unfolding AWSIAMRole_Informer_def by (rule InformerFor_known)
qed

text \<open>
  All ways to the roles lead to one cache.  Once the factory has been asked for the informer of roles,
  then at any later time, whatever else has been asked, started or shut down, the lister of any
  accessor, the lister of a namespace and the generic lister read the indexer of that informer and make
  no other; so the first to ask decides the namespace and the options for all.  The lister is for the
  singular of the resource that the generic one is for, in the same group.
\<close>

theorem one_cache:
  assumes "AWSIAMRole_Informer lib a (fac s) (lib_state s) = (i, f', h')"
    and "factory_run lib (s\<lparr>fac := f', lib_state := h'\<rparr>) s'"
  shows "AWSIAMRole_Lister lib llib b (fac s') (lib_state s') =
      (ListersNew llib (GetIndexer llib i) (''zalando.org'', ''awsiamrole''), fac s', lib_state s')
    \<and> lister_AWSIAMRoles llib (fst (AWSIAMRole_Lister lib llib b (fac s') (lib_state s'))) ns =
        NewNamespaced llib (ListersNew llib (GetIndexer llib i) (''zalando.org'', ''awsiamrole'')) ns
    \<and> (\<exists>g. ForResource lib awsiamroles_resource (fac s') (lib_state s') = (Inr g, fac s', lib_state s')
        \<and> generic_Informer g = i
        \<and> generic_Lister llib g = NewGenericLister llib (GetIndexer llib i) (''zalando.org'', ''awsiamroles''))"
  using AWSIAMRole_Informer_known [OF assms]
  by (simp add: AWSIAMRole_Lister_def NewAWSIAMRoleLister_def group_resource_def SchemeGroupVersion_def
    lister_AWSIAMRoles_def ForResource_def generic_Informer_def generic_Lister_def awsiamroles_resource_def)

text \<open>Listers that show what they were made of.\<close>

definition example_lister_lib :: "(nat, nat, nat \<times> string \<times> string) lister_lib" where
  "example_lister_lib =
     \<lparr>GetIndexer = Suc, ListersNew = (\<lambda>x (g, r). (x, g, r)), NewNamespaced = (\<lambda>(x, g, r) ns. (x, g, ns)),
      NewGenericLister = (\<lambda>x (g, r). (x, g, r))\<rparr>"

theorem one_cache_witness:
  "fst (AWSIAMRole_Lister example_lib example_lister_lib (AWSIAMRoles (V1 (Zalando example_factory)))
      (Start () example_asked) 1) = (1, ''zalando.org'', ''awsiamrole'')"
proof -
  let ?s = "fresh_state example_factory 0" and ?a = "AWSIAMRoles (V1 (Zalando example_factory))"
  have first: "AWSIAMRole_Informer example_lib ?a (fac ?s) (lib_state ?s) = (0, example_asked, 1)"
    using example_InformerFor by (simp add: AWSIAMRole_Informer_def fresh_state_def)
  have run: "factory_run example_lib (?s\<lparr>fac := example_asked, lib_state := 1\<rparr>) example_started"
    using factory_step.start [of example_lib "fresh_state example_asked 1" "()"]
    by (intro r_into_rtranclp) (simp add: fresh_state_def spawned_by_def Start_def start_informer_def is_started_def
      example_asked_def NewSharedInformerFactoryWithOptions_def option_defs example_started_def)
  from one_cache [OF first run, of example_lister_lib ?a] show ?thesis
    by (simp add: example_started_def fresh_state_def example_lister_lib_def)
qed

end
