(* ===== verification/FakeClientset.thy ===== *)
theory FakeClientset
  imports Listers
begin

text \<open>
  The fake clientset that the tests use: \<^verbatim>\<open>fake/clientset_generated.go\<close> and the fake clients under
  \<^verbatim>\<open>typed/zalando.org/v1/fake\<close>.  The object tracker and the chains of reactors are client-go's and a
  parameter (\<open>fake_lib\<close>); the tracker is a state \<open>'t\<close>, which the reactors that hold it read and change.
\<close>

section \<open>The library\<close>

text \<open>An action; \<open>watchOptions\<close> are those of a \<open>WatchActionImpl\<close>, which other actions do not have.\<close>

record action =
  actResource :: group_version_resource
  actNamespace :: string
  watchOptions :: "list_options option"

text \<open>What a watch reaction returns: whether it has handled the action, the watch, and the error.\<close>

type_synonym ('t, 'v) watch_reaction = "action \<Rightarrow> 't \<Rightarrow> (bool \<times> 'v option \<times> error option) \<times> 't"

record ('f, 't, 'r, 'v, 'o) fake_lib =
  NewObjectTracker :: 't
  TrackerAdd :: "'o \<Rightarrow> 't \<Rightarrow> error option \<times> 't"
  TrackerWatch :: "group_version_resource \<Rightarrow> string \<Rightarrow> list_options \<Rightarrow> 't \<Rightarrow> (error + 'v) \<times> 't"
  ObjectReaction :: 'r
  NewFake :: 'f
  AddReactor :: "string \<Rightarrow> string \<Rightarrow> 'r \<Rightarrow> 'f \<Rightarrow> 'f"
  AddWatchReactor :: "string \<Rightarrow> ('t, 'v) watch_reaction \<Rightarrow> 'f \<Rightarrow> 'f"

section \<open>The clientset\<close>

record ('f, 't) fake_clientset =
  Fake :: 'f
  tracker :: 't

definition add_object :: "('f, 't, 'r, 'v, 'o) fake_lib \<Rightarrow> 'o \<Rightarrow> unit \<Rightarrow> ('t, unit outcome) state" where
  "add_object lib obj u = State (\<lambda>t. case TrackerAdd lib obj t of
     (None, t') \<Rightarrow> (Ok (), t')
   | (Some err, t') \<Rightarrow> (Panic err, t'))"

definition fake_watch_reaction :: "('f, 't, 'r, 'v, 'o) fake_lib \<Rightarrow> ('t, 'v) watch_reaction" where
  "fake_watch_reaction lib action t =
     (let opts = (case watchOptions action of
                    Some opts \<Rightarrow> opts
                  | None \<Rightarrow> \<lparr>LabelSelector = [], FieldSelector = []\<rparr>);
          gvr = actResource action;
          ns = actNamespace action
      in case TrackerWatch lib gvr ns opts t of
           (Inl err, t') \<Rightarrow> ((False, None, Some err), t')
         | (Inr watch, t') \<Rightarrow> ((True, Some watch, None), t'))"

definition NewSimpleClientset :: "('f, 't, 'r, 'v, 'o) fake_lib \<Rightarrow> 'o list \<Rightarrow> ('f, 't) fake_clientset outcome" where
  "NewSimpleClientset lib objects =
     (case run_state (for_range (add_object lib) objects ()) (NewObjectTracker lib) of
        (Ok u, t) \<Rightarrow> Ok \<lparr>Fake = AddWatchReactor lib ''*'' (fake_watch_reaction lib)
                            (AddReactor lib ''*'' ''*'' (ObjectReaction lib) (NewFake lib)), tracker = t\<rparr>
      | (Err err, t) \<Rightarrow> Err err
      | (Panic m, t) \<Rightarrow> Panic m)"

text \<open>The accessors; the discovery client is made of the fake alone.\<close>

definition fake_Discovery :: "('f, 't) fake_clientset \<Rightarrow> 'f" where
  "fake_Discovery c = Fake c"

definition Tracker :: "('f, 't) fake_clientset \<Rightarrow> 't" where
  "Tracker c = tracker c"

definition IsWatchListSemanticsUnSupported :: "('f, 't) fake_clientset \<Rightarrow> bool" where
  "IsWatchListSemanticsUnSupported c = True"

record 'f fake_zalando =
  fzFake :: 'f

definition fake_ZalandoV1 :: "('f, 't) fake_clientset \<Rightarrow> 'f fake_zalando" where
  "fake_ZalandoV1 c = \<lparr>fzFake = Fake c\<rparr>"

text \<open>The fake's REST client is a nil pointer.\<close>

definition fake_RESTClient :: "'f fake_zalando \<Rightarrow> 'o option" where
  "fake_RESTClient c = None"

record role_list =
  ListMeta :: string
  Items :: "awsiamrole list"

record 'f fake_roles =
  frFake :: 'f
  frNamespace :: string
  frResource :: group_version_resource
  frKind :: "group_version \<times> string"
  copyListMeta :: "role_list \<Rightarrow> role_list \<Rightarrow> role_list"
  getItems :: "role_list \<Rightarrow> awsiamrole list"
  setItems :: "role_list \<Rightarrow> awsiamrole list \<Rightarrow> role_list"

definition with_resource :: "group_version \<Rightarrow> string \<Rightarrow> group_version_resource" where
  "with_resource gv resource = \<lparr>gvrGroup = gvGroup gv, gvrVersion = gvVersion gv, gvrResource = resource\<rparr>"

definition newFakeAWSIAMRoles :: "'f fake_zalando \<Rightarrow> string \<Rightarrow> 'f fake_roles" where
  "newFakeAWSIAMRoles fake namespace =
     \<lparr>frFake = fzFake fake, frNamespace = namespace,
      frResource = with_resource SchemeGroupVersion ''awsiamroles'',
      frKind = (SchemeGroupVersion, ''AWSIAMRole''),
      copyListMeta = (\<lambda>dst src. dst\<lparr>ListMeta := ListMeta src\<rparr>),
      getItems = Items, setItems = (\<lambda>list items. list\<lparr>Items := items\<rparr>)\<rparr>"

definition fake_AWSIAMRoles :: "'f fake_zalando \<Rightarrow> string \<Rightarrow> 'f fake_roles" where
  "fake_AWSIAMRoles c namespace = newFakeAWSIAMRoles c namespace"

section \<open>What it does\<close>

definition given_options :: "action \<Rightarrow> list_options" where
  "given_options a =
     (case watchOptions a of Some opts \<Rightarrow> opts | None \<Rightarrow> \<lparr>LabelSelector = [], FieldSelector = []\<rparr>)"

primrec tracked :: "('f, 't, 'r, 'v, 'o) fake_lib \<Rightarrow> 'o list \<Rightarrow> 't \<Rightarrow> error + 't" where
  "tracked lib [] t = Inr t"
| "tracked lib (obj # objects) t =
     (case TrackerAdd lib obj t of (None, t') \<Rightarrow> tracked lib objects t' | (Some err, t') \<Rightarrow> Inl err)"

lemma add_objects_tracked:
  assumes "tracked lib objects t = Inr t'"
  shows "run_state (for_range (add_object lib) objects ()) t = (Ok (), t')"
  using assms
proof (induction objects arbitrary: t)
  case (Cons obj objects)
  then show ?case
    by (cases "TrackerAdd lib obj t") (auto simp: add_object_def split: option.splits)
qed simp

lemma add_objects_refused:
  assumes "tracked lib objects t = Inl err"
  shows "\<exists>t'. run_state (for_range (add_object lib) objects ()) t = (Panic err, t')"
  using assms
proof (induction objects arbitrary: t)
  case (Cons obj objects)
  then show ?case
    by (cases "TrackerAdd lib obj t") (auto simp: add_object_def split: option.splits)
qed simp

text \<open>
  The fake stands in for the generated clients.  Made of objects, it holds what its tracker makes of
  them one after the other, or panics with the error of the first that the tracker refuses; a watch is
  handled exactly when the tracker grants it, and otherwise left to the rest of the chain with the
  tracker's error; and the fake client of roles is for the resource that the generated client, the
  informers and the generic lister are for, in the group version in which the schemes know its kind.
\<close>

theorem fake_stands_in:
  "(case tracked lib objects (NewObjectTracker lib) of
      Inl err \<Rightarrow> NewSimpleClientset lib objects = Panic err
    | Inr t \<Rightarrow> \<exists>cs. NewSimpleClientset lib objects = Ok cs \<and> Tracker cs = t)
   \<and> (case fst (TrackerWatch lib (actResource a) (actNamespace a) (given_options a) t) of
      Inl err \<Rightarrow> fst (fake_watch_reaction lib a t) = (False, None, Some err)
    | Inr w \<Rightarrow> fst (fake_watch_reaction lib a t) = (True, Some w, None))
   \<and> frResource (fake_AWSIAMRoles fz ns) = awsiamroles_resource
   \<and> gvrResource awsiamroles_resource = rolesResource (newAWSIAMRoles c ns)
   \<and> frKind (fake_AWSIAMRoles fz ns) = (SchemeGroupVersion, kind_of ''*v1.AWSIAMRole'')"
proof -
  have new: "NewSimpleClientset lib objects = Panic err" if "tracked lib objects (NewObjectTracker lib) = Inl err" for err
    using add_objects_refused [OF that] by (auto simp: NewSimpleClientset_def)
  have "\<exists>cs. NewSimpleClientset lib objects = Ok cs \<and> Tracker cs = t"
    if "tracked lib objects (NewObjectTracker lib) = Inr t" for t
    using add_objects_tracked [OF that] by (simp add: NewSimpleClientset_def Tracker_def)
  with new show ?thesis
    by (auto simp: fake_watch_reaction_def given_options_def fake_AWSIAMRoles_def newFakeAWSIAMRoles_def
      with_resource_def awsiamroles_resource_def SchemeGroupVersion_def newAWSIAMRoles_def kinds Let_def
      split: sum.split prod.split option.split)
qed

end
