(* ===== verification/DeepCopy.thy ===== *)
theory DeepCopy
  imports ApiTypes
begin

text \<open>
  The generated deep copies of \<^verbatim>\<open>pkg/apis/zalando.org/v1/zz_generated.deepcopy.go\<close>, on a memory in
  which a struct holds its pointers, maps and slices as addresses.  A Go value is well-formed in a
  memory when its addresses hold cells of their types; what it stands for is the value that the
  rest of the library works with.  \<open>DeepCopyInto\<close> of a struct takes the struct and yields the one it
  writes to \<open>out\<close>.  The deep copies of \<open>metav1.ObjectMeta\<close>, \<open>metav1.ListMeta\<close> and \<open>metav1.Time\<close> are
  the library's (\<open>copy_lib\<close>).
\<close>

section \<open>Memory\<close>

type_synonym addr = nat

text \<open>Of the object metadata the fields that \<^typ>\<open>object_meta\<close> has; labels are a map, the owners a slice.\<close>

record go_meta =
  gmName :: string
  gmNamespace :: string
  gmUID :: string
  gmResourceVersion :: string
  gmGeneration :: int64
  gmLabels :: "addr option"
  gmOwners :: "addr option"

record go_status =
  gsObserved :: "addr option"
  gsRoleARN :: string
  gsExpiration :: "addr option"

record go_role =
  grType :: type_meta
  grMeta :: go_meta
  grSpec :: awsiamrole_spec
  grStatus :: go_status

record go_list_meta =
  lmResourceVersion :: string
  lmContinue :: string
  lmRemaining :: "addr option"

record go_list =
  glType :: type_meta
  glMeta :: go_list_meta
  glItems :: "addr option"

datatype cell =
  CInt int64
| CTime gotime
| CLabels string_map
| COwners "owner_reference list"
| CSpec awsiamrole_spec
| CStatus go_status
| CRole go_role
| CRoles "go_role list"
| CList go_list

text \<open>Addresses from \<open>next\<close> on are free.\<close>

record memory =
  mem :: "addr \<rightharpoonup> cell"
  next_addr :: addr

definition memory_ok :: "memory \<Rightarrow> bool" where
  "memory_ok h \<longleftrightarrow> (\<forall>a. mem h a \<noteq> None \<longrightarrow> a < next_addr h)"

definition alloc :: "cell \<Rightarrow> memory \<Rightarrow> addr \<times> memory" where
  "alloc c h = (next_addr h, h\<lparr>mem := (mem h)(next_addr h \<mapsto> c), next_addr := Suc (next_addr h)\<rparr>)"

text \<open>Reads through pointers; on well-formed values they find a cell of the type.\<close>

definition int_at :: "memory \<Rightarrow> addr \<Rightarrow> int64" where
  "int_at h a = (case mem h a of Some (CInt n) \<Rightarrow> n | _ \<Rightarrow> 0)"

definition time_at :: "memory \<Rightarrow> addr \<Rightarrow> gotime" where
  "time_at h a = (case mem h a of Some (CTime t) \<Rightarrow> t | _ \<Rightarrow> \<lparr>at = Instant 0, zone_offset = 0\<rparr>)"

definition labels_at :: "memory \<Rightarrow> addr \<Rightarrow> string_map" where
  "labels_at h a = (case mem h a of Some (CLabels m) \<Rightarrow> m | _ \<Rightarrow> Map.empty)"

definition owners_at :: "memory \<Rightarrow> addr \<Rightarrow> owner_reference list" where
  "owners_at h a = (case mem h a of Some (COwners rs) \<Rightarrow> rs | _ \<Rightarrow> [])"

definition roles_at :: "memory \<Rightarrow> addr \<Rightarrow> go_role list" where
  "roles_at h a = (case mem h a of Some (CRoles rs) \<Rightarrow> rs | _ \<Rightarrow> [])"

section \<open>The copies\<close>

record copy_lib =
  MetaDeepCopy :: "go_meta \<Rightarrow> memory \<Rightarrow> go_meta \<times> memory"
  ListMetaDeepCopy :: "go_list_meta \<Rightarrow> memory \<Rightarrow> go_list_meta \<times> memory"
  TimeDeepCopy :: "addr \<Rightarrow> memory \<Rightarrow> addr \<times> memory"

text \<open>A pointer field: nil stays nil, and what it points to is copied otherwise.\<close>

definition copy_pointer :: "(addr \<Rightarrow> memory \<Rightarrow> addr \<times> memory) \<Rightarrow> addr option \<Rightarrow> memory \<Rightarrow> addr option \<times> memory" where
  "copy_pointer copy p h =
     (case p of None \<Rightarrow> (None, h) | Some a \<Rightarrow> (case copy a h of (b, h') \<Rightarrow> (Some b, h')))"

definition copy_int :: "addr \<Rightarrow> memory \<Rightarrow> addr \<times> memory" where
  "copy_int a h = alloc (CInt (int_at h a)) h"

definition status_DeepCopyInto :: "copy_lib \<Rightarrow> go_status \<Rightarrow> memory \<Rightarrow> go_status \<times> memory" where
  "status_DeepCopyInto lib st h =
     (let (observed, h) = copy_pointer copy_int (gsObserved st) h;
          (expiration, h) = copy_pointer (TimeDeepCopy lib) (gsExpiration st) h
      in (st\<lparr>gsObserved := observed, gsExpiration := expiration\<rparr>, h))"

definition spec_DeepCopyInto :: "awsiamrole_spec \<Rightarrow> awsiamrole_spec" where
  "spec_DeepCopyInto sp = sp"

definition role_DeepCopyInto :: "copy_lib \<Rightarrow> go_role \<Rightarrow> memory \<Rightarrow> go_role \<times> memory" where
  "role_DeepCopyInto lib r h =
     (let (m, h) = MetaDeepCopy lib (grMeta r) h;
          (st, h) = status_DeepCopyInto lib (grStatus r) h
      in (r\<lparr>grMeta := m, grStatus := st\<rparr>, h))"

fun items_DeepCopyInto :: "copy_lib \<Rightarrow> go_role list \<Rightarrow> memory \<Rightarrow> go_role list \<times> memory" where
  "items_DeepCopyInto lib [] h = ([], h)"
| "items_DeepCopyInto lib (r # rs) h =
     (let (r', h) = role_DeepCopyInto lib r h; (rs', h) = items_DeepCopyInto lib rs h in (r' # rs', h))"

text \<open>A nil slice stays nil, an empty one is made anew.\<close>

definition list_DeepCopyInto :: "copy_lib \<Rightarrow> go_list \<Rightarrow> memory \<Rightarrow> go_list \<times> memory" where
  "list_DeepCopyInto lib l h =
     (let (m, h) = ListMetaDeepCopy lib (glMeta l) h
      in case glItems l of
           None \<Rightarrow> (l\<lparr>glMeta := m\<rparr>, h)
         | Some a \<Rightarrow>
             (let (rs, h) = items_DeepCopyInto lib (roles_at h a) h; (b, h) = alloc (CRoles rs) h
              in (l\<lparr>glMeta := m, glItems := Some b\<rparr>, h)))"

text \<open>
  \<open>DeepCopy\<close> of a pointer: nil for nil, else a new struct.  It is allocated before its fields here and
  after them there, which makes no difference but to the addresses.
\<close>

definition new_copy :: "('a \<Rightarrow> memory \<Rightarrow> 'a \<times> memory) \<Rightarrow> ('a \<Rightarrow> cell) \<Rightarrow> 'a \<Rightarrow> memory \<Rightarrow> addr \<times> memory" where
  "new_copy copy mk x h = (case copy x h of (x', h') \<Rightarrow> alloc (mk x') h')"

definition role_DeepCopy :: "copy_lib \<Rightarrow> addr option \<Rightarrow> memory \<Rightarrow> addr option \<times> memory" where
  "role_DeepCopy lib p h =
     (case p of
        Some a \<Rightarrow> (case mem h a of
            Some (CRole r) \<Rightarrow> (case new_copy (role_DeepCopyInto lib) CRole r h of (b, h') \<Rightarrow> (Some b, h'))
          | _ \<Rightarrow> (None, h))
      | None \<Rightarrow> (None, h))"

definition list_DeepCopy :: "copy_lib \<Rightarrow> addr option \<Rightarrow> memory \<Rightarrow> addr option \<times> memory" where
  "list_DeepCopy lib p h =
     (case p of
        Some a \<Rightarrow> (case mem h a of
            Some (CList l) \<Rightarrow> (case new_copy (list_DeepCopyInto lib) CList l h of (b, h') \<Rightarrow> (Some b, h'))
          | _ \<Rightarrow> (None, h))
      | None \<Rightarrow> (None, h))"

definition spec_DeepCopy :: "addr option \<Rightarrow> memory \<Rightarrow> addr option \<times> memory" where
  "spec_DeepCopy p h =
     (case p of
        Some a \<Rightarrow> (case mem h a of
            Some (CSpec sp) \<Rightarrow> (case alloc (CSpec (spec_DeepCopyInto sp)) h of (b, h') \<Rightarrow> (Some b, h'))
          | _ \<Rightarrow> (None, h))
      | None \<Rightarrow> (None, h))"

definition status_DeepCopy :: "copy_lib \<Rightarrow> addr option \<Rightarrow> memory \<Rightarrow> addr option \<times> memory" where
  "status_DeepCopy lib p h =
     (case p of
        Some a \<Rightarrow> (case mem h a of
            Some (CStatus st) \<Rightarrow> (case new_copy (status_DeepCopyInto lib) CStatus st h of (b, h') \<Rightarrow> (Some b, h'))
          | _ \<Rightarrow> (None, h))
      | None \<Rightarrow> (None, h))"

text \<open>\<open>DeepCopyObject\<close> returns the copy as an interface, and an untyped nil for nil.\<close>

datatype runtime_object = RoleObject addr | ListObject addr

definition role_DeepCopyObject :: "copy_lib \<Rightarrow> addr option \<Rightarrow> memory \<Rightarrow> runtime_object option \<times> memory" where
  "role_DeepCopyObject lib p h =
     (case role_DeepCopy lib p h of (Some c, h') \<Rightarrow> (Some (RoleObject c), h') | (None, h') \<Rightarrow> (None, h'))"

definition list_DeepCopyObject :: "copy_lib \<Rightarrow> addr option \<Rightarrow> memory \<Rightarrow> runtime_object option \<times> memory" where
  "list_DeepCopyObject lib p h =
     (case list_DeepCopy lib p h of (Some c, h') \<Rightarrow> (Some (ListObject c), h') | (None, h') \<Rightarrow> (None, h'))"

section \<open>What Go values stand for\<close>

text \<open>
  For every type: when a value is well-formed in a memory, what it stands for there, and the cells it
  reaches, by its pointers and those of what they point to.
\<close>

definition int_ok :: "addr option \<Rightarrow> memory \<Rightarrow> bool" where
  "int_ok p h \<longleftrightarrow> (\<forall>a. p = Some a \<longrightarrow> (\<exists>n. mem h a = Some (CInt n)))"

definition int_value :: "memory \<Rightarrow> addr option \<Rightarrow> int64 option" where
  "int_value h p = map_option (int_at h) p"

definition time_ok :: "addr option \<Rightarrow> memory \<Rightarrow> bool" where
  "time_ok p h \<longleftrightarrow> (\<forall>a. p = Some a \<longrightarrow> (\<exists>t. mem h a = Some (CTime t)))"

definition time_value :: "memory \<Rightarrow> addr option \<Rightarrow> gotime option" where
  "time_value h p = map_option (time_at h) p"

definition field_cells :: "memory \<Rightarrow> addr option \<Rightarrow> addr set" where
  "field_cells h p = set_option p"

definition labels_ok :: "addr option \<Rightarrow> memory \<Rightarrow> bool" where
  "labels_ok p h \<longleftrightarrow> (\<forall>a. p = Some a \<longrightarrow> (\<exists>l. mem h a = Some (CLabels l)))"

definition labels_value :: "memory \<Rightarrow> addr option \<Rightarrow> string_map" where
  "labels_value h p = (case p of None \<Rightarrow> Map.empty | Some a \<Rightarrow> labels_at h a)"

definition owners_ok :: "addr option \<Rightarrow> memory \<Rightarrow> bool" where
  "owners_ok p h \<longleftrightarrow> (\<forall>a. p = Some a \<longrightarrow> (\<exists>rs. mem h a = Some (COwners rs)))"

definition owners_value :: "memory \<Rightarrow> addr option \<Rightarrow> owner_reference list" where
  "owners_value h p = (case p of None \<Rightarrow> [] | Some a \<Rightarrow> owners_at h a)"

definition meta_ok :: "go_meta \<Rightarrow> memory \<Rightarrow> bool" where
  "meta_ok m h \<longleftrightarrow> labels_ok (gmLabels m) h \<and> owners_ok (gmOwners m) h"

definition meta_value :: "memory \<Rightarrow> go_meta \<Rightarrow> object_meta" where
  "meta_value h m =
     \<lparr>Name = gmName m, Namespace = gmNamespace m, UID = gmUID m, ResourceVersion = gmResourceVersion m,
      Generation = gmGeneration m,
      Labels = labels_value h (gmLabels m), OwnerReferences = owners_value h (gmOwners m)\<rparr>"

definition meta_cells :: "memory \<Rightarrow> go_meta \<Rightarrow> addr set" where
  "meta_cells h m = field_cells h (gmLabels m) \<union> field_cells h (gmOwners m)"

definition status_ok :: "go_status \<Rightarrow> memory \<Rightarrow> bool" where
  "status_ok st h \<longleftrightarrow> int_ok (gsObserved st) h \<and> time_ok (gsExpiration st) h"

definition status_value :: "memory \<Rightarrow> go_status \<Rightarrow> awsiamrole_status" where
  "status_value h st =
     \<lparr>ObservedGeneration = int_value h (gsObserved st), statusRoleARN = gsRoleARN st,
      statusExpiration = time_value h (gsExpiration st)\<rparr>"

definition status_cells :: "memory \<Rightarrow> go_status \<Rightarrow> addr set" where
  "status_cells h st = field_cells h (gsObserved st) \<union> field_cells h (gsExpiration st)"

definition role_ok :: "go_role \<Rightarrow> memory \<Rightarrow> bool" where
  "role_ok r h \<longleftrightarrow> meta_ok (grMeta r) h \<and> status_ok (grStatus r) h"

definition role_value :: "memory \<Rightarrow> go_role \<Rightarrow> awsiamrole" where
  "role_value h r =
     \<lparr>RoleTypeMeta = grType r, RoleMeta = meta_value h (grMeta r), Spec = grSpec r,
      Status = status_value h (grStatus r)\<rparr>"

definition role_cells :: "memory \<Rightarrow> go_role \<Rightarrow> addr set" where
  "role_cells h r = meta_cells h (grMeta r) \<union> status_cells h (grStatus r)"

text \<open>A spec holds no pointers.\<close>

definition spec_ok :: "awsiamrole_spec \<Rightarrow> memory \<Rightarrow> bool" where
  "spec_ok sp h \<longleftrightarrow> True"

definition spec_value :: "memory \<Rightarrow> awsiamrole_spec \<Rightarrow> awsiamrole_spec" where
  "spec_value h sp = sp"

definition spec_cells :: "memory \<Rightarrow> awsiamrole_spec \<Rightarrow> addr set" where
  "spec_cells h sp = {}"

definition items_ok :: "go_role list \<Rightarrow> memory \<Rightarrow> bool" where
  "items_ok rs h \<longleftrightarrow> (\<forall>r \<in> set rs. role_ok r h)"

definition items_value :: "memory \<Rightarrow> go_role list \<Rightarrow> awsiamrole list" where
  "items_value h rs = map (role_value h) rs"

definition items_cells :: "memory \<Rightarrow> go_role list \<Rightarrow> addr set" where
  "items_cells h rs = (\<Union>r \<in> set rs. role_cells h r)"

definition list_meta_ok :: "go_list_meta \<Rightarrow> memory \<Rightarrow> bool" where
  "list_meta_ok m h \<longleftrightarrow> int_ok (lmRemaining m) h"

definition list_meta_value :: "memory \<Rightarrow> go_list_meta \<Rightarrow> string \<times> string \<times> int64 option" where
  "list_meta_value h m = (lmResourceVersion m, lmContinue m, int_value h (lmRemaining m))"

definition list_meta_cells :: "memory \<Rightarrow> go_list_meta \<Rightarrow> addr set" where
  "list_meta_cells h m = field_cells h (lmRemaining m)"

definition list_ok :: "go_list \<Rightarrow> memory \<Rightarrow> bool" where
  "list_ok l h \<longleftrightarrow> list_meta_ok (glMeta l) h
     \<and> (\<forall>a. glItems l = Some a \<longrightarrow> (\<exists>rs. mem h a = Some (CRoles rs) \<and> items_ok rs h))"

definition list_value ::
    "memory \<Rightarrow> go_list \<Rightarrow> type_meta \<times> (string \<times> string \<times> int64 option) \<times> awsiamrole list option" where
  "list_value h l = (glType l, list_meta_value h (glMeta l),
     map_option (\<lambda>a. items_value h (roles_at h a)) (glItems l))"

definition list_cells :: "memory \<Rightarrow> go_list \<Rightarrow> addr set" where
  "list_cells h l = list_meta_cells h (glMeta l)
     \<union> (\<Union>a \<in> set_option (glItems l). insert a (items_cells h (roles_at h a)))"

text \<open>Pointers to structs: \<open>sel\<close> reads the struct out of a cell.\<close>

definition cell_role :: "cell \<Rightarrow> go_role option" where
  "cell_role c = (case c of CRole r \<Rightarrow> Some r | _ \<Rightarrow> None)"

definition cell_list :: "cell \<Rightarrow> go_list option" where
  "cell_list c = (case c of CList l \<Rightarrow> Some l | _ \<Rightarrow> None)"

definition cell_spec :: "cell \<Rightarrow> awsiamrole_spec option" where
  "cell_spec c = (case c of CSpec sp \<Rightarrow> Some sp | _ \<Rightarrow> None)"

definition cell_status :: "cell \<Rightarrow> go_status option" where
  "cell_status c = (case c of CStatus st \<Rightarrow> Some st | _ \<Rightarrow> None)"

lemma cell_iff:
  "cell_role c = Some r \<longleftrightarrow> c = CRole r" "cell_list c = Some l \<longleftrightarrow> c = CList l"
  "cell_spec c = Some sp \<longleftrightarrow> c = CSpec sp" "cell_status c = Some st \<longleftrightarrow> c = CStatus st"
  by (cases c; auto simp: cell_role_def cell_list_def cell_spec_def cell_status_def)+

definition struct_at :: "(cell \<Rightarrow> 'a option) \<Rightarrow> memory \<Rightarrow> addr \<Rightarrow> 'a option" where
  "struct_at sel h p = Option.bind (mem h p) sel"

definition ptr_ok :: "(cell \<Rightarrow> 'a option) \<Rightarrow> ('a \<Rightarrow> memory \<Rightarrow> bool) \<Rightarrow> addr \<Rightarrow> memory \<Rightarrow> bool" where
  "ptr_ok sel ok p h \<longleftrightarrow> (\<exists>x. struct_at sel h p = Some x \<and> ok x h)"

definition ptr_value :: "(cell \<Rightarrow> 'a option) \<Rightarrow> (memory \<Rightarrow> 'a \<Rightarrow> 'v) \<Rightarrow> memory \<Rightarrow> addr \<Rightarrow> 'v option" where
  "ptr_value sel val h p = map_option (val h) (struct_at sel h p)"

definition ptr_cells :: "(cell \<Rightarrow> 'a option) \<Rightarrow> (memory \<Rightarrow> 'a \<Rightarrow> addr set) \<Rightarrow> memory \<Rightarrow> addr \<Rightarrow> addr set" where
  "ptr_cells sel cells h p = insert p (\<Union>x \<in> set_option (struct_at sel h p). cells h x)"

section \<open>Values depend on their cells only\<close>

definition overwrite :: "addr \<Rightarrow> cell \<Rightarrow> memory \<Rightarrow> memory" where
  "overwrite a c h = h\<lparr>mem := (mem h)(a \<mapsto> c)\<rparr>"

text \<open>
  A copy function is right when its result is well-formed, stands for the same value, and reaches new
  cells only, while all old cells stay as they were.
\<close>

definition copier :: "('a \<Rightarrow> memory \<Rightarrow> bool) \<Rightarrow> (memory \<Rightarrow> 'a \<Rightarrow> 'v) \<Rightarrow> (memory \<Rightarrow> 'a \<Rightarrow> addr set)
    \<Rightarrow> ('a \<Rightarrow> memory \<Rightarrow> 'a \<times> memory) \<Rightarrow> bool" where
  "copier ok val cells copy \<longleftrightarrow> (\<forall>x h x' h'. memory_ok h \<longrightarrow> ok x h \<longrightarrow> copy x h = (x', h') \<longrightarrow>
     memory_ok h' \<and> mem h \<subseteq>\<^sub>m mem h' \<and> ok x' h' \<and> val h' x' = val h x \<and> cells h' x' \<inter> dom (mem h) = {})"

lemma copierD:
  assumes "copier ok val cells copy" and "memory_ok h" and "ok x h" and "copy x h = (x', h')"
  shows "memory_ok h'" "mem h \<subseteq>\<^sub>m mem h'" "ok x' h'" "val h' x' = val h x" "cells h' x' \<inter> dom (mem h) = {}"
  using assms unfolding copier_def by blast+

locale memory_value =
  fixes ok :: "'a \<Rightarrow> memory \<Rightarrow> bool"
    and val :: "memory \<Rightarrow> 'a \<Rightarrow> 'v"
    and cells :: "memory \<Rightarrow> 'a \<Rightarrow> addr set"
  assumes cells_dom: "ok x h \<Longrightarrow> cells h x \<subseteq> dom (mem h)"
    and framed: "ok x h \<Longrightarrow> (\<And>a. a \<in> cells h x \<Longrightarrow> mem h' a = mem h a)
      \<Longrightarrow> ok x h' \<and> val h' x = val h x \<and> cells h' x = cells h x"
begin

lemma grown:
  assumes "ok x h" and "mem h \<subseteq>\<^sub>m mem h'"
  shows "ok x h'" "val h' x = val h x" "cells h' x = cells h x"
proof -
  have "mem h' a = mem h a" if "a \<in> cells h x" for a
    using assms(2) cells_dom [OF assms(1)] that unfolding map_le_def by (metis subsetD)
  from framed [OF assms(1) this] show "ok x h'" "val h' x = val h x" "cells h' x = cells h x"
    by blast+
qed

lemma overwritten:
  assumes "ok x h" and "a \<notin> cells h x"
  shows "val (overwrite a c h) x = val h x"
proof -
  have "mem (overwrite a c h) b = mem h b" if "b \<in> cells h x" for b
    using assms(2) that by (auto simp: overwrite_def)
  from framed [OF assms(1) this] show ?thesis by blast
qed

text \<open>The original and a copy do not influence each other.\<close>

lemma copied:
  assumes "copier ok val cells copy" and "memory_ok h" and "ok x h" and "copy x h = (x', h')"
  shows "val h' x = val h x" "val h' x' = val h x"
    and "a \<in> cells h x \<Longrightarrow> val (overwrite a c h') x' = val h x"
    and "a \<in> cells h' x' \<Longrightarrow> val (overwrite a c h') x = val h x"
proof -
  note new = copierD [OF assms]
  note old = grown [OF assms(3) new(2)]
  show "val h' x = val h x" "val h' x' = val h x" using old new by simp_all
  have "cells h x \<inter> cells h' x' = {}" using cells_dom [OF assms(3)] new(5) by blast
  then show "a \<in> cells h x \<Longrightarrow> val (overwrite a c h') x' = val h x"
    and "a \<in> cells h' x' \<Longrightarrow> val (overwrite a c h') x = val h x"
    using overwritten [OF new(3)] overwritten [OF old(1)] new(4) old(2,3) by auto
qed

end

text \<open>A pointer to such a value is such a value.\<close>

context memory_value
begin

lemma pointed: "memory_value (ptr_ok sel ok) (ptr_value sel val) (ptr_cells sel cells)"
proof
  fix p h
  assume "ptr_ok sel ok p h"
  then obtain x where x: "struct_at sel h p = Some x" "ok x h" by (auto simp: ptr_ok_def)
  then have "mem h p \<noteq> None" by (auto simp: struct_at_def bind_eq_Some_conv)
  with cells_dom [OF x(2)] x(1) show "ptr_cells sel cells h p \<subseteq> dom (mem h)"
    by (auto simp: ptr_cells_def)
next
  fix p h and h' :: memory
  assume "ptr_ok sel ok p h" and same: "\<And>a. a \<in> ptr_cells sel cells h p \<Longrightarrow> mem h' a = mem h a"
  then obtain x where x: "struct_at sel h p = Some x" "ok x h" by (auto simp: ptr_ok_def)
  have "struct_at sel h' p = Some x" using same [of p] x(1) by (simp add: struct_at_def ptr_cells_def)
  moreover have "mem h' a = mem h a" if "a \<in> cells h x" for a
    using that same [of a] x(1) by (simp add: ptr_cells_def)
  note framed [OF x(2) this]
  ultimately show "ptr_ok sel ok p h' \<and> ptr_value sel val h' p = ptr_value sel val h p
      \<and> ptr_cells sel cells h' p = ptr_cells sel cells h p"
    using x(1) by (simp add: ptr_ok_def ptr_value_def ptr_cells_def)
qed

end

lemmas value_defs = int_ok_def int_value_def time_ok_def time_value_def field_cells_def labels_ok_def
  labels_value_def owners_ok_def owners_value_def meta_ok_def meta_value_def meta_cells_def int_at_def time_at_def labels_at_def owners_at_def

interpretation int_field: memory_value int_ok int_value field_cells
  by unfold_locales (auto simp: value_defs intro!: option.map_cong)

interpretation time_field: memory_value time_ok time_value field_cells
  by unfold_locales (auto simp: value_defs intro!: option.map_cong)

interpretation labels_field: memory_value labels_ok labels_value field_cells
  by unfold_locales (auto simp: value_defs split: option.splits)

interpretation owners_field: memory_value owners_ok owners_value field_cells
  by unfold_locales (auto simp: value_defs split: option.splits)

interpretation meta_struct: memory_value meta_ok meta_value meta_cells
  by unfold_locales (auto simp: value_defs split: option.splits)

interpretation spec_struct: memory_value spec_ok spec_value spec_cells
  by unfold_locales (simp_all add: spec_ok_def spec_value_def spec_cells_def)

interpretation status_struct: memory_value status_ok status_value status_cells
proof
  fix st h
  assume "status_ok st h"
  then show "status_cells h st \<subseteq> dom (mem h)"
    unfolding status_ok_def status_cells_def by (intro Un_least int_field.cells_dom time_field.cells_dom) simp_all
next
  fix st h and h' :: memory
  assume "status_ok st h" and "\<And>a. a \<in> status_cells h st \<Longrightarrow> mem h' a = mem h a"
  then show "status_ok st h' \<and> status_value h' st = status_value h st \<and> status_cells h' st = status_cells h st"
    using int_field.framed [of "gsObserved st" h h'] time_field.framed [of "gsExpiration st" h h']
    by (simp add: status_ok_def status_value_def status_cells_def)
qed

interpretation role_struct: memory_value role_ok role_value role_cells
proof
  fix r h
  assume "role_ok r h"
  then show "role_cells h r \<subseteq> dom (mem h)"
    unfolding role_ok_def role_cells_def by (intro Un_least meta_struct.cells_dom status_struct.cells_dom) simp_all
next
  fix r h and h' :: memory
  assume "role_ok r h" and "\<And>a. a \<in> role_cells h r \<Longrightarrow> mem h' a = mem h a"
  then show "role_ok r h' \<and> role_value h' r = role_value h r \<and> role_cells h' r = role_cells h r"
    using meta_struct.framed [of "grMeta r" h h'] status_struct.framed [of "grStatus r" h h']
    by (simp add: role_ok_def role_value_def role_cells_def)
qed

interpretation role_items: memory_value items_ok items_value items_cells
proof
  fix rs h
  assume "items_ok rs h"
  then show "items_cells h rs \<subseteq> dom (mem h)"
    unfolding items_ok_def items_cells_def by (intro UN_least role_struct.cells_dom) simp
next
  fix rs h and h' :: memory
  assume "items_ok rs h" and "\<And>a. a \<in> items_cells h rs \<Longrightarrow> mem h' a = mem h a"
  then have "role_ok r h' \<and> role_value h' r = role_value h r \<and> role_cells h' r = role_cells h r"
    if "r \<in> set rs" for r
    using that by (intro role_struct.framed) (auto simp: items_ok_def items_cells_def)
  then show "items_ok rs h' \<and> items_value h' rs = items_value h rs \<and> items_cells h' rs = items_cells h rs"
    by (simp add: items_ok_def items_value_def items_cells_def)
qed

interpretation list_meta_struct: memory_value list_meta_ok list_meta_value list_meta_cells
proof
  fix m h
  assume "list_meta_ok m h"
  then show "list_meta_cells h m \<subseteq> dom (mem h)"
    unfolding list_meta_ok_def list_meta_cells_def by (rule int_field.cells_dom)
next
  fix m h and h' :: memory
  assume "list_meta_ok m h" and "\<And>a. a \<in> list_meta_cells h m \<Longrightarrow> mem h' a = mem h a"
  then show "list_meta_ok m h' \<and> list_meta_value h' m = list_meta_value h m
      \<and> list_meta_cells h' m = list_meta_cells h m"
    using int_field.framed [of "lmRemaining m" h h']
    by (simp add: list_meta_ok_def list_meta_value_def list_meta_cells_def)
qed

interpretation list_struct: memory_value list_ok list_value list_cells
proof
  fix l h
  assume l: "list_ok l h"
  have "insert a (items_cells h (roles_at h a)) \<subseteq> dom (mem h)" if a: "glItems l = Some a" for a
    using l a role_items.cells_dom [of "roles_at h a" h] by (auto simp: list_ok_def roles_at_def)
  with l list_meta_struct.cells_dom [of "glMeta l" h] show "list_cells h l \<subseteq> dom (mem h)"
    unfolding list_ok_def list_cells_def by (intro Un_least UN_least) auto
next
  fix l h and h' :: memory
  assume l: "list_ok l h" and same: "\<And>a. a \<in> list_cells h l \<Longrightarrow> mem h' a = mem h a"
  have m: "list_meta_ok (glMeta l) h' \<and> list_meta_value h' (glMeta l) = list_meta_value h (glMeta l)
      \<and> list_meta_cells h' (glMeta l) = list_meta_cells h (glMeta l)"
    using l same by (intro list_meta_struct.framed) (auto simp: list_ok_def list_cells_def)
  show "list_ok l h' \<and> list_value h' l = list_value h l \<and> list_cells h' l = list_cells h l"
  proof (cases "glItems l")
    case None
    with m show ?thesis by (simp add: list_ok_def list_value_def list_cells_def)
  next
    case (Some a)
    with l obtain rs where rs: "mem h a = Some (CRoles rs)" "items_ok rs h" by (auto simp: list_ok_def)
    have "mem h' a = Some (CRoles rs)" using same [of a] Some rs(1) by (simp add: list_cells_def)
    moreover have "items_ok rs h' \<and> items_value h' rs = items_value h rs \<and> items_cells h' rs = items_cells h rs"
      using rs same Some by (intro role_items.framed) (auto simp: list_cells_def roles_at_def)
    ultimately show ?thesis
      using m Some rs by (simp add: list_ok_def list_value_def list_cells_def roles_at_def)
  qed
qed

interpretation role_pointer: memory_value "ptr_ok cell_role role_ok" "ptr_value cell_role role_value"
    "ptr_cells cell_role role_cells"
  by (rule role_struct.pointed)

interpretation list_pointer: memory_value "ptr_ok cell_list list_ok" "ptr_value cell_list list_value"
    "ptr_cells cell_list list_cells"
  by (rule list_struct.pointed)

section \<open>The copies are deep\<close>

definition copy_lib_ok :: "copy_lib \<Rightarrow> bool" where
  "copy_lib_ok lib \<longleftrightarrow> copier meta_ok meta_value meta_cells (MetaDeepCopy lib)
     \<and> copier list_meta_ok list_meta_value list_meta_cells (ListMetaDeepCopy lib)
     \<and> copier time_ok time_value field_cells (copy_pointer (TimeDeepCopy lib))"

lemma alloc_new:
  assumes "alloc c h = (a, h')" and "memory_ok h"
  shows "memory_ok h'" "mem h \<subseteq>\<^sub>m mem h'" "mem h' a = Some c" "a \<notin> dom (mem h)"
proof -
  have "mem h (next_addr h) = None" using assms(2) by (auto simp: memory_ok_def)
  then show "mem h \<subseteq>\<^sub>m mem h'" "a \<notin> dom (mem h)" "mem h' a = Some c"
    using assms(1) by (auto simp: alloc_def map_le_def)
  show "memory_ok h'" using assms by (auto simp: alloc_def memory_ok_def less_Suc_eq)
qed

lemma copier_int: "copier int_ok int_value field_cells (copy_pointer copy_int)"
  unfolding copier_def
proof (intro allI impI)
  fix p h p' h'
  assume h: "memory_ok h" and p: "int_ok p h" and copy: "copy_pointer copy_int p h = (p', h')"
  show "memory_ok h' \<and> mem h \<subseteq>\<^sub>m mem h' \<and> int_ok p' h' \<and> int_value h' p' = int_value h p
      \<and> field_cells h' p' \<inter> dom (mem h) = {}"
  proof (cases p)
    case None
    with h copy show ?thesis by (simp add: copy_pointer_def value_defs)
  next
    case (Some a)
    obtain b h1 where b: "alloc (CInt (int_at h a)) h = (b, h1)" by fastforce
    with copy Some have "p' = Some b" "h' = h1" by (simp_all add: copy_pointer_def copy_int_def)
    with alloc_new [OF b h] Some show ?thesis by (auto simp: value_defs)
  qed
qed

text \<open>Two copies, one after the other.\<close>

lemma copied_pair:
  assumes "memory_value ok1 val1 cells1" and "memory_value ok2 val2 cells2"
    and "copier ok1 val1 cells1 copy1" and "copier ok2 val2 cells2 copy2"
    and h: "memory_ok h" and "ok1 x h" and "ok2 y h"
    and copies: "copy1 x h = (x', h1)" "copy2 y h1 = (y', h2)"
  shows "memory_ok h2" "mem h \<subseteq>\<^sub>m mem h2" "ok1 x' h2" "ok2 y' h2" "val1 h2 x' = val1 h x"
    "val2 h2 y' = val2 h y" "(cells1 h2 x' \<union> cells2 h2 y') \<inter> dom (mem h) = {}"
proof -
  note first = copierD [OF assms(3) h assms(6) copies(1)]
  note y = memory_value.grown [OF assms(2,7) first(2)]
  note second = copierD [OF assms(4) first(1) y(1) copies(2)]
  note x = memory_value.grown [OF assms(1) first(3) second(2)]
  have "dom (mem h) \<subseteq> dom (mem h1)" using first(2) by (rule map_le_implies_dom_le)
  then show "(cells1 h2 x' \<union> cells2 h2 y') \<inter> dom (mem h) = {}"
    using first(5) second(5) unfolding x(3) by blast
  show "mem h \<subseteq>\<^sub>m mem h2" using first(2) second(2) by (rule map_le_trans)
  show "memory_ok h2" "ok1 x' h2" "ok2 y' h2" "val1 h2 x' = val1 h x" "val2 h2 y' = val2 h y"
    using first second x y by simp_all
qed

lemma copier_status:
  assumes "copy_lib_ok lib"
  shows "copier status_ok status_value status_cells (status_DeepCopyInto lib)"
  unfolding copier_def
proof (intro allI impI)
  fix st h st' h'
  assume h: "memory_ok h" and st: "status_ok st h" and copy: "status_DeepCopyInto lib st h = (st', h')"
  obtain p h1 where p: "copy_pointer copy_int (gsObserved st) h = (p, h1)" by fastforce
  obtain q h2 where q: "copy_pointer (TimeDeepCopy lib) (gsExpiration st) h1 = (q, h2)" by fastforce
  have "copier time_ok time_value field_cells (copy_pointer (TimeDeepCopy lib))"
    using assms by (simp add: copy_lib_ok_def)
  from copied_pair [OF int_field.memory_value_axioms time_field.memory_value_axioms copier_int this h _ _ p q]
  show "memory_ok h' \<and> mem h \<subseteq>\<^sub>m mem h' \<and> status_ok st' h' \<and> status_value h' st' = status_value h st
      \<and> status_cells h' st' \<inter> dom (mem h) = {}"
    using st copy p q by (auto simp: status_DeepCopyInto_def status_ok_def status_value_def status_cells_def)
qed

lemma copier_role:
  assumes "copy_lib_ok lib"
  shows "copier role_ok role_value role_cells (role_DeepCopyInto lib)"
  unfolding copier_def
proof (intro allI impI)
  fix r h r' h'
  assume h: "memory_ok h" and r: "role_ok r h" and copy: "role_DeepCopyInto lib r h = (r', h')"
  obtain m h1 where m: "MetaDeepCopy lib (grMeta r) h = (m, h1)" by fastforce
  obtain st h2 where st: "status_DeepCopyInto lib (grStatus r) h1 = (st, h2)" by fastforce
  have "copier meta_ok meta_value meta_cells (MetaDeepCopy lib)"
    using assms by (simp add: copy_lib_ok_def)
  from copied_pair [OF meta_struct.memory_value_axioms status_struct.memory_value_axioms this
      copier_status [OF assms] h _ _ m st]
  show "memory_ok h' \<and> mem h \<subseteq>\<^sub>m mem h' \<and> role_ok r' h' \<and> role_value h' r' = role_value h r
      \<and> role_cells h' r' \<inter> dom (mem h) = {}"
    using r copy m st by (auto simp: role_DeepCopyInto_def role_ok_def role_value_def role_cells_def)
qed

lemma copier_items:
  assumes "copy_lib_ok lib"
  shows "copier items_ok items_value items_cells (items_DeepCopyInto lib)"
  unfolding copier_def
proof (intro allI impI)
  fix rs h rs' h'
  assume "memory_ok h" and "items_ok rs h" and "items_DeepCopyInto lib rs h = (rs', h')"
  then show "memory_ok h' \<and> mem h \<subseteq>\<^sub>m mem h' \<and> items_ok rs' h' \<and> items_value h' rs' = items_value h rs
      \<and> items_cells h' rs' \<inter> dom (mem h) = {}"
  proof (induction rs arbitrary: h rs' h')
    case Nil
    then show ?case by (simp add: items_ok_def items_value_def items_cells_def)
  next
    case (Cons r rs)
    obtain r1 h1 where r1: "role_DeepCopyInto lib r h = (r1, h1)" by fastforce
    obtain rs2 h2 where rs2: "items_DeepCopyInto lib rs h1 = (rs2, h2)" by fastforce
    have rs': "rs' = r1 # rs2" "h' = h2" using Cons.prems(3) r1 rs2 by simp_all
    have ok: "role_ok r h" "items_ok rs h" using Cons.prems(2) by (simp_all add: items_ok_def)
    note first = copierD [OF copier_role [OF assms] Cons.prems(1) ok(1) r1]
    note rest = role_items.grown [OF ok(2) first(2)]
    from Cons.IH [OF first(1) rest(1) rs2]
    have second: "memory_ok h2" "mem h1 \<subseteq>\<^sub>m mem h2" "items_ok rs2 h2" "items_value h2 rs2 = items_value h1 rs"
      "items_cells h2 rs2 \<inter> dom (mem h1) = {}" by blast+
    note head = role_struct.grown [OF first(3) second(2)]
    have "dom (mem h) \<subseteq> dom (mem h1)" using first(2) by (rule map_le_implies_dom_le)
    then have "(role_cells h2 r1 \<union> items_cells h2 rs2) \<inter> dom (mem h) = {}"
      using first(5) second(5) unfolding head(3) by blast
    then show ?case
      using second(1,3,4) head(1,2) first(4) rest(2) map_le_trans [OF first(2) second(2)]
      by (simp add: rs' items_ok_def items_value_def items_cells_def)
  qed
qed

lemma copier_list:
  assumes "copy_lib_ok lib"
  shows "copier list_ok list_value list_cells (list_DeepCopyInto lib)"
  unfolding copier_def
proof (intro allI impI)
  fix l h l' h'
  assume h: "memory_ok h" and l: "list_ok l h" and copy: "list_DeepCopyInto lib l h = (l', h')"
  obtain m h1 where m: "ListMetaDeepCopy lib (glMeta l) h = (m, h1)" by fastforce
  have meta: "copier list_meta_ok list_meta_value list_meta_cells (ListMetaDeepCopy lib)"
    using assms by (simp add: copy_lib_ok_def)
  show "memory_ok h' \<and> mem h \<subseteq>\<^sub>m mem h' \<and> list_ok l' h' \<and> list_value h' l' = list_value h l
      \<and> list_cells h' l' \<inter> dom (mem h) = {}"
  proof (cases "glItems l")
    case None
    with l copy m copierD [OF meta h _ m] show ?thesis
      by (auto simp: list_DeepCopyInto_def list_ok_def list_value_def list_cells_def)
  next
    case (Some a)
    with l obtain rs where rs: "mem h a = Some (CRoles rs)" "items_ok rs h" by (auto simp: list_ok_def)
    have ml: "list_meta_ok (glMeta l) h" using l by (simp add: list_ok_def)
    from copierD(2) [OF meta h ml m] rs(1) have "roles_at h1 a = rs"
      by (auto simp: roles_at_def map_le_def dom_def split: option.splits)
    obtain rs2 h2 where rs2: "items_DeepCopyInto lib rs h1 = (rs2, h2)" by fastforce
    obtain b h3 where b: "alloc (CRoles rs2) h2 = (b, h3)" by fastforce
    have l': "l' = l\<lparr>glMeta := m, glItems := Some b\<rparr>" "h' = h3"
      using copy Some m rs2 b \<open>roles_at h1 a = rs\<close> by (simp_all add: list_DeepCopyInto_def)
    note both = copied_pair [OF list_meta_struct.memory_value_axioms role_items.memory_value_axioms meta
        copier_items [OF assms] h ml rs(2) m rs2]
    note new = alloc_new [OF b both(1)]
    note m3 = list_meta_struct.grown [OF both(3) new(2)]
    note rs3 = role_items.grown [OF both(4) new(2)]
    have "b \<notin> dom (mem h)" using new(4) map_le_implies_dom_le [OF both(2)] by blast
    then show ?thesis
      using new(1,3) map_le_trans [OF both(2) new(2)] m3 rs3 both(5-7) rs(1) Some
      by (auto simp: l' list_ok_def list_value_def list_cells_def roles_at_def)
  qed
qed

lemma new_copy_right:
  assumes "memory_value ok val cells" and "copier ok val cells copy" and "\<And>x. sel (mk x) = Some x"
    and h: "memory_ok h" and x: "struct_at sel h p = Some x" "ok x h"
    and new: "new_copy copy mk x h = (b, h')"
  shows "memory_ok h'" "mem h \<subseteq>\<^sub>m mem h'" "ptr_ok sel ok b h'" "ptr_value sel val h' b = ptr_value sel val h p"
    "ptr_cells sel cells h' b \<inter> dom (mem h) = {}"
proof -
  obtain x1 h1 where copy: "copy x h = (x1, h1)" by fastforce
  with new have b: "alloc (mk x1) h1 = (b, h')" by (simp add: new_copy_def)
  note first = copierD [OF assms(2) h x(2) copy]
  note second = alloc_new [OF b first(1)]
  note x1 = memory_value.grown [OF assms(1) first(3) second(2)]
  have at: "struct_at sel h' b = Some x1" using second(3) assms(3) by (simp add: struct_at_def)
  have "b \<notin> dom (mem h)" using second(4) map_le_implies_dom_le [OF first(2)] by blast
  then show "memory_ok h'" "mem h \<subseteq>\<^sub>m mem h'" "ptr_ok sel ok b h'" "ptr_value sel val h' b = ptr_value sel val h p"
    "ptr_cells sel cells h' b \<inter> dom (mem h) = {}"
    using second(1) map_le_trans [OF first(2) second(2)] x1 first(4,5) x at
    by (auto simp: ptr_ok_def ptr_value_def ptr_cells_def)
qed

text \<open>
  What a deep copy is to the caller: nil of nil; else a pointer to an equal value, such that whatever is
  written to any cell of the one leaves the value of the other as it was.
\<close>

definition deep_copies :: "(cell \<Rightarrow> 'a option) \<Rightarrow> ('a \<Rightarrow> memory \<Rightarrow> bool) \<Rightarrow> (memory \<Rightarrow> 'a \<Rightarrow> 'v)
    \<Rightarrow> (memory \<Rightarrow> 'a \<Rightarrow> addr set) \<Rightarrow> (addr option \<Rightarrow> memory \<Rightarrow> addr option \<times> memory) \<Rightarrow> bool" where
  "deep_copies sel ok val cells copy \<longleftrightarrow> (\<forall>h. copy None h = (None, h))
     \<and> (\<forall>p h q h'. memory_ok h \<longrightarrow> ptr_ok sel ok p h \<longrightarrow> copy (Some p) h = (q, h') \<longrightarrow>
          (\<exists>b. q = Some b \<and> ptr_ok sel ok b h'
             \<and> ptr_value sel val h' b = ptr_value sel val h p \<and> ptr_value sel val h' p = ptr_value sel val h p
             \<and> (\<forall>a c. a \<in> ptr_cells sel cells h p \<longrightarrow>
                  ptr_value sel val (overwrite a c h') b = ptr_value sel val h p)
             \<and> (\<forall>a c. a \<in> ptr_cells sel cells h' b \<longrightarrow>
                  ptr_value sel val (overwrite a c h') p = ptr_value sel val h p)))"

lemma deep_copiesI:
  assumes v: "memory_value ok val cells" and copier: "copier ok val cells copy" and sel: "\<And>x. sel (mk x) = Some x"
    and nil: "\<And>h. C None h = (None, h)"
    and ptr: "\<And>p h x. struct_at sel h p = Some x \<Longrightarrow>
      C (Some p) h = (case new_copy copy mk x h of (b, h') \<Rightarrow> (Some b, h'))"
  shows "deep_copies sel ok val cells C"
  unfolding deep_copies_def
proof (intro conjI allI impI)
  show "C None h = (None, h)" for h by (rule nil)
  fix p h q h'
  assume h: "memory_ok h" and p: "ptr_ok sel ok p h" and C: "C (Some p) h = (q, h')"
  note pointer = memory_value.pointed [OF v, of sel]
  from p obtain x where x: "struct_at sel h p = Some x" "ok x h" by (auto simp: ptr_ok_def)
  obtain b where b: "new_copy copy mk x h = (b, h')" "q = Some b"
    using C ptr [OF x(1)] by (auto split: prod.splits)
  note new = new_copy_right [OF v copier sel h x b(1)]
  note old = memory_value.grown [OF pointer p new(2)]
  have "ptr_cells sel cells h p \<inter> ptr_cells sel cells h' b = {}"
    using memory_value.cells_dom [OF pointer p] new(5) by blast
  then have "ptr_value sel val (overwrite a c h') b = ptr_value sel val h p"
      if "a \<in> ptr_cells sel cells h p" for a c
    using memory_value.overwritten [OF pointer new(3)] new(4) that by auto
  moreover have "ptr_value sel val (overwrite a c h') p = ptr_value sel val h p"
      if "a \<in> ptr_cells sel cells h' b" for a c
    using memory_value.overwritten [OF pointer old(1)] old(2,3) that
      \<open>ptr_cells sel cells h p \<inter> ptr_cells sel cells h' b = {}\<close> by auto
  ultimately show "\<exists>b. q = Some b \<and> ptr_ok sel ok b h'
      \<and> ptr_value sel val h' b = ptr_value sel val h p \<and> ptr_value sel val h' p = ptr_value sel val h p
      \<and> (\<forall>a c. a \<in> ptr_cells sel cells h p \<longrightarrow> ptr_value sel val (overwrite a c h') b = ptr_value sel val h p)
      \<and> (\<forall>a c. a \<in> ptr_cells sel cells h' b \<longrightarrow> ptr_value sel val (overwrite a c h') p = ptr_value sel val h p)"
    using b(2) new(3,4) old(2) by blast
qed

lemma copier_spec: "copier spec_ok spec_value spec_cells (\<lambda>sp h. (spec_DeepCopyInto sp, h))"
  by (auto simp: copier_def spec_ok_def spec_value_def spec_cells_def spec_DeepCopyInto_def)

lemmas DeepCopy_defs = role_DeepCopy_def list_DeepCopy_def spec_DeepCopy_def status_DeepCopy_def
  struct_at_def bind_eq_Some_conv cell_iff

text \<open>
  C40: The generated deep copies are deep: when the library's copies of its own types are, then
  \<open>DeepCopy\<close> of an \<open>AWSIAMRole\<close>, of a list of them, of a spec and of a status yields nil for nil, and else
  a pointer to a value that equals the original, labels, owners, status pointers, and the roles of the
  list included; after that no write to a cell of the one is seen through the other.
\<close>

theorem copies_are_deep:
  assumes "copy_lib_ok lib"
  shows "deep_copies cell_role role_ok role_value role_cells (role_DeepCopy lib)
    \<and> deep_copies cell_list list_ok list_value list_cells (list_DeepCopy lib)
    \<and> deep_copies cell_spec spec_ok spec_value spec_cells spec_DeepCopy
    \<and> deep_copies cell_status status_ok status_value status_cells (status_DeepCopy lib)"
proof (intro conjI)
  show "deep_copies cell_role role_ok role_value role_cells (role_DeepCopy lib)"
    by (rule deep_copiesI [OF role_struct.memory_value_axioms copier_role [OF assms], where mk = CRole])
      (auto simp: DeepCopy_defs)
  show "deep_copies cell_list list_ok list_value list_cells (list_DeepCopy lib)"
    by (rule deep_copiesI [OF list_struct.memory_value_axioms copier_list [OF assms], where mk = CList])
      (auto simp: DeepCopy_defs)
  show "deep_copies cell_spec spec_ok spec_value spec_cells spec_DeepCopy"
    by (rule deep_copiesI [OF spec_struct.memory_value_axioms copier_spec, where mk = CSpec])
      (auto simp: DeepCopy_defs new_copy_def)
  show "deep_copies cell_status status_ok status_value status_cells (status_DeepCopy lib)"
    by (rule deep_copiesI [OF status_struct.memory_value_axioms copier_status [OF assms], where mk = CStatus])
      (auto simp: DeepCopy_defs)
qed

text \<open>A library that copies field by field, and a role with its labels in memory.\<close>

definition copy_cell :: "addr \<Rightarrow> memory \<Rightarrow> addr \<times> memory" where
  "copy_cell a h = (case mem h a of Some c \<Rightarrow> alloc c h | None \<Rightarrow> (a, h))"

definition example_copy_lib :: copy_lib where
  "example_copy_lib =
     \<lparr>MetaDeepCopy = (\<lambda>m h.
        let (l, h) = copy_pointer copy_cell (gmLabels m) h; (rs, h) = copy_pointer copy_cell (gmOwners m) h
        in (m\<lparr>gmLabels := l, gmOwners := rs\<rparr>, h)),
      ListMetaDeepCopy = (\<lambda>m h.
        let (n, h) = copy_pointer copy_int (lmRemaining m) h in (m\<lparr>lmRemaining := n\<rparr>, h)),
      TimeDeepCopy = copy_cell\<rparr>"

definition example_memory :: memory where
  "example_memory =
     \<lparr>mem = [0 \<mapsto> CLabels [''app'' \<mapsto> ''web''], 1 \<mapsto> CInt 3,
        2 \<mapsto> CRole
          \<lparr>grType = \<lparr>APIVersion = ''zalando.org/v1'', Kind = ''AWSIAMRole''\<rparr>,
           grMeta = \<lparr>gmName = ''app'', gmNamespace = ''default'', gmUID = ''1'', gmResourceVersion = ''7'',
             gmGeneration = 3, gmLabels = Some 0, gmOwners = None\<rparr>,
           grSpec = \<lparr>RoleReference = ''app-role'', RoleSessionDuration = 3600\<rparr>,
           grStatus = \<lparr>gsObserved = Some 1, gsRoleARN = ''arn'', gsExpiration = None\<rparr>\<rparr>],
      next_addr = 3\<rparr>"

lemma copier_cell:
  assumes "\<And>a b h h' c. mem h a = Some c \<Longrightarrow> mem h' b = Some c \<Longrightarrow> ok (Some a) h \<Longrightarrow>
      ok (Some b) h' \<and> val h' (Some b) = val h (Some a)"
    and "\<And>a h. ok (Some a) h \<Longrightarrow> mem h a \<noteq> None"
    and "\<And>h h'. ok None h' \<and> val h' None = val h None"
  shows "copier ok val field_cells (copy_pointer copy_cell)"
  unfolding copier_def
proof (intro allI impI)
  fix p h p' h'
  assume h: "memory_ok h" and p: "ok p h" and copy: "copy_pointer copy_cell p h = (p', h')"
  show "memory_ok h' \<and> mem h \<subseteq>\<^sub>m mem h' \<and> ok p' h' \<and> val h' p' = val h p
      \<and> field_cells h' p' \<inter> dom (mem h) = {}"
  proof (cases p)
    case None
    with h copy assms(3) [of h' h] p show ?thesis by (auto simp: copy_pointer_def field_cells_def)
  next
    case (Some a)
    then obtain c where c: "mem h a = Some c" using p assms(2) [of a h] by auto
    obtain b h1 where b: "alloc c h = (b, h1)" by fastforce
    with copy Some c have "p' = Some b" "h' = h1" by (simp_all add: copy_pointer_def copy_cell_def)
    with alloc_new [OF b h] Some assms(1) [OF c, of h1 b] p show ?thesis by (auto simp: field_cells_def)
  qed
qed

lemma copier_time: "copier time_ok time_value field_cells (copy_pointer copy_cell)"
  by (rule copier_cell) (auto simp: value_defs)

lemma copier_labels: "copier labels_ok labels_value field_cells (copy_pointer copy_cell)"
  by (rule copier_cell) (auto simp: value_defs)

lemma copier_owners: "copier owners_ok owners_value field_cells (copy_pointer copy_cell)"
  by (rule copier_cell) (auto simp: value_defs)

lemma example_copies: "copy_lib_ok example_copy_lib"
  unfolding copy_lib_ok_def
proof (intro conjI)
  show "copier meta_ok meta_value meta_cells (MetaDeepCopy example_copy_lib)"
    unfolding copier_def
  proof (intro allI impI)
    fix m h m' h'
    assume h: "memory_ok h" and m: "meta_ok m h" and copy: "MetaDeepCopy example_copy_lib m h = (m', h')"
    obtain l h1 where l: "copy_pointer copy_cell (gmLabels m) h = (l, h1)" by fastforce
    obtain rs h2 where rs: "copy_pointer copy_cell (gmOwners m) h1 = (rs, h2)" by fastforce
    from copied_pair [OF labels_field.memory_value_axioms owners_field.memory_value_axioms copier_labels
        copier_owners h _ _ l rs]
    show "memory_ok h' \<and> mem h \<subseteq>\<^sub>m mem h' \<and> meta_ok m' h' \<and> meta_value h' m' = meta_value h m
        \<and> meta_cells h' m' \<inter> dom (mem h) = {}"
      using m copy l rs by (auto simp: example_copy_lib_def meta_ok_def meta_value_def meta_cells_def)
  qed
  show "copier list_meta_ok list_meta_value list_meta_cells (ListMetaDeepCopy example_copy_lib)"
    unfolding copier_def
  proof (intro allI impI)
    fix m h m' h'
    assume h: "memory_ok h" and m: "list_meta_ok m h"
      and copy: "ListMetaDeepCopy example_copy_lib m h = (m', h')"
    obtain n h1 where n: "copy_pointer copy_int (lmRemaining m) h = (n, h1)" by fastforce
    with copy have "m' = m\<lparr>lmRemaining := n\<rparr>" "h' = h1" by (simp_all add: example_copy_lib_def)
    with copierD [OF copier_int h _ n] m
    show "memory_ok h' \<and> mem h \<subseteq>\<^sub>m mem h' \<and> list_meta_ok m' h' \<and> list_meta_value h' m' = list_meta_value h m
        \<and> list_meta_cells h' m' \<inter> dom (mem h) = {}"
      by (simp add: list_meta_ok_def list_meta_value_def list_meta_cells_def)
  qed
  show "copier time_ok time_value field_cells (copy_pointer (TimeDeepCopy example_copy_lib))"
    using copier_time by (simp add: example_copy_lib_def)
qed

lemma example_memory_ok: "memory_ok example_memory" "ptr_ok cell_role role_ok 2 example_memory"
  by (simp_all add: memory_ok_def example_memory_def ptr_ok_def struct_at_def cell_role_def role_ok_def meta_ok_def
      labels_ok_def owners_ok_def status_ok_def int_ok_def time_ok_def)

text \<open>Relabelling the role of the example leaves the copy with the old labels.\<close>

lemma copies_are_deep_witness:
  "\<exists>q h'. role_DeepCopy example_copy_lib (Some 2) example_memory = (Some q, h')
    \<and> ptr_value cell_role role_value (overwrite 0 (CLabels Map.empty) h') q
        = ptr_value cell_role role_value example_memory 2"
proof -
  obtain q h' where copy: "role_DeepCopy example_copy_lib (Some 2) example_memory = (q, h')" by fastforce
  have "0 \<in> ptr_cells cell_role role_cells example_memory 2"
    by (simp add: example_memory_def ptr_cells_def struct_at_def cell_role_def role_cells_def meta_cells_def
        field_cells_def)
  with copies_are_deep [OF example_copies, THEN conjunct1, unfolded deep_copies_def, THEN conjunct2, rule_format,
      OF example_memory_ok copy]
  show ?thesis using copy by auto
qed

end
