(* ===== verification/Spec2Isabelle.thy ===== *)
theory Spec2Isabelle
  imports Deployment Recovery CallBounds FakeClientset DeepCopy
begin

text \<open>
  kube-aws-iam-controller: a Kubernetes controller that keeps secrets with temporary AWS credentials.
  For every \<open>AWSIAMRole\<close> resource it keeps one secret of the same name, with credentials of the role the
  resource refers to, and renews it before the credentials expire; an older mechanism does the same
  for roles that pods use.  This library models the Go program under \<^verbatim>\<open>src/\<close> function by function.

  Parts of the program and the theories that model them:

  \<^item> \<open>Prelude\<close>: results of Go functions (\<open>Ok\<close>, \<open>Err\<close>, \<open>Panic\<close>), programs that call the world outside
    and leave a trace of their calls, \<open>for ... range\<close>, the logics over traces, Go strings.
  \<^item> \<open>GoNum\<close>, \<open>GoTime\<close>, \<open>GoTimeFormat\<close>, \<open>GoJson\<close>: what the program uses of \<^verbatim>\<open>strconv\<close>, \<^verbatim>\<open>time\<close> and
    \<^verbatim>\<open>encoding/json\<close>: decimal numbers, instants and the calendar, RFC 3339 text, JSON strings and
    objects; with the round trips of each.
  \<^item> \<open>RoleStore\<close>: \<^verbatim>\<open>role_store.go\<close>, nested maps from roles to namespaces to pods (locale \<open>role_index\<close>).
  \<^item> \<open>CredentialsGetter\<close>: \<^verbatim>\<open>credentials_getter.go\<close>, role ARNs, session names, AssumeRole (locale
    \<open>credentials_getter\<close>); the AWS SDK is the record \<open>aws\<close>, a parameter.
  \<^item> \<open>ApiTypes\<close>: \<^verbatim>\<open>pkg/apis/zalando.org/v1/types.go\<close>, secrets, events, and the client, clock and getter
    of a controller as the record \<open>env\<close>, a parameter; every call through it is logged as a \<open>call\<close>.
  \<^item> \<open>SecretData\<close>: the contents of a secret and the expiry test, which both controllers share.
  \<^item> \<open>AWSIAMRoleController\<close>: \<^verbatim>\<open>awsiamrole_controller.go\<close>; its \<open>refresh\<close> is \<open>AWSIAMRole_refresh\<close>, with one
    definition per loop (\<open>refresh_owned\<close>, \<open>delete_orphan\<close>, \<open>reconcile_role\<close>) and per branch of the last
    one (\<open>renew_outdated\<close>, \<open>sync_status\<close>, \<open>provision\<close>).  \<open>AWSIAMRoleRefresh\<close> proves what it does.
  \<^item> \<open>SecretsController\<close>: \<^verbatim>\<open>secrets_controller.go\<close>; its \<open>refresh\<close> is \<open>Secrets_refresh\<close>, with the loops
    \<open>refresh_unowned\<close> and \<open>provision_used\<close>.  \<open>SecretsRefresh\<close> proves what it does.
  \<^item> \<open>Process\<close>: the two \<open>Run\<close> methods, the liveness check and the signal handler as a transition system.
  \<^item> \<open>MainProgram\<close>: \<^verbatim>\<open>main.go\<close> up to there, from the flags on.  It puts together \<open>ClientConfig\<close>, which is
    \<open>ConfigureKubeConfig\<close> and the clientset of \<^verbatim>\<open>pkg/clientset/unified.go\<close> with the generated
    constructors below it; \<open>Startup\<close>, the role ARNs and the two controllers; and \<open>Recorder\<close>,
    \<^verbatim>\<open>pkg/recorder/recorder.go\<close>.  The libraries are the records \<open>client_lib\<close>, \<open>recorder_lib\<close> and
    \<open>outside\<close>, parameters.  \<open>Deployment\<close> joins this start, the process and the cluster.
  \<^item> \<open>Cluster\<close>: the cluster behind the client, and what an API server promises of each call; \<open>serves e v\<close>
    says that the environment \<open>e\<close> keeps these promises for the cluster that \<open>v\<close> shows.  \<open>MemoryCluster\<close>
    is such an environment.  \<open>Orphans\<close> and \<open>Convergence\<close> prove what refreshes of the role controller make
    of the cluster, \<open>Interference\<close> what one does while others write to it, \<open>SecretsCluster\<close> what
    refreshes of the secrets controller and of both controllers do, and \<open>CallBounds\<close> how many calls they make.
  \<^item> \<open>Reconciliation\<close>: the abstract specification of a refresh, a function \<open>reconciled\<close> from a role and the
    secret of its name to the secret there is to be, and the proof that the code implements it.
    \<open>Recovery\<close>: what the running process makes of a cluster that has seen any failures.
  \<^item> \<open>Informers\<close>: \<^verbatim>\<open>pkg/client/informers\<close>, the generated factory as a transition system with goroutines;
    the informers themselves are client-go's, the record \<open>informer_lib\<close>.  \<open>Listers\<close>:
    \<^verbatim>\<open>pkg/client/listers\<close> and the \<open>Lister\<close> methods of the informers.
  \<^item> \<open>Scheme\<close>: the registration of the API types, \<^verbatim>\<open>register.go\<close> of the types, of the clientset and of its
    fake; \<open>FakeClientset\<close>: the fake clientset of the tests.  Schemes, trackers and reactors are the
    library's (\<open>scheme_lib\<close>, \<open>fake_lib\<close>).
  \<^item> \<open>DeepCopy\<close>: \<^verbatim>\<open>zz_generated.deepcopy.go\<close> over an explicit memory (locale \<open>memory_value\<close>); the copies
    of the library's own types are the record \<open>copy_lib\<close>.
  \<^item> \<open>Examples\<close>: the concrete values at which the properties are applied.

  How the properties of a refresh are proved: an inductive relation lists the calls of every branch of
  a loop body (\<open>owned_trace\<close>, \<open>reconcile_trace\<close>, \<open>sync_trace\<close>; \<open>unowned_trace\<close>, \<open>used_trace\<close>), one lemma
  shows that the body follows it whatever the environment answers, and \<open>loop_trace\<close> and \<open>seq_trace\<close>
  lift this to the whole refresh.  Each property is then an induction over traces.  The statements
  \<open>emits (after_listing c P) (AWSIAMRole_refresh e c)\<close> say that a refresh stops with the error of the
  first list that fails, having made no other call, and that otherwise \<open>P\<close> relates the listed secrets
  and roles, the result and the later calls; they hold for every environment \<open>e\<close>, which is to say for
  every behaviour of the API server, of AWS and of the clock.

  What the lemmas show: which calls each controller may make and which secrets it deletes; that what it
  stores was made for the right role; that nothing is left out, whatever fails; that a refresh ends,
  after a number of calls its lists bound; that a provisioned cluster is settled and a settled one left
  alone; that secrets are renewed in time; that the two controllers keep out of each other's way; what
  session names look like and when making one panics; that the role store is right after any history;
  and of the process, that the refreshes of the role controller are an interval apart, while the
  secrets controller does not run as long as its HTTP server is up, and its liveness check expires.  Of
  a cluster whose API server keeps its promises: that a refresh whose deletions succeed leaves no
  orphan, that a refresh with a reliable server does what its abstract specification says, at every
  name at once, and leaves each role with credentials that last for the refresh limit, that the process
  recovers from whatever has failed in two such refreshes, that a refresh of the secrets controller
  without failures gives every used role its secret, and that refreshes of both controllers, in any
  order and with any failures, keep what they have reached and each other's secrets; the calls of a refresh
  (\<open>follows\<close>) are run on the cluster (\<open>steps\<close>), and invariants of the run
  give what holds at its end.  Where others write between the calls, a run is of
  \<open>shared_step\<close>: under the guarantee that nobody else makes secrets owned by roles
  (\<open>harmless\<close>), which the secrets controller gives, no live secret is ever deleted; and
  with the flag for a namespace the whole program stays in it, whatever others do.  Of the start: that
  the program starts whole or ends with the message of the first step that fails, for the reason that
  this step names, and with which base role ARN and session names it starts.  Of the generated code:
  that the clients connect as configured and know the API types, that informers are shared and never
  run twice, that all listers read one cache, that \<open>Shutdown\<close> is final, and that deep
  copies are equal and share nothing.

  Bounds.  Generations, durations and intervals are 64-bit words; \<open>roleSessionDuration\<close> wraps as the
  code does.  Instants are unbounded integers of nanoseconds, as the range of \<open>time.Time\<close> is out of
  reach; \<open>Sub\<close> saturates.  There is no fuel: every definition terminates, and the unbounded loops of
  \<open>Run\<close> are runs of the transition system.

  Not modelled: log lines; what the libraries do, beyond the laws named where they are used; the
  requests of the typed client, which a generic client of client-go makes, here the calls of \<open>env\<close>;
  interfaces and the empty types for their extension, which have no code.  A refresh is one step of the
  process; that its calls and those of others interleave is the subject of \<open>Interference\<close> and \<open>Recovery\<close>,
  for the role controller.  Of secrets and metadata the fields are those the program reads or writes.
  A reliable server (\<open>reliable_step\<close>) may refuse an object whose resource version is outdated, as the
  documentation says of one; nothing is assumed of when it accepts one.
\<close>

section \<open>The two controllers share a cluster\<close>

text \<open>
  The controllers keep out of each other's way.  A secret that the role controller creates carries
  the labels that both controllers list by, but it has an owner, so a turn of the secrets controller
  does nothing with it; a secret that the secrets controller creates lacks the label by which the
  role controller lists, so that controller never sees it.
\<close>

theorem controllers_disjoint:
  "awsIAMRoleOwnerLabels \<subseteq>\<^sub>m Labels (SecretMeta (new_secret r data))
    \<and> ownerLabels \<subseteq>\<^sub>m Labels (SecretMeta (new_secret r data))
    \<and> refresh_unowned e c (new_secret r data) st = ret (Ok st)
    \<and> \<not> awsIAMRoleOwnerLabels \<subseteq>\<^sub>m Labels (SecretMeta (role_secret role ns data'))"
proof -
  have "awsIAMRoleOwnerLabels \<subseteq>\<^sub>m Labels (SecretMeta (new_secret r data))"
    by (simp add: new_secret_def mergeLabels_def)
  moreover have "ownerLabels \<subseteq>\<^sub>m awsIAMRoleOwnerLabels"
    by (simp add: ownerLabels_def awsIAMRoleOwnerLabels_def map_le_def heritageLabelKey_def)
  moreover have "refresh_unowned e c (new_secret r data) st = ret (Ok st)"
    by (simp add: refresh_unowned_def new_secret_def)
  moreover have "\<not> awsIAMRoleOwnerLabels \<subseteq>\<^sub>m ownerLabels"
  proof -
    have "awsIAMRoleOwnerLabels ''type'' = Some ''awsiamrole''" "ownerLabels ''type'' = None"
      by (simp_all add: awsIAMRoleOwnerLabels_def ownerLabels_def heritageLabelKey_def)
    then show ?thesis by (auto simp: map_le_def dom_def)
  qed
  ultimately show ?thesis
    by (auto simp: role_secret_def intro: map_le_trans)
qed

section \<open>What a stored expiry does\<close>

text \<open>
  C19: Credentials are refreshed in time and not before: a secret written for credentials is due at every
  instant at which less than the refresh limit is left of them, and at an instant at which it is due,
  less than the refresh limit and a second is left.
\<close>

theorem refreshed_in_time:
  assumes "credentials_data creds = Ok (creds', data)" and "expressible (Expiration creds)"
  shows "if nanos (gotime.at (Expiration creds)) < nanos (gotime.at t) + sint limit
    then due_at limit (Data (renewed r data s)) t
    else \<not> due_at limit (Data (renewed r data s)) t
      \<or> nanos (gotime.at (Expiration creds)) < nanos (gotime.at t) + sint limit + second"
proof -
  have u: "expiry_of (Data (renewed r data s)) = Some (truncate_second (Expiration creds))"
    using expiry_of_stored [OF assms] by simp
  note parsed = rfc3339.parse_fmt [OF assms(2)]
  have at: "nanos (gotime.at (add_duration (UTC t) limit)) = nanos (gotime.at t) + sint limit"
    by (simp add: add_duration_def UTC_def)
  have due: "due_at limit (Data (renewed r data s)) t \<longleftrightarrow>
      After (add_duration (UTC t) limit) (truncate_second (Expiration creds))"
    unfolding due_at_def u by simp
  show ?thesis
    using rfc3339.stored_not_later [OF assms(2) parsed]
      rfc3339.stored_after [OF assms(2) parsed, of "add_duration (UTC t) limit"]
    unfolding due by (auto simp: After_def less_instant_def less_eq_instant_def at)
qed

theorem refreshed_in_time_witness:
  "\<exists>data. credentials_data example_credentials = Ok (example_credentials, data)
    \<and> due_at 900000000000 (Data (renewed example_role data example_secret)) example_time"
proof -
  obtain data where "credentials_data example_credentials = Ok (example_credentials, data)"
    using example_credentials_data by blast
  with refreshed_in_time [OF this example_credentials_ok(4), of example_time 900000000000 example_role example_secret]
  show ?thesis by (auto simp: example_credentials_def)
qed

section \<open>A cluster that has been provisioned\<close>

text \<open>The secrets and the roles as a refresh leaves them that provisions roles with given credentials.\<close>

definition provisioned_secrets :: "(awsiamrole \<times> credentials \<times> string_map) list \<Rightarrow> secret list" where
  "provisioned_secrets ps = map (\<lambda>(r, creds, data). new_secret r data) ps"

definition provisioned_roles :: "(awsiamrole \<times> credentials \<times> string_map) list \<Rightarrow> awsiamrole list" where
  "provisioned_roles ps = map (\<lambda>(r, creds, data). with_status r (RoleARN creds) (Expiration creds)) ps"

lemma provisioned_secrets_map:
  assumes "distinct (map (\<lambda>(r, creds, data). map_key (RoleMeta r)) ps)" and "(r, creds, data) \<in> set ps"
  shows "secrets_map (provisioned_secrets ps) (map_key (RoleMeta r)) = Some (new_secret r data)"
proof -
  let ?kvs = "map (\<lambda>s. (map_key (SecretMeta s), s)) (provisioned_secrets ps)"
  have keys: "map fst ?kvs = map (\<lambda>(r, creds, data). map_key (RoleMeta r)) ps"
    by (auto simp: provisioned_secrets_def comp_def split: prod.split)
  have "(map_key (RoleMeta r), new_secret r data) \<in> set ?kvs"
    using assms(2) by (force simp: provisioned_secrets_def)
  then have "map_of ?kvs (map_key (RoleMeta r)) = Some (new_secret r data)"
    using assms(1) unfolding keys [symmetric] by (rule map_of_is_SomeI [rotated])
  then show ?thesis
    using assms(1) unfolding secrets_map_eq keys [symmetric] by (simp only: map_of_rev)
qed

lemma provisioned_roles_map:
  assumes "distinct (map (\<lambda>(r, creds, data). map_key (RoleMeta r)) ps)" and "(r, creds, data) \<in> set ps"
  shows "roles_map (provisioned_roles ps) (map_key (RoleMeta r)) =
    Some (with_status r (RoleARN creds) (Expiration creds))"
proof -
  let ?kvs = "map (\<lambda>r. (map_key (RoleMeta r), r)) (provisioned_roles ps)"
  have keys: "map fst ?kvs = map (\<lambda>(r, creds, data). map_key (RoleMeta r)) ps"
    by (auto simp: provisioned_roles_def comp_def split: prod.split)
  have "(map_key (RoleMeta r), with_status r (RoleARN creds) (Expiration creds)) \<in> set ?kvs"
    using assms(2) by (force simp: provisioned_roles_def)
  then have "map_of ?kvs (map_key (RoleMeta r)) = Some (with_status r (RoleARN creds) (Expiration creds))"
    using assms(1) unfolding keys [symmetric] by (rule map_of_is_SomeI [rotated])
  then show ?thesis
    using assms(1) unfolding roles_map_eq keys [symmetric] by (simp only: map_of_rev)
qed

text \<open>
  Provisioning converges: for roles with different names or namespaces, the secrets a refresh
  creates for them and the statuses it reports make a settled cluster, which the next refresh leaves
  alone until a secret is due.
\<close>

theorem provisioned_settled:
  assumes "distinct (map (\<lambda>(r, creds, data). map_key (RoleMeta r)) ps)"
    and "list_all (\<lambda>(r, creds, data). credentials_data creds = Ok (creds, data)
      \<and> expressible (Expiration creds)) ps"
  shows "settled (provisioned_secrets ps) (provisioned_roles ps)"
proof -
  have "settled_secret (roles_map (provisioned_roles ps)) (new_secret r data)
      \<and> settled_role (secrets_map (provisioned_secrets ps)) (with_status r (RoleARN creds) (Expiration creds))"
    if "(r, creds, data) \<in> set ps" for r creds data
    using provisioned_roles_map [OF assms(1) that] provisioned_secrets_map [OF assms(1) that] that assms(2)
    by (auto simp: settled_secret_def settled_role_def orphan_def isOwnedReference_iff list_all_iff
      expiry_of_stored getGeneration_stored)
  then show ?thesis
    unfolding settled_def list_all_iff
    by (auto simp: provisioned_secrets_def provisioned_roles_def)
qed

theorem provisioned_settled_witness:
  "\<exists>data. settled (provisioned_secrets [(example_role, example_credentials, data)])
    (provisioned_roles [(example_role, example_credentials, data)])"
proof -
  obtain data where "credentials_data example_credentials = Ok (example_credentials, data)"
    using example_credentials_data by blast
  with provisioned_settled [of "[(example_role, example_credentials, data)]"] example_credentials_ok(4)
  show ?thesis by auto
qed

section \<open>The program's credentials getter\<close>

text \<open>A stored secret names the ARN that the getter resolves for the role of its name.\<close>

definition stores_arn :: "(string \<Rightarrow> string) \<Rightarrow> awsiamrole list \<Rightarrow> call \<Rightarrow> bool" where
  "stores_arn arn_of roles c =
     (case stored c of
        None \<Rightarrow> True
      | Some s \<Rightarrow> \<exists>r \<in> set roles. map_key (SecretMeta s) = map_key (RoleMeta r)
          \<and> data_lookup (Data s) roleARNKey = Some (arn_of (RoleReference (Spec r))))"

context credentials_getter
begin

lemma fed_stores_arn:
  assumes "GetCreds e = get" and "fed_trace roles p cs"
    and "list_all (answered e) cs" and "case p of None \<Rightarrow> True | Some c \<Rightarrow> answered e c"
  shows "list_all (stores_arn arn_of roles) cs"
  using assms(2-4)
proof (induction cs arbitrary: p)
  case (Cons c cs)
  have "stores_arn arn_of roles c"
  proof (cases "stored c")
    case (Some s)
    with Cons.prems(1) obtain r creds data where r: "r \<in> set roles" "map_key (SecretMeta s) = map_key (RoleMeta r)"
      "p = Some (asks r (Ok creds))" "credentials_data creds = Ok (creds, data)"
      "Data s = Some (data(awsIAMRoleGenerationKey \<mapsto> show_int (sint (Generation (RoleMeta r)))))"
      by (auto simp: fed_def)
    from r(3) Cons.prems(3) obtain w w'
      where "get (RoleReference (Spec r)) (roleSessionDuration r) w = (Ok creds, w')"
      by (auto simp: assms(1))
    then have "RoleARN creds = arn_of (RoleReference (Spec r))" by (rule get_arn)
    moreover have "roleARNKey \<noteq> awsIAMRoleGenerationKey" by (simp add: key_defs)
    ultimately show ?thesis
      using Some r credentials_data_expiry(2) [OF r(4)] by (auto simp: stores_arn_def)
  qed (simp add: stores_arn_def)
  moreover have "list_all (stores_arn arn_of roles) cs"
    using Cons by auto
  ultimately show ?case by simp
qed simp

end

text \<open>
  C24: With the STS getter, every secret the role controller writes is for a listed role of its name and
  namespace and records the ARN which that role's reference resolves to.
\<close>

theorem stored_arn_resolved:
  "emits (after_listing c (\<lambda>secrets roles r cs. list_all (stores_arn (resolveRoleARN g) roles) cs))
    (AWSIAMRole_refresh (e\<lparr>GetCreds := sts_get aws g\<rparr>) c)"
proof (rule emits_refresh_answered)
  fix secrets roles r cs
  assume "listed_trace c secrets roles r cs" and "list_all (answered (e\<lparr>GetCreds := sts_get aws g\<rparr>)) cs"
  then show "list_all (stores_arn (resolveRoleARN g) roles) cs"
    by (intro sts.fed_stores_arn [OF _ listed_trace_fed]) simp_all
qed

end
